(* ===== verification/Prelude.thy ===== *)
theory Prelude
  imports Main "HOL-Library.Word" "HOL-Library.Signed_Division" "HOL-Library.Monad_Syntax"
begin

text \<open>
  Shared vocabulary of the development: Go's fixed-width integers, the pieces of Go's
  standard library several packages use (\<open>strings.Cut\<close>), and the generic lemmas the
  component theories build on.

  A Go \<open>int64\<close> is an \<open>int\<close> kept in range by \<open>wrap64\<close>: every arithmetic operation of
  the source that can leave the range is written with the operations below, which wrap
  around in two's complement (\<open>wrap64_eq_sint\<close> states the agreement with \<open>64 word\<close>).
\<close>

section \<open>Machine integers\<close>

type_synonym int64 = int
type_synonym uint64 = int

definition in_int64 :: "int \<Rightarrow> bool" where
  "in_int64 x \<longleftrightarrow> - (2 ^ 63) \<le> x \<and> x < 2 ^ 63"

definition wrap64 :: "int \<Rightarrow> int64" where
  "wrap64 x = (x + 2 ^ 63) mod 2 ^ 64 - 2 ^ 63"

definition wrap_u64 :: "int \<Rightarrow> uint64" where
  "wrap_u64 x = x mod 2 ^ 64"

abbreviation min_int64 :: int64 where
  "min_int64 \<equiv> - 9223372036854775808"

abbreviation max_int64 :: int64 where
  "max_int64 \<equiv> 9223372036854775807"

definition i64_add :: "int64 \<Rightarrow> int64 \<Rightarrow> int64" where
  "i64_add a b = wrap64 (a + b)"

definition i64_sub :: "int64 \<Rightarrow> int64 \<Rightarrow> int64" where
  "i64_sub a b = wrap64 (a - b)"

definition i64_mul :: "int64 \<Rightarrow> int64 \<Rightarrow> int64" where
  "i64_mul a b = wrap64 (a * b)"

definition i64_neg :: "int64 \<Rightarrow> int64" where
  "i64_neg a = wrap64 (- a)"

text \<open>
  Go's \<open>/\<close> and \<open>%\<close> truncate towards zero; the quotient of the most negative value by
  \<open>-1\<close> wraps back to itself. A zero divisor panics, so callers test it first.
\<close>

definition i64_div :: "int64 \<Rightarrow> int64 \<Rightarrow> int64" where
  "i64_div a b = wrap64 (a sdiv b)"

definition i64_mod :: "int64 \<Rightarrow> int64 \<Rightarrow> int64" where
  "i64_mod a b = wrap64 (a smod b)"

named_theorems i64_defs \<open>unfolds the wrapping operations\<close>

declare i64_add_def [i64_defs] i64_sub_def [i64_defs] i64_mul_def [i64_defs]
  i64_neg_def [i64_defs] i64_div_def [i64_defs] i64_mod_def [i64_defs]

section \<open>Strings\<close>

text \<open>\<open>strings.Cut(s, sep)\<close> for a one-byte separator: before, after, found.\<close>

fun strings_Cut :: "string \<Rightarrow> char \<Rightarrow> string \<times> string \<times> bool" where
  "strings_Cut [] sep = ([], [], False)"
| "strings_Cut (c # cs) sep =
     (if c = sep then ([], cs, True)
      else (case strings_Cut cs sep of (b, a, f) \<Rightarrow> (c # b, a, f)))"

text \<open>Decimal rendering: \<open>fmt\<close>'s \<open>%d\<close> and zero-padded \<open>%0*d\<close>.\<close>

definition digit_char :: "nat \<Rightarrow> char" where
  "digit_char d = char_of (48 + d)"

definition is_digit :: "char \<Rightarrow> bool" where
  "is_digit c \<longleftrightarrow> 48 \<le> (of_char c :: nat) \<and> (of_char c :: nat) \<le> 57"

definition digit_val :: "char \<Rightarrow> nat" where
  "digit_val c = of_char c - 48"

fun dec_digits :: "nat \<Rightarrow> string" where
  "dec_digits n =
     (if n < 10 then [digit_char n] else dec_digits (n div 10) @ [digit_char (n mod 10)])"

declare dec_digits.simps [simp del]

definition fmt_d :: "int \<Rightarrow> string" where
  "fmt_d x = (if x < 0 then CHR ''-'' # dec_digits (nat (- x)) else dec_digits (nat x))"

definition zero_pad :: "nat \<Rightarrow> string \<Rightarrow> string" where
  "zero_pad w s = replicate (w - length s) (CHR ''0'') @ s"

definition fmt_0d :: "nat \<Rightarrow> int \<Rightarrow> string" where
  "fmt_0d w x = (if x < 0 then CHR ''-'' # zero_pad (w - 1) (dec_digits (nat (- x)))
                 else zero_pad w (dec_digits (nat x)))"

text \<open>The value of a digit string, most significant digit first.\<close>

definition dec_val :: "string \<Rightarrow> nat" where
  "dec_val s = foldl (\<lambda>n c. n * 10 + digit_val c) 0 s"

section \<open>Lemmas on machine integers\<close>

lemma wrap64_id [simp]: "in_int64 x \<Longrightarrow> wrap64 x = x"
  by (simp add: in_int64_def wrap64_def)

lemma in_int64_wrap64 [simp, intro]: "in_int64 (wrap64 x)"
  using pos_mod_bound [of "2 ^ 64" "x + 2 ^ 63"] pos_mod_sign [of "2 ^ 64" "x + 2 ^ 63"]
  by (simp add: in_int64_def wrap64_def)

lemma wrap64_eq_iff: "wrap64 x = x \<longleftrightarrow> in_int64 x"
  by (metis in_int64_wrap64 wrap64_id)

lemma wrap64_decomp: "\<exists>k. wrap64 x = x - k * 2 ^ 64"
proof -
  have "wrap64 x = x - ((x + 2 ^ 63) div 2 ^ 64) * 2 ^ 64"
    by (simp add: wrap64_def minus_div_mult_eq_mod [symmetric])
  then show ?thesis by blast
qed

lemma wrap64_shift: "wrap64 (x + k * 2 ^ 64) = wrap64 x"
proof -
  have "x + k * 2 ^ 64 + 2 ^ 63 = (x + 2 ^ 63) + k * (2 ^ 64 :: int)" by simp
  then show ?thesis by (simp only: wrap64_def mod_mult_self1)
qed

lemma wrap64_add_left: "wrap64 (wrap64 a + b) = wrap64 (a + b)"
proof -
  obtain k where "wrap64 a = a - k * 2 ^ 64" using wrap64_decomp by blast
  then have "wrap64 a + b = (a + b) + (- k) * 2 ^ 64" by simp
  then show ?thesis by (simp only: wrap64_shift)
qed

lemma wrap64_eq_sint: "wrap64 x = sint (word_of_int x :: 64 word)"
  by (simp add: wrap64_def sint_sbintrunc' signed_take_bit_eq_take_bit_shift take_bit_eq_mod)

lemma in_int64_interval:
  "in_int64 x \<longleftrightarrow> min_int64 \<le> x \<and> x \<le> max_int64"
  by (auto simp: in_int64_def)

lemma in_int64_0 [simp]: "in_int64 0"
  by (simp add: in_int64_def)

lemma in_int64_mono: "in_int64 x \<Longrightarrow> 0 \<le> y \<Longrightarrow> y \<le> x \<Longrightarrow> in_int64 y"
  by (simp add: in_int64_def)

lemma in_int64_diff:
  "in_int64 x \<Longrightarrow> in_int64 y \<Longrightarrow> 0 \<le> x \<Longrightarrow> 0 \<le> y \<Longrightarrow> in_int64 (x - y)"
  by (simp add: in_int64_def)

lemma in_int64_uminus: "in_int64 x \<Longrightarrow> 0 \<le> x \<Longrightarrow> in_int64 (- x)"
  by (simp add: in_int64_def)

lemma div_le_dividend_int:
  fixes a p :: int
  assumes "0 \<le> a" "0 < p"
  shows "a div p \<le> a"
proof -
  have "a div p * 1 \<le> a div p * p"
    using assms by (intro mult_left_mono) (auto simp: pos_imp_zdiv_nonneg_iff)
  also have "\<dots> \<le> a"
    using assms pos_mod_sign [of p a] by (simp add: minus_mod_eq_div_mult [symmetric])
  finally show ?thesis by simp
qed

text \<open>
  Truncating division recovers the dividend up to less than the divisor. Both overflow
  guards of the source (\<open>r/factor != a\<close> and \<open>lockAmt/price != qty\<close>) rest on it.
\<close>

lemma sdiv_remainder_small:
  fixes a b :: int
  assumes "b \<noteq> 0"
  shows "\<bar>a - (a sdiv b) * b\<bar> < \<bar>b\<bar>"
proof -
  have "a - (a sdiv b) * b = a smod b"
    by (rule minus_sdiv_mult_eq_smod)
  moreover have "\<bar>a smod b\<bar> < \<bar>b\<bar>"
    using assms by (simp add: signed_modulo_int_def abs_mult sgn_if)
  ultimately show ?thesis by simp
qed

lemma multiple_within_wrap:
  fixes k d :: int
  assumes "\<bar>k * 2 ^ 64\<bar> < d" and "d \<le> 2 ^ 63"
  shows "k = 0"
proof (rule ccontr)
  assume "k \<noteq> 0"
  then have "1 \<le> \<bar>k\<bar>" by linarith
  then have "(2::int) ^ 64 \<le> \<bar>k * 2 ^ 64\<bar>" by (simp add: abs_mult)
  with assms show False by simp
qed

lemma sdiv_pos_in_int64:
  assumes "0 < p" "in_int64 w"
  shows "in_int64 (w sdiv p)"
proof (cases "0 \<le> w")
  case True
  with assms(1) have "0 \<le> w sdiv p" and "w sdiv p \<le> w"
    by (auto simp: signed_divide_int_def sgn_if pos_imp_zdiv_nonneg_iff intro: div_le_dividend_int)
  with assms(2) show ?thesis by (simp add: in_int64_def)
next
  case False
  with assms(1) have "w sdiv p = - ((- w) div p)"
    by (simp add: signed_divide_int_def sgn_if)
  moreover from False assms(1) have "0 \<le> (- w) div p" and "(- w) div p \<le> - w"
    by (auto simp: pos_imp_zdiv_nonneg_iff intro: div_le_dividend_int)
  ultimately show ?thesis using assms(2) by (simp add: in_int64_def)
qed

lemma mul_overflow_guard:
  assumes f: "f \<noteq> 0" and rng: "in_int64 a" "in_int64 f"
    and guard: "(wrap64 (a * f)) sdiv f = a"
  shows "in_int64 (a * f)"
proof -
  obtain k where k: "wrap64 (a * f) = a * f - k * 2 ^ 64"
    using wrap64_decomp by blast
  have "\<bar>wrap64 (a * f) - a * f\<bar> < \<bar>f\<bar>"
    using sdiv_remainder_small [OF f, of "wrap64 (a * f)"] guard by simp
  then have "\<bar>k * 2 ^ 64\<bar> < \<bar>f\<bar>" using k by simp
  moreover have "\<bar>f\<bar> \<le> 2 ^ 63" using rng(2) by (auto simp: in_int64_def abs_if)
  ultimately have "k = 0" by (rule multiple_within_wrap)
  with k have "wrap64 (a * f) = a * f" by simp
  then show ?thesis by (simp add: wrap64_eq_iff)
qed

lemma sdiv_mult_cancel:
  fixes a b :: int
  assumes "b \<noteq> 0"
  shows "(a * b) sdiv b = a"
  using assms by (simp add: signed_divide_int_eq_divide_int)

text \<open>The guard used with a positive factor is exact.\<close>

lemma pos_mul_guard_iff:
  assumes "0 < p" "in_int64 p" "in_int64 q"
  shows "i64_div (i64_mul p q) p = q \<longleftrightarrow> in_int64 (p * q)"
proof
  assume g: "i64_div (i64_mul p q) p = q"
  have "in_int64 (wrap64 (p * q) sdiv p)"
    using assms(1) by (rule sdiv_pos_in_int64) simp
  with g have "wrap64 (p * q) sdiv p = q" by (simp add: i64_defs)
  then have "(wrap64 (q * p)) sdiv p = q" by (simp add: mult.commute)
  with assms have "in_int64 (q * p)" by (intro mul_overflow_guard) auto
  then show "in_int64 (p * q)" by (simp add: mult.commute)
next
  assume "in_int64 (p * q)"
  then show "i64_div (i64_mul p q) p = q"
    using assms sdiv_mult_cancel [of p q] by (simp add: i64_defs mult.commute)
qed

section \<open>Lemmas on strings and lists\<close>

lemma digit_char_props [simp]:
  assumes "d < 10"
  shows "is_digit (digit_char d)" and "digit_val (digit_char d) = d"
  using assms by (auto simp: digit_char_def is_digit_def digit_val_def of_char_of take_bit_nat_eq_self)

lemma dec_digits_digit: "\<forall>c \<in> set (dec_digits n). is_digit c"
proof (induction n rule: dec_digits.induct)
  case (1 n)
  then show ?case by (subst dec_digits.simps) auto
qed

lemma dec_digits_nonempty [simp]: "dec_digits n \<noteq> []"
  by (subst dec_digits.simps) simp

lemma foldl_dec_val:
  "foldl (\<lambda>n c. n * 10 + digit_val c) a s = a * 10 ^ length s + dec_val s"
proof (induction s arbitrary: a)
  case Nil
  show ?case by (simp add: dec_val_def)
next
  case (Cons c s)
  have "dec_val (c # s) = digit_val c * 10 ^ length s + dec_val s"
    using Cons [of "digit_val c"] by (simp add: dec_val_def)
  with Cons [of "a * 10 + digit_val c"] show ?case
    by (simp add: algebra_simps)
qed

lemma dec_val_append: "dec_val (s @ t) = dec_val s * 10 ^ length t + dec_val t"
  using foldl_dec_val [of "dec_val s" t] by (simp add: dec_val_def)

lemma dec_val_simps [simp]:
  "dec_val [] = 0" "dec_val [c] = digit_val c"
  "dec_val (replicate n (CHR ''0'')) = 0"
proof -
  show "dec_val (replicate n (CHR ''0'')) = 0"
  proof (induction n)
    case (Suc n)
    then show ?case
      using dec_val_append [of "[CHR ''0'']" "replicate n (CHR ''0'')"]
      by (simp add: dec_val_def digit_val_def)
  qed (simp add: dec_val_def)
qed (simp_all add: dec_val_def)

lemma dec_val_dec_digits [simp]: "dec_val (dec_digits n) = n"
proof (induction n rule: dec_digits.induct)
  case (1 n)
  then show ?case
    by (subst dec_digits.simps) (simp add: dec_val_append)
qed

lemma dec_digits_inject [simp]: "dec_digits m = dec_digits n \<longleftrightarrow> m = n"
  by (metis dec_val_dec_digits)

lemma length_dec_digits_le: "0 < w \<Longrightarrow> n < 10 ^ w \<Longrightarrow> length (dec_digits n) \<le> w"
proof (induction n arbitrary: w rule: dec_digits.induct)
  case (1 n)
  show ?case
  proof (cases "n < 10")
    case True
    with "1.prems" show ?thesis by (subst dec_digits.simps) simp
  next
    case False
    obtain v where w: "w = Suc v" using "1.prems" by (cases w) auto
    with False "1.prems" have "0 < v" by (cases v) auto
    moreover have "n div 10 < 10 ^ v"
      using "1.prems" w by (simp add: less_mult_imp_div_less mult.commute)
    ultimately have "length (dec_digits (n div 10)) \<le> v"
      using "1.IH" False by blast
    with False w show ?thesis by (subst dec_digits.simps) simp
  qed
qed

lemma zero_pad_props:
  assumes "0 < w" "n < 10 ^ w"
  shows "length (zero_pad w (dec_digits n)) = w" and "dec_val (zero_pad w (dec_digits n)) = n"
    and "\<forall>c \<in> set (zero_pad w (dec_digits n)). is_digit c"
  using length_dec_digits_le [OF assms] dec_digits_digit [of n]
  by (auto simp: zero_pad_def dec_val_append is_digit_def)

lemma is_digit_not_minus: "\<forall>c \<in> set s. is_digit c \<Longrightarrow> CHR ''-'' \<notin> set s"
  by (auto simp: is_digit_def)

lemma fmt_d_inject [simp]: "fmt_d x = fmt_d y \<longleftrightarrow> x = y"
proof -
  have hd_ne: "dec_digits m \<noteq> CHR ''-'' # t" for m t
    using is_digit_not_minus [OF dec_digits_digit, of m] by auto
  then show ?thesis
    by (auto simp: fmt_d_def hd_ne hd_ne [symmetric])
qed

lemma strings_Cut_found:
  "sep \<notin> set b \<Longrightarrow> strings_Cut (b @ sep # a) sep = (b, a, True)"
  by (induction b) auto

lemma strings_Cut_not_found:
  "sep \<notin> set s \<Longrightarrow> strings_Cut s sep = (s, [], False)"
  by (induction s) auto

lemma strings_Cut_join:
  "strings_Cut s sep = (b, a, True) \<Longrightarrow> s = b @ sep # a \<and> sep \<notin> set b"
  by (induction s arbitrary: b) (auto split: if_splits prod.splits)

end
