(* ===== verification/Money.thy ===== *)
theory Money
  imports Prelude
begin

text \<open>
  The money type of \<open>libs/money/money.go\<close>: overflow-checked addition, subtraction and
  multiplication on \<open>int64\<close>, and the decimal parser and printer. The three arithmetic
  operations are proved exact (with one input of \<open>Mul\<close> excepted, see
  \<open>Amount_Mul_min_minus_one\<close>), and printing followed by parsing is the identity on every
  amount but the smallest.
\<close>

section \<open>Data and operations\<close>

type_synonym Amount = int64

datatype money_error = ErrOverflow | ErrNegative | ErrBadFormat

definition Amount_Add :: "Amount \<Rightarrow> Amount \<Rightarrow> money_error + Amount" where
  "Amount_Add a b =
     (let s = i64_add a b
      in if ((s > a) \<noteq> (b > 0)) \<and> b \<noteq> 0 then Inl ErrOverflow else Inr s)"

definition Amount_Sub :: "Amount \<Rightarrow> Amount \<Rightarrow> money_error + Amount" where
  "Amount_Sub a b =
     (let d = i64_sub a b
      in if ((d < a) \<noteq> (b > 0)) \<and> b \<noteq> 0 then Inl ErrOverflow else Inr d)"

definition Amount_IsNegative :: "Amount \<Rightarrow> bool" where
  "Amount_IsNegative a \<longleftrightarrow> a < 0"

definition Amount_IsZero :: "Amount \<Rightarrow> bool" where
  "Amount_IsZero a \<longleftrightarrow> a = 0"

definition Amount_Mul :: "Amount \<Rightarrow> int64 \<Rightarrow> money_error + Amount" where
  "Amount_Mul a factor =
     (if a = 0 \<or> factor = 0 then Inr 0
      else let r = i64_mul a factor
           in if i64_div r factor \<noteq> a then Inl ErrOverflow else Inr r)"

text \<open>
  \<open>strings.TrimSpace\<close> on UTF-8 bytes: the encodings of the code points for which
  \<open>unicode.IsSpace\<close> holds are stripped from both ends.
\<close>

definition bytes :: "nat list \<Rightarrow> string" where
  "bytes ns = map char_of ns"

definition space_seqs :: "string list" where
  "space_seqs = map bytes
     ([[9], [10], [11], [12], [13], [32], [194, 133], [194, 160], [225, 154, 128]]
      @ map (\<lambda>k. [226, 128, 128 + k]) [0, 1, 2, 3, 4, 5, 6, 7, 8, 9, 10]
      @ [[226, 128, 168], [226, 128, 169], [226, 128, 175], [226, 129, 159], [227, 128, 128]])"

definition has_prefix :: "string \<Rightarrow> string \<Rightarrow> bool" where
  "has_prefix s p \<longleftrightarrow> take (length p) s = p"

definition has_suffix :: "string \<Rightarrow> string \<Rightarrow> bool" where
  "has_suffix s p \<longleftrightarrow> has_prefix (rev s) (rev p)"

fun trim_left :: "nat \<Rightarrow> string \<Rightarrow> string" where
  "trim_left 0 s = s"
| "trim_left (Suc n) s =
     (case filter (has_prefix s) space_seqs of
        [] \<Rightarrow> s
      | p # _ \<Rightarrow> trim_left n (drop (length p) s))"

fun trim_right :: "nat \<Rightarrow> string \<Rightarrow> string" where
  "trim_right 0 s = s"
| "trim_right (Suc n) s =
     (case filter (has_suffix s) space_seqs of
        [] \<Rightarrow> s
      | p # _ \<Rightarrow> trim_right n (take (length s - length p) s))"

definition strings_TrimSpace :: "string \<Rightarrow> string" where
  "strings_TrimSpace s = (let t = trim_left (length s) s in trim_right (length t) t)"

text \<open>\<open>big.Int.SetString(s, 10)\<close>: an optional sign, then one or more decimal digits.\<close>

definition big_digits :: "string \<Rightarrow> int option" where
  "big_digits s = (if s \<noteq> [] \<and> list_all is_digit s then Some (int (dec_val s)) else None)"

definition big_SetString :: "string \<Rightarrow> int option" where
  "big_SetString s =
     (case s of
        [] \<Rightarrow> None
      | c # cs \<Rightarrow>
          if c = CHR ''-'' then map_option uminus (big_digits cs)
          else if c = CHR ''+'' then big_digits cs
          else big_digits (c # cs))"

definition cut_sign :: "string \<Rightarrow> bool \<times> string" where
  "cut_sign s =
     (case s of
        [] \<Rightarrow> (False, [])
      | c # cs \<Rightarrow>
          if c = CHR ''-'' then (True, cs)
          else if c = CHR ''+'' then (False, cs)
          else (False, c # cs))"

definition Parse :: "string \<Rightarrow> int \<Rightarrow> money_error + Amount" where
  "Parse s0 scale =
     (if scale < 0 \<or> scale > 18 then Inl ErrBadFormat
      else let s = strings_TrimSpace s0
      in if s = [] then Inl ErrBadFormat
      else let (neg, s) = cut_sign s;
               (intPart, fracPart, hasFrac) = strings_Cut s (CHR ''.'')
      in if hasFrac \<and> int (length fracPart) > scale then Inl ErrBadFormat
      else let fracPart = fracPart @ replicate (nat scale - length fracPart) (CHR ''0'');
               digits = intPart @ fracPart
      in if digits = [] then Inl ErrBadFormat
      else case big_SetString digits of
             None \<Rightarrow> Inl ErrBadFormat
           | Some n \<Rightarrow>
               if \<not> in_int64 n then Inl ErrOverflow
               else Inr (if neg then i64_neg n else n))"

text \<open>
  \<open>String\<close> converts \<open>math.Pow10(scale)\<close> to \<open>int64\<close>. Up to 18 the conversion is exact;
  beyond that Go leaves the result of the conversion to the implementation, so it is the
  parameter \<open>conv\<close>. A zero divisor panics (\<open>None\<close>).
\<close>

definition Amount_String :: "(int \<Rightarrow> int64) \<Rightarrow> Amount \<Rightarrow> int \<Rightarrow> string option" where
  "Amount_String conv a scale =
     (if scale \<le> 0 then Some (fmt_d a)
      else let neg = a < 0;
               v = (if neg then i64_neg a else a);
               dv = (if scale \<le> 18 then 10 ^ nat scale else conv scale)
      in if dv = 0 then None
      else let whole = i64_div v dv;
               frac = i64_mod v dv;
               sgn = (if neg then ''-'' else '''')
      in Some (sgn @ fmt_d whole @ ''.'' @ fmt_0d (nat scale) frac))"

section \<open>Checked arithmetic\<close>

lemma wrap64_sum_cases:
  assumes "in_int64 a" "in_int64 b"
  shows "wrap64 (a + b) = (if in_int64 (a + b) then a + b
           else if 0 < b then a + b - 2 ^ 64 else a + b + 2 ^ 64)"
proof -
  have "in_int64 (a + b - 2 ^ 64)" if "\<not> in_int64 (a + b)" "0 < b"
    using that assms by (simp add: in_int64_def)
  moreover have "in_int64 (a + b + 2 ^ 64)" if "\<not> in_int64 (a + b)" "\<not> 0 < b"
    using that assms by (simp add: in_int64_def)
  moreover have "wrap64 (a + b) = wrap64 (a + b - 2 ^ 64)" "wrap64 (a + b) = wrap64 (a + b + 2 ^ 64)"
    using wrap64_shift [of "a + b" "- 1"] wrap64_shift [of "a + b" 1] by simp_all
  ultimately show ?thesis by (metis wrap64_id)
qed

lemma wrap64_diff_cases:
  assumes "in_int64 a" "in_int64 b"
  shows "wrap64 (a - b) = (if in_int64 (a - b) then a - b
           else if 0 < b then a - b + 2 ^ 64 else a - b - 2 ^ 64)"
proof -
  have "in_int64 (a - b + 2 ^ 64)" if "\<not> in_int64 (a - b)" "0 < b"
    using that assms by (simp add: in_int64_def)
  moreover have "in_int64 (a - b - 2 ^ 64)" if "\<not> in_int64 (a - b)" "\<not> 0 < b"
    using that assms by (simp add: in_int64_def)
  moreover have "wrap64 (a - b) = wrap64 (a - b - 2 ^ 64)" "wrap64 (a - b) = wrap64 (a - b + 2 ^ 64)"
    using wrap64_shift [of "a - b" "- 1"] wrap64_shift [of "a - b" 1] by simp_all
  ultimately show ?thesis by (metis wrap64_id)
qed

text \<open>\<open>Add\<close> returns the exact sum, and reports overflow exactly when the sum does not
  fit in an \<open>int64\<close>.\<close>
theorem Amount_Add_exact:
  assumes "in_int64 a" "in_int64 b"
  shows "Amount_Add a b = (if in_int64 (a + b) then Inr (a + b) else Inl ErrOverflow)"
  using wrap64_sum_cases [OF assms] assms
  by (auto simp: Amount_Add_def i64_defs in_int64_def)

theorem Amount_Add_exact_witness:
  "Amount_Add 9223372036854775807 1 = Inl ErrOverflow \<and> Amount_Add 40 2 = Inr 42"
  using Amount_Add_exact [of 9223372036854775807 1] Amount_Add_exact [of 40 2]
  by (simp add: in_int64_def)

text \<open>\<open>Sub\<close> returns the exact difference, and reports overflow exactly when the
  difference does not fit in an \<open>int64\<close>.\<close>
theorem Amount_Sub_exact:
  assumes "in_int64 a" "in_int64 b"
  shows "Amount_Sub a b = (if in_int64 (a - b) then Inr (a - b) else Inl ErrOverflow)"
  using wrap64_diff_cases [OF assms] assms
  by (auto simp: Amount_Sub_def i64_defs in_int64_def)

theorem Amount_Sub_exact_witness:
  "Amount_Sub min_int64 1 = Inl ErrOverflow \<and> Amount_Sub 40 (- 2) = Inr 42"
  using Amount_Sub_exact [of min_int64 1] Amount_Sub_exact [of 40 "- 2"]
  by (simp add: in_int64_def)

lemma sdiv_in_int64:
  assumes "in_int64 r" "f \<noteq> 0" "f \<noteq> - 1"
  shows "in_int64 (r sdiv f)"
proof (cases "0 < f")
  case True
  then show ?thesis using assms(1) by (rule sdiv_pos_in_int64)
next
  case False
  let ?d = "\<bar>r\<bar> div \<bar>f\<bar>"
  have nn: "0 \<le> ?d" using assms(2) by (simp add: pos_imp_zdiv_nonneg_iff)
  have "?d * 2 \<le> ?d * \<bar>f\<bar>" using False assms nn by (intro mult_left_mono) auto
  also have "\<dots> \<le> \<bar>r\<bar>"
    using assms(2) pos_mod_sign [of "\<bar>f\<bar>" "\<bar>r\<bar>"] by (simp add: minus_mod_eq_div_mult [symmetric])
  also have "\<dots> \<le> 2 ^ 63" using assms(1) by (auto simp: in_int64_def abs_if)
  finally have "?d < 2 ^ 63" by simp
  moreover have "r sdiv f = ?d \<or> r sdiv f = - ?d"
    by (simp add: signed_divide_int_def sgn_if)
  ultimately show ?thesis using nn by (auto simp: in_int64_def)
qed

text \<open>C28: \<open>Mul\<close> returns the exact product, and reports overflow exactly when the product
  does not fit in an \<open>int64\<close>, for every amount and factor other than the most negative
  amount times \<open>-1\<close>.\<close>
theorem Amount_Mul_exact:
  assumes "in_int64 a" "in_int64 f" "\<not> (a = min_int64 \<and> f = - 1)"
  shows "Amount_Mul a f = (if in_int64 (a * f) then Inr (a * f) else Inl ErrOverflow)"
proof (cases "a = 0 \<or> f = 0")
  case True
  then show ?thesis by (auto simp: Amount_Mul_def)
next
  case False
  have "in_int64 (a * f)" if g: "i64_div (i64_mul a f) f = a"
  proof (cases "f = - 1")
    case True
    with assms show ?thesis by (simp add: in_int64_def)
  next
    case no: False
    then have "in_int64 (wrap64 (a * f) sdiv f)" using False by (intro sdiv_in_int64) auto
    with g have "wrap64 (a * f) sdiv f = a" by (simp add: i64_defs)
    with False assms show ?thesis by (intro mul_overflow_guard) auto
  qed
  moreover have "i64_div (i64_mul a f) f = a" if "in_int64 (a * f)"
    using that False assms(1) by (simp add: i64_defs sdiv_mult_cancel)
  ultimately have "i64_div (i64_mul a f) f = a \<longleftrightarrow> in_int64 (a * f)" by blast
  then show ?thesis using False by (simp add: Amount_Mul_def Let_def i64_mul_def)
qed

theorem Amount_Mul_exact_witness:
  "Amount_Mul 4611686018427387904 2 = Inl ErrOverflow \<and> Amount_Mul (- 6) 7 = Inr (- 42)"
  using Amount_Mul_exact [of 4611686018427387904 2] Amount_Mul_exact [of "- 6" 7]
  by (simp add: in_int64_def)

text \<open>the overflow guard of \<open>Mul\<close> misses one case. The most negative amount times
  \<open>-1\<close> is \<open>2^63\<close>, which does not fit, yet \<open>Mul\<close> reports success with the negative
  operand as the product: the wrapped product divided by \<open>-1\<close> wraps back to it.\<close>
theorem Amount_Mul_min_minus_one:
  "\<not> in_int64 (min_int64 * - 1) \<and> Amount_Mul min_int64 (- 1) = Inr min_int64"
  by (simp add: in_int64_def Amount_Mul_def i64_defs wrap64_def signed_divide_int_def)

section \<open>Parsing and printing\<close>

text \<open>Digits, signs and the point are not white space, so trimming keeps a decimal as it is.\<close>

definition decimal_char :: "char \<Rightarrow> bool" where
  "decimal_char c \<longleftrightarrow> (of_char c :: nat) \<in> {43, 45, 46} \<or> is_digit c"

lemma decimal_char_simps [simp]:
  "is_digit c \<Longrightarrow> decimal_char c"
  "decimal_char (CHR ''-'')" "decimal_char (CHR ''+'')" "decimal_char (CHR ''.'')"
  by (simp_all add: decimal_char_def)

lemma space_first_byte:
  "p \<in> set space_seqs \<Longrightarrow> has_prefix (c # cs) p \<Longrightarrow> \<not> decimal_char c"
  by (auto simp: space_seqs_def bytes_def has_prefix_def decimal_char_def is_digit_def of_char_of)

lemma space_last_byte:
  "p \<in> set space_seqs \<Longrightarrow> has_prefix (c # cs) (rev p) \<Longrightarrow> \<not> decimal_char c"
  by (auto simp: space_seqs_def bytes_def has_prefix_def decimal_char_def is_digit_def of_char_of)

lemma trim_left_id: "decimal_char c \<Longrightarrow> trim_left n (c # cs) = c # cs"
proof (cases n)
  case (Suc m)
  assume "decimal_char c"
  then have "filter (has_prefix (c # cs)) space_seqs = []"
    using space_first_byte by (fastforce simp: filter_empty_conv)
  with Suc show ?thesis by simp
qed simp

lemma trim_right_id: "decimal_char c \<Longrightarrow> trim_right n (cs @ [c]) = cs @ [c]"
proof (cases n)
  case (Suc m)
  assume "decimal_char c"
  then have "filter (has_suffix (cs @ [c])) space_seqs = []"
    using space_last_byte by (fastforce simp: filter_empty_conv has_suffix_def)
  with Suc show ?thesis by simp
qed simp

lemma TrimSpace_id:
  assumes "s \<noteq> []" "decimal_char (hd s)" "decimal_char (last s)"
  shows "strings_TrimSpace s = s"
proof -
  have l: "trim_left (length s) s = s"
    using assms(1,2) trim_left_id [of "hd s" "length s" "tl s"] by simp
  have r: "trim_right (length s) s = s"
    using assms(1,3) trim_right_id [of "last s" "length s" "butlast s"] by simp
  from l r show ?thesis by (simp add: strings_TrimSpace_def)
qed

lemma hd_digits_not_sign:
  assumes "s \<noteq> []" "\<forall>c \<in> set s. is_digit c"
  shows "hd s \<noteq> CHR ''-''" "hd s \<noteq> CHR ''+''"
  using assms by (cases s; auto simp: is_digit_def)+

lemma big_SetString_digits:
  assumes "s \<noteq> []" "\<forall>c \<in> set s. is_digit c"
  shows "big_SetString s = Some (int (dec_val s))"
proof -
  from hd_digits_not_sign [OF assms] assms show ?thesis
    by (cases s) (auto simp: big_SetString_def big_digits_def list_all_iff)
qed

text \<open>
  What \<open>Parse\<close> makes of a well-formed decimal: optional minus sign, integer digits,
  and optionally a point and at most \<open>scale\<close> fractional digits.
\<close>

definition minus_if :: "bool \<Rightarrow> string" where
  "minus_if neg = (if neg then ''-'' else [])"

lemma no_point: "\<forall>c \<in> set s. is_digit c \<Longrightarrow> CHR ''.'' \<notin> set s"
  by (auto simp: is_digit_def)

lemma cut_sign_digits:
  assumes "ip \<noteq> []" "\<forall>c \<in> set ip. is_digit c"
  shows "cut_sign (minus_if neg @ ip @ t) = (neg, ip @ t)"
proof -
  from hd_digits_not_sign [OF assms] assms(1) show ?thesis by (cases ip) (auto simp: cut_sign_def minus_if_def)
qed

lemma TrimSpace_decimal:
  assumes "ip \<noteq> []" "\<forall>c \<in> set ip. is_digit c" "t = [] \<or> (\<exists>c cs. t = cs @ [c] \<and> is_digit c)"
  shows "strings_TrimSpace (minus_if neg @ ip @ t) = minus_if neg @ ip @ t"
proof (rule TrimSpace_id)
  show "decimal_char (last (minus_if neg @ ip @ t))"
    using assms by (auto simp: last_append intro: last_in_set)
qed (use assms in \<open>auto simp: hd_append minus_if_def\<close>)

lemma Parse_decimal:
  assumes ip: "ip \<noteq> []" "\<forall>c \<in> set ip. is_digit c"
    and fp: "fp \<noteq> []" "\<forall>c \<in> set fp. is_digit c" "int (length fp) \<le> scale"
    and sc: "scale \<le> 18"
    and n: "n = int (dec_val ip * 10 ^ nat scale + dec_val fp * 10 ^ (nat scale - length fp))"
    and rng: "in_int64 n"
  shows "Parse (minus_if neg @ ip @ CHR ''.'' # fp) scale = Inr (if neg then - n else n)"
proof -
  let ?ds = "ip @ fp @ replicate (nat scale - length fp) (CHR ''0'')"
  have "CHR ''.'' # fp = (CHR ''.'' # butlast fp) @ [last fp]" "is_digit (last fp)"
    using fp by simp_all
  then have trim: "strings_TrimSpace (minus_if neg @ ip @ CHR ''.'' # fp)
      = minus_if neg @ ip @ CHR ''.'' # fp"
    by (intro TrimSpace_decimal [OF ip]) blast
  have cut: "strings_Cut (ip @ CHR ''.'' # fp) (CHR ''.'') = (ip, fp, True)"
    using strings_Cut_found [OF no_point [OF ip(2)]] by simp
  have "length fp \<le> nat scale" using fp(3) by simp
  then have "int (dec_val ?ds) = n"
    using n by (simp add: dec_val_append algebra_simps flip: power_add)
  moreover have "big_SetString ?ds = Some (int (dec_val ?ds))"
    using ip fp by (intro big_SetString_digits) (auto simp: is_digit_def)
  ultimately have big: "big_SetString ?ds = Some n" by simp
  have "0 \<le> n" using n by simp
  with rng have neg: "i64_neg n = - n" by (simp add: i64_defs in_int64_uminus)
  have "0 \<le> scale" using fp(3) by linarith
  then show ?thesis
    using trim cut big neg rng sc fp(3) ip(1) cut_sign_digits [OF ip, of neg "CHR ''.'' # fp"]
    by (simp add: Parse_def Let_def)
qed

lemma Parse_integer:
  assumes ip: "ip \<noteq> []" "\<forall>c \<in> set ip. is_digit c" and rng: "in_int64 (int (dec_val ip))"
  shows "Parse (minus_if neg @ ip) 0 = Inr (if neg then - int (dec_val ip) else int (dec_val ip))"
proof -
  have "i64_neg (int (dec_val ip)) = - int (dec_val ip)"
    using rng by (simp add: i64_defs in_int64_uminus)
  then show ?thesis
    using TrimSpace_decimal [OF ip, of "[]" neg] strings_Cut_not_found [OF no_point [OF ip(2)]]
      big_SetString_digits [OF ip] cut_sign_digits [OF ip, of neg "[]"] ip(1) rng
    by (simp add: Parse_def Let_def)
qed

lemma Amount_String_decimal:
  assumes "in_int64 a" "a \<noteq> min_int64" "0 < scale" "scale \<le> 18"
  defines "v \<equiv> nat \<bar>a\<bar>" and "dv \<equiv> 10 ^ nat scale"
  shows "Amount_String conv a scale
           = Some (minus_if (a < 0) @ dec_digits (v div dv)
                   @ CHR ''.'' # zero_pad (nat scale) (dec_digits (v mod dv)))"
proof -
  have abs: "(if a < 0 then i64_neg a else a) = int v"
    using assms(1,2) by (auto simp: i64_defs v_def in_int64_def)
  have rng: "in_int64 (int v)"
    using assms(1,2) by (auto simp: v_def in_int64_def)
  have "int v sdiv int dv = int (v div dv)" "int v smod int dv = int (v mod dv)"
    by (auto simp: signed_divide_int_def signed_modulo_int_def zdiv_int zmod_int sgn_if dv_def)
  moreover have "in_int64 (int (v div dv))" "in_int64 (int (v mod dv))"
    using rng by (auto elim!: in_int64_mono intro: div_le_dividend mod_less_eq_dividend)
  ultimately have "i64_div (int v) (int dv) = int (v div dv)"
      "i64_mod (int v) (int dv) = int (v mod dv)"
    by (simp_all add: i64_defs)
  moreover have "int dv = 10 ^ nat scale" "int dv \<noteq> 0" by (simp_all add: dv_def)
  ultimately show ?thesis
    using assms(3,4) abs
    by (simp add: Amount_String_def Let_def fmt_d_def fmt_0d_def minus_if_def)
qed

text \<open>C27: parsing what \<open>String\<close> prints gives the amount back, for every scale the schema
  allows (0 to 18) and every amount other than the most negative one, whatever the
  implementation does with powers of ten beyond the \<open>int64\<close> range.\<close>
theorem Parse_String_roundtrip:
  assumes "in_int64 a" "a \<noteq> min_int64" "0 \<le> scale" "scale \<le> 18"
  shows "\<exists>s. Amount_String conv a scale = Some s \<and> Parse s scale = Inr a"
proof (cases "scale = 0")
  case True
  have "fmt_d a = minus_if (a < 0) @ dec_digits (nat \<bar>a\<bar>)"
    by (simp add: fmt_d_def minus_if_def)
  moreover have "in_int64 (int (dec_val (dec_digits (nat \<bar>a\<bar>))))"
    using assms(1,2) by (auto simp: in_int64_def)
  then have "Parse (minus_if (a < 0) @ dec_digits (nat \<bar>a\<bar>)) 0 = Inr a"
    using Parse_integer [of "dec_digits (nat \<bar>a\<bar>)" "a < 0"] dec_digits_digit by simp
  ultimately show ?thesis using True by (simp add: Amount_String_def)
next
  case False
  let ?v = "nat \<bar>a\<bar>" and ?w = "nat scale"
  let ?fp = "zero_pad ?w (dec_digits (?v mod 10 ^ ?w))"
  have w: "0 < ?w" "?v mod 10 ^ ?w < 10 ^ ?w" using False assms(3) by simp_all
  note fp = zero_pad_props [OF w]
  have val: "int ?v = int (dec_val (dec_digits (?v div 10 ^ ?w)) * 10 ^ ?w
             + dec_val ?fp * 10 ^ (?w - length ?fp))"
    by (simp only: dec_val_dec_digits fp diff_self_eq_0 power_0 mult_1_right div_mult_mod_eq)
  have rng: "in_int64 (int ?v)" using assms(1,2) by (auto simp: in_int64_def)
  have ne: "?fp \<noteq> []" using fp(1) w(1) by auto
  have len: "int (length ?fp) \<le> scale" using fp(1) assms(3) by simp
  have "Parse (minus_if (a < 0) @ dec_digits (?v div 10 ^ ?w) @ CHR ''.'' # ?fp) scale
      = Inr (if a < 0 then - int ?v else int ?v)"
    by (rule Parse_decimal [OF dec_digits_nonempty dec_digits_digit ne fp(3) len assms(4) val rng])
  then show ?thesis
    using Amount_String_decimal [of a scale conv] assms False by auto
qed

theorem Parse_String_roundtrip_witness:
  "\<exists>s. Amount_String (\<lambda>_. min_int64) (- 150000000) 8 = Some s \<and> Parse s 8 = Inr (- 150000000)"
  using Parse_String_roundtrip [of "- 150000000" 8 "\<lambda>_. min_int64"] by (simp add: in_int64_def)

text \<open>\<open>Parse\<close> accepts malformed amounts. After it has consumed a leading sign, the
  digits go to \<open>big.Int.SetString\<close>, which takes a sign of its own, so a doubled minus reads
  as a positive amount and a sign inside the fraction as a negative one; and a lone sign
  reads as zero once the fraction is padded.\<close>
theorem Parse_accepts_malformed:
  "Parse ''--5'' 0 = Inr 5 \<and> Parse ''.-5'' 2 = Inr (- 5) \<and> Parse ''-'' 2 = Inr 0"
  by (simp add: Parse_def TrimSpace_id cut_sign_def big_SetString_def big_digits_def
      is_digit_def dec_val_def digit_val_def in_int64_def i64_defs wrap64_def numeral_2_eq_2)

end
