(* ===== verification/OrderBook.thy ===== *)
theory OrderBook
  imports Prelude
begin

text \<open>
  The limit order book of \<open>services/matching-engine/orderbook\<close> (\<open>orderbook.go\<close>,
  \<open>depth.go\<close>), as it is written: price levels are FIFO queues of pointers to orders, the
  prices of a side are kept in a sorted slice searched by bisection, and the \<open>live\<close> map
  points to the same order objects as the queues.

  The shared order objects are an explicit store: \<open>ob_heap\<close> maps a pointer to its order,
  the queues and \<open>live\<close> hold pointers, and an order's fields are written through the
  store. A \<open>*list.Element\<close> is represented by the pointer of the order it carries and a
  \<open>*bookSide\<close> by the side it serves. An operation that panics or does not return is
  \<open>None\<close>; \<open>BookRefine\<close> proves that this never happens on a well-formed book.
\<close>

section \<open>Data\<close>

datatype Side = Buy | Sell

type_synonym ptr = nat

datatype ob_error = ErrDuplicateID | ErrNotFound | ErrInvalid

record Order =
  ord_ID :: string
  ord_Side :: Side
  ord_Price :: int64
  ord_Quantity :: int64
  ord_Remaining :: int64
  ord_Seq :: int64
  ord_elem :: "ptr option"
  ord_side :: "Side option"

record Trade =
  tr_TakerOrderID :: string
  tr_MakerOrderID :: string
  tr_Price :: int64
  tr_Quantity :: int64

record bookSide =
  bs_side :: Side
  bs_levels :: "int64 \<rightharpoonup> ptr list"
  bs_prices :: "int64 list"

record OrderBook =
  ob_Symbol :: string
  ob_bids :: bookSide
  ob_asks :: bookSide
  ob_live :: "string \<rightharpoonup> ptr"
  ob_seq :: int64
  ob_heap :: "ptr \<Rightarrow> Order"
  ob_next :: ptr

record PriceLevel =
  pl_Price :: int64
  pl_Quantity :: int64

definition Side_String :: "Side \<Rightarrow> string" where
  "Side_String s = (if s = Buy then ''buy'' else ''sell'')"

definition zero_Order :: Order where
  "zero_Order = \<lparr>ord_ID = [], ord_Side = Buy, ord_Price = 0, ord_Quantity = 0,
     ord_Remaining = 0, ord_Seq = 0, ord_elem = None, ord_side = None\<rparr>"

definition newBookSide :: "Side \<Rightarrow> bookSide" where
  "newBookSide s = \<lparr>bs_side = s, bs_levels = Map.empty, bs_prices = []\<rparr>"

definition New_book :: "string \<Rightarrow> OrderBook" where
  "New_book symbol = \<lparr>ob_Symbol = symbol, ob_bids = newBookSide Buy, ob_asks = newBookSide Sell,
     ob_live = Map.empty, ob_seq = 0, ob_heap = (\<lambda>_. zero_Order), ob_next = 0\<rparr>"

definition get_side :: "Side \<Rightarrow> OrderBook \<Rightarrow> bookSide" where
  "get_side s ob = (case s of Buy \<Rightarrow> ob_bids ob | Sell \<Rightarrow> ob_asks ob)"

definition set_side :: "Side \<Rightarrow> bookSide \<Rightarrow> OrderBook \<Rightarrow> OrderBook" where
  "set_side s b ob = (case s of Buy \<Rightarrow> ob\<lparr>ob_bids := b\<rparr> | Sell \<Rightarrow> ob\<lparr>ob_asks := b\<rparr>)"

section \<open>One side of the book\<close>

text \<open>\<open>sort.Search(n, f)\<close>: bisection for the smallest index at which \<open>f\<close> holds.\<close>

function search_loop :: "(nat \<Rightarrow> bool) \<Rightarrow> nat \<Rightarrow> nat \<Rightarrow> nat" where
  "search_loop f i j =
     (if i < j
      then let h = (i + j) div 2
           in if \<not> f h then search_loop f (h + 1) j else search_loop f i h
      else i)"
  by pat_completeness auto
termination
  by (relation "measure (\<lambda>(f, i, j). j - i)") auto

declare search_loop.simps [simp del]

definition sort_Search :: "nat \<Rightarrow> (nat \<Rightarrow> bool) \<Rightarrow> nat" where
  "sort_Search n f = search_loop f 0 n"

definition best :: "bookSide \<Rightarrow> int64 option" where
  "best b =
     (if length (bs_prices b) = 0 then None
      else if bs_side b = Sell then Some (bs_prices b ! 0)
      else Some (bs_prices b ! (length (bs_prices b) - 1)))"

text \<open>
  \<open>insertPrice\<close> appends a zero, shifts the tail right by one with the overlapping
  \<open>copy(b.prices[i+1:], b.prices[i:])\<close>, and writes the price into the gap.
\<close>

definition shift_right :: "nat \<Rightarrow> int64 list \<Rightarrow> int64 list" where
  "shift_right i xs = take (i + 1) xs @ take (length xs - (i + 1)) (drop i xs)"

definition insertPrice :: "int64 \<Rightarrow> int64 list \<Rightarrow> int64 list" where
  "insertPrice p prices =
     (let i = sort_Search (length prices) (\<lambda>i. prices ! i \<ge> p)
      in (shift_right i (prices @ [0]))[i := p])"

definition removePrice :: "int64 \<Rightarrow> int64 list \<Rightarrow> int64 list" where
  "removePrice p prices =
     (let i = sort_Search (length prices) (\<lambda>i. prices ! i \<ge> p)
      in if i < length prices \<and> prices ! i = p
         then take i prices @ drop (i + 1) prices else prices)"

definition bs_add :: "ptr \<Rightarrow> (ptr \<Rightarrow> Order) \<Rightarrow> bookSide \<Rightarrow> (ptr \<Rightarrow> Order) \<times> bookSide" where
  "bs_add ord h b =
     (let p = ord_Price (h ord);
          (queue, b) = (case bs_levels b p of
             Some queue \<Rightarrow> (queue, b)
           | None \<Rightarrow> ([], b\<lparr>bs_levels := (bs_levels b)(p \<mapsto> []),
                           bs_prices := insertPrice p (bs_prices b)\<rparr>))
      in (h(ord := (h ord)\<lparr>ord_elem := Some ord, ord_side := Some (bs_side b)\<rparr>),
          b\<lparr>bs_levels := (bs_levels b)(p \<mapsto> queue @ [ord])\<rparr>))"

text \<open>A missing level and a nil element are nil dereferences: the code panics.\<close>

definition bs_remove :: "ptr \<Rightarrow> (ptr \<Rightarrow> Order) \<Rightarrow> bookSide \<Rightarrow> ((ptr \<Rightarrow> Order) \<times> bookSide) option" where
  "bs_remove ord h b =
     (let p = ord_Price (h ord)
      in case bs_levels b p of
           None \<Rightarrow> None
         | Some queue \<Rightarrow>
             (case ord_elem (h ord) of
                None \<Rightarrow> None
              | Some e \<Rightarrow>
                  let queue = remove1 e queue;
                      h = h(ord := (h ord)\<lparr>ord_elem := None\<rparr>)
                  in if length queue = 0
                     then Some (h, b\<lparr>bs_levels := (bs_levels b)(p := None),
                                     bs_prices := removePrice p (bs_prices b)\<rparr>)
                     else Some (h, b\<lparr>bs_levels := (bs_levels b)(p \<mapsto> queue)\<rparr>)))"

definition side_remove :: "Side \<Rightarrow> ptr \<Rightarrow> OrderBook \<Rightarrow> OrderBook option" where
  "side_remove s ord ob =
     (case bs_remove ord (ob_heap ob) (get_side s ob) of
        None \<Rightarrow> None
      | Some (h, b) \<Rightarrow> Some (set_side s b (ob\<lparr>ob_heap := h\<rparr>)))"

section \<open>Matching\<close>

definition crosses :: "Order \<Rightarrow> int64 \<Rightarrow> bool" where
  "crosses ord restingPrice =
     (if ord_Price ord = 0 then True
      else if ord_Side ord = Buy then ord_Price ord \<ge> restingPrice
      else ord_Price ord \<le> restingPrice)"

definition min64 :: "int64 \<Rightarrow> int64 \<Rightarrow> int64" where
  "min64 a b = (if a < b then a else b)"

definition opposite :: "Side \<Rightarrow> Side" where
  "opposite s = (if s = Sell then Buy else Sell)"

definition queue_at :: "Side \<Rightarrow> int64 \<Rightarrow> OrderBook \<Rightarrow> ptr list" where
  "queue_at s p ob = (case bs_levels (get_side s ob) p of None \<Rightarrow> [] | Some q \<Rightarrow> q)"

definition sub_remaining :: "ptr \<Rightarrow> int64 \<Rightarrow> OrderBook \<Rightarrow> OrderBook" where
  "sub_remaining ord q ob = ob\<lparr>ob_heap := (ob_heap ob)
     (ord := (ob_heap ob ord)\<lparr>ord_Remaining := i64_sub (ord_Remaining (ob_heap ob ord)) q\<rparr>)\<rparr>"

text \<open>
  The body of the inner loop of \<open>match\<close>: the taker \<open>o\<close> trades with the front of the
  queue at price \<open>p\<close> of side \<open>s\<close>.
\<close>

definition fill_front ::
  "ptr \<Rightarrow> Side \<Rightarrow> int64 \<Rightarrow> OrderBook \<Rightarrow> Trade list \<Rightarrow> (OrderBook \<times> Trade list) option" where
  "fill_front ord s p ob trades =
     (let maker = hd (queue_at s p ob);
          taker_o = ob_heap ob ord;
          maker_o = ob_heap ob maker;
          qty = min64 (ord_Remaining taker_o) (ord_Remaining maker_o);
          trades = trades @ [\<lparr>tr_TakerOrderID = ord_ID taker_o, tr_MakerOrderID = ord_ID maker_o,
                              tr_Price = p, tr_Quantity = qty\<rparr>];
          ob = sub_remaining maker qty (sub_remaining ord qty ob)
      in if ord_Remaining (ob_heap ob maker) = 0
         then (case side_remove s maker ob of
                 None \<Rightarrow> None
               | Some ob \<Rightarrow> Some (ob\<lparr>ob_live := (ob_live ob)(ord_ID maker_o := None)\<rparr>, trades))
         else Some (ob, trades))"

partial_function (option) match_queue ::
  "ptr \<Rightarrow> Side \<Rightarrow> int64 \<Rightarrow> OrderBook \<Rightarrow> Trade list \<Rightarrow> (OrderBook \<times> Trade list) option" where
  "match_queue ord s p ob trades =
     (if ord_Remaining (ob_heap ob ord) > 0 \<and> length (queue_at s p ob) > 0
      then Option.bind (fill_front ord s p ob trades)
             (\<lambda>(ob, trades). match_queue ord s p ob trades)
      else Some (ob, trades))"

partial_function (option) match_loop ::
  "ptr \<Rightarrow> Side \<Rightarrow> OrderBook \<Rightarrow> Trade list \<Rightarrow> (OrderBook \<times> Trade list) option" where
  "match_loop ord s ob trades =
     (if ord_Remaining (ob_heap ob ord) > 0
      then (case best (get_side s ob) of
              None \<Rightarrow> Some (ob, trades)
            | Some p \<Rightarrow>
                if \<not> crosses (ob_heap ob ord) p then Some (ob, trades)
                else if bs_levels (get_side s ob) p = None then None
                else Option.bind (match_queue ord s p ob trades)
                       (\<lambda>(ob, trades). match_loop ord s ob trades))
      else Some (ob, trades))"

declare match_queue.simps [code] match_loop.simps [code]

definition match :: "ptr \<Rightarrow> OrderBook \<Rightarrow> (OrderBook \<times> Trade list) option" where
  "match ord ob = match_loop ord (opposite (ord_Side (ob_heap ob ord))) ob []"

definition rest :: "ptr \<Rightarrow> OrderBook \<Rightarrow> OrderBook" where
  "rest ord ob =
     (let s = (if ord_Side (ob_heap ob ord) = Sell then Sell else Buy);
          (h, b) = bs_add ord (ob_heap ob) (get_side s ob);
          ob = set_side s b (ob\<lparr>ob_heap := h\<rparr>)
      in ob\<lparr>ob_live := (ob_live ob)(ord_ID (ob_heap ob ord) \<mapsto> ord)\<rparr>)"

section \<open>The operations\<close>

definition alloc_order :: "string \<Rightarrow> Side \<Rightarrow> int64 \<Rightarrow> int64 \<Rightarrow> OrderBook \<Rightarrow> ptr \<times> OrderBook" where
  "alloc_order oid side price qty ob =
     (let ord = ob_next ob;
          ob = ob\<lparr>ob_seq := i64_add (ob_seq ob) 1\<rparr>
      in (ord, ob\<lparr>ob_next := Suc ord,
                ob_heap := (ob_heap ob)(ord := \<lparr>ord_ID = oid, ord_Side = side, ord_Price = price,
                  ord_Quantity = qty, ord_Remaining = qty, ord_Seq = ob_seq ob,
                  ord_elem = None, ord_side = None\<rparr>)\<rparr>))"

definition PlaceLimit ::
  "string \<Rightarrow> Side \<Rightarrow> int64 \<Rightarrow> int64 \<Rightarrow> OrderBook \<Rightarrow> (OrderBook \<times> (ob_error + Trade list)) option" where
  "PlaceLimit oid side price qty ob =
     (if price \<le> 0 \<or> qty \<le> 0 then Some (ob, Inl ErrInvalid)
      else if ob_live ob oid \<noteq> None then Some (ob, Inl ErrDuplicateID)
      else let (ord, ob) = alloc_order oid side price qty ob
           in case match ord ob of
                None \<Rightarrow> None
              | Some (ob, trades) \<Rightarrow>
                  if ord_Remaining (ob_heap ob ord) > 0
                  then Some (rest ord ob, Inr trades) else Some (ob, Inr trades))"

definition PlaceMarket ::
  "string \<Rightarrow> Side \<Rightarrow> int64 \<Rightarrow> OrderBook \<Rightarrow> (OrderBook \<times> (ob_error + Trade list)) option" where
  "PlaceMarket oid side qty ob =
     (if qty \<le> 0 then Some (ob, Inl ErrInvalid)
      else if ob_live ob oid \<noteq> None then Some (ob, Inl ErrDuplicateID)
      else let (ord, ob) = alloc_order oid side 0 qty ob
           in case match ord ob of
                None \<Rightarrow> None
              | Some (ob, trades) \<Rightarrow> Some (ob, Inr trades))"

definition order_copy :: "Order \<Rightarrow> Order" where
  "order_copy ord = ord\<lparr>ord_elem := None, ord_side := None\<rparr>"

text \<open>An order in \<open>live\<close> with no owning side is a nil dereference in \<open>o.side.remove(o)\<close>.\<close>

definition Cancel :: "string \<Rightarrow> OrderBook \<Rightarrow> (OrderBook \<times> (ob_error + Order)) option" where
  "Cancel oid ob =
     (case ob_live ob oid of
        None \<Rightarrow> Some (ob, Inl ErrNotFound)
      | Some ord \<Rightarrow>
          (case ord_side (ob_heap ob ord) of
             None \<Rightarrow> None
           | Some s \<Rightarrow>
               (case side_remove s ord ob of
                  None \<Rightarrow> None
                | Some ob \<Rightarrow> Some (ob\<lparr>ob_live := (ob_live ob)(oid := None)\<rparr>,
                                   Inr (order_copy (ob_heap ob ord))))))"

definition BestBid :: "OrderBook \<Rightarrow> int64 option" where
  "BestBid ob = best (ob_bids ob)"

definition BestAsk :: "OrderBook \<Rightarrow> int64 option" where
  "BestAsk ob = best (ob_asks ob)"

definition Order_lookup :: "string \<Rightarrow> OrderBook \<Rightarrow> Order option" where
  "Order_lookup oid ob = map_option (\<lambda>ord. order_copy (ob_heap ob ord)) (ob_live ob oid)"

text \<open>\<open>depth.go\<close>: up to \<open>maxLevels\<close> rows, best price first. A missing level panics.\<close>

definition level_qty :: "(ptr \<Rightarrow> Order) \<Rightarrow> ptr list \<Rightarrow> int64" where
  "level_qty h q = foldl (\<lambda>qty e. i64_add qty (ord_Remaining (h e))) 0 q"

fun depth_rows :: "(ptr \<Rightarrow> Order) \<Rightarrow> bookSide \<Rightarrow> nat \<Rightarrow> nat \<Rightarrow> PriceLevel list option" where
  "depth_rows h b i 0 = Some []"
| "depth_rows h b i (Suc n) =
     (let p = (if bs_side b = Buy then bs_prices b ! (length (bs_prices b) - 1 - i)
               else bs_prices b ! i)
      in case bs_levels b p of
           None \<Rightarrow> None
         | Some q \<Rightarrow> map_option (Cons \<lparr>pl_Price = p, pl_Quantity = level_qty h q\<rparr>)
                       (depth_rows h b (Suc i) n))"

definition bs_depth :: "(ptr \<Rightarrow> Order) \<Rightarrow> int \<Rightarrow> bookSide \<Rightarrow> PriceLevel list option" where
  "bs_depth h maxLevels b =
     (let n = length (bs_prices b);
          n = (if maxLevels > 0 \<and> maxLevels < int n then nat maxLevels else n)
      in depth_rows h b 0 n)"

definition Depth_book :: "int \<Rightarrow> OrderBook \<Rightarrow> (PriceLevel list \<times> PriceLevel list) option" where
  "Depth_book maxLevels ob =
     (case bs_depth (ob_heap ob) maxLevels (ob_bids ob) of
        None \<Rightarrow> None
      | Some bids \<Rightarrow> map_option (Pair bids) (bs_depth (ob_heap ob) maxLevels (ob_asks ob)))"

end
