(* ===== verification/BookSpec.thy ===== *)
theory BookSpec
  imports OrderBook "HOL-Library.Multiset"
begin

text \<open>
  What the order book promises, without pointers, levels or slices: a side is the list of
  its resting orders in price-time priority, an incoming order consumes that list from the
  front, and an unfilled remainder is inserted behind every order with an equal or better
  price. \<open>BookRefine\<close> proves that \<open>OrderBook\<close> computes exactly these functions, so the
  properties proved here (conservation of quantity, price-time priority, trades inside the
  limit, an uncrossed book) are properties of the code.
\<close>

section \<open>The reference book\<close>

record abook =
  ab_Symbol :: string
  ab_bids :: "Order list"
  ab_asks :: "Order list"
  ab_seq :: int64

definition ab_side :: "Side \<Rightarrow> abook \<Rightarrow> Order list" where
  "ab_side s ab = (case s of Buy \<Rightarrow> ab_bids ab | Sell \<Rightarrow> ab_asks ab)"

definition ab_set_side :: "Side \<Rightarrow> Order list \<Rightarrow> abook \<Rightarrow> abook" where
  "ab_set_side s xs ab = (case s of Buy \<Rightarrow> ab\<lparr>ab_bids := xs\<rparr> | Sell \<Rightarrow> ab\<lparr>ab_asks := xs\<rparr>)"

definition ab_orders :: "abook \<Rightarrow> Order list" where
  "ab_orders ab = ab_bids ab @ ab_asks ab"

text \<open>The priority key of a price on a side: smaller is better.\<close>

definition pkey :: "Side \<Rightarrow> int64 \<Rightarrow> int" where
  "pkey s p = (case s of Buy \<Rightarrow> - p | Sell \<Rightarrow> p)"

definition mk_trade :: "Order \<Rightarrow> Order \<Rightarrow> int64 \<Rightarrow> Trade" where
  "mk_trade taker maker q = \<lparr>tr_TakerOrderID = ord_ID taker, tr_MakerOrderID = ord_ID maker,
     tr_Price = ord_Price maker, tr_Quantity = q\<rparr>"

fun fill :: "Order \<Rightarrow> int64 \<Rightarrow> Order list \<Rightarrow> Trade list \<times> int64 \<times> Order list" where
  "fill t r [] = ([], r, [])"
| "fill t r (m # ms) =
     (if r \<le> 0 \<or> \<not> crosses t (ord_Price m) then ([], r, m # ms)
      else if ord_Remaining m \<le> r
           then (case fill t (r - ord_Remaining m) ms of
                   (ts, r', ms') \<Rightarrow> (mk_trade t m (ord_Remaining m) # ts, r', ms'))
           else ([mk_trade t m r], 0, m\<lparr>ord_Remaining := ord_Remaining m - r\<rparr> # ms))"

fun enqueue :: "Order \<Rightarrow> Order list \<Rightarrow> Order list" where
  "enqueue x [] = [x]"
| "enqueue x (m # ms) =
     (if pkey (ord_Side x) (ord_Price x) < pkey (ord_Side x) (ord_Price m)
      then x # m # ms else m # enqueue x ms)"

definition spec_taker :: "string \<Rightarrow> Side \<Rightarrow> int64 \<Rightarrow> int64 \<Rightarrow> abook \<Rightarrow> Order" where
  "spec_taker oid side price qty ab = \<lparr>ord_ID = oid, ord_Side = side, ord_Price = price,
     ord_Quantity = qty, ord_Remaining = qty, ord_Seq = i64_add (ab_seq ab) 1,
     ord_elem = None, ord_side = None\<rparr>"

definition spec_match ::
  "Order \<Rightarrow> abook \<Rightarrow> Trade list \<times> int64 \<times> abook" where
  "spec_match t ab =
     (case fill t (ord_Remaining t) (ab_side (opposite (ord_Side t)) ab) of
        (ts, r, ms) \<Rightarrow> (ts, r, ab_set_side (opposite (ord_Side t)) ms (ab\<lparr>ab_seq := ord_Seq t\<rparr>)))"

definition spec_PlaceLimit ::
  "string \<Rightarrow> Side \<Rightarrow> int64 \<Rightarrow> int64 \<Rightarrow> abook \<Rightarrow> abook \<times> (ob_error + Trade list)" where
  "spec_PlaceLimit oid side price qty ab =
     (if price \<le> 0 \<or> qty \<le> 0 then (ab, Inl ErrInvalid)
      else if oid \<in> ord_ID ` set (ab_orders ab) then (ab, Inl ErrDuplicateID)
      else let t = spec_taker oid side price qty ab
           in case spec_match t ab of
                (ts, r, ab') \<Rightarrow>
                  if r > 0
                  then (ab_set_side side (enqueue (t\<lparr>ord_Remaining := r\<rparr>) (ab_side side ab')) ab', Inr ts)
                  else (ab', Inr ts))"

definition spec_PlaceMarket ::
  "string \<Rightarrow> Side \<Rightarrow> int64 \<Rightarrow> abook \<Rightarrow> abook \<times> (ob_error + Trade list)" where
  "spec_PlaceMarket oid side qty ab =
     (if qty \<le> 0 then (ab, Inl ErrInvalid)
      else if oid \<in> ord_ID ` set (ab_orders ab) then (ab, Inl ErrDuplicateID)
      else case spec_match (spec_taker oid side 0 qty ab) ab of (ts, r, ab') \<Rightarrow> (ab', Inr ts))"

definition drop_id :: "string \<Rightarrow> Order list \<Rightarrow> Order list" where
  "drop_id oid xs = filter (\<lambda>x. ord_ID x \<noteq> oid) xs"

definition spec_lookup :: "string \<Rightarrow> abook \<Rightarrow> Order option" where
  "spec_lookup oid ab = find (\<lambda>x. ord_ID x = oid) (ab_orders ab)"

definition spec_Cancel :: "string \<Rightarrow> abook \<Rightarrow> abook \<times> (ob_error + Order)" where
  "spec_Cancel oid ab =
     (case spec_lookup oid ab of
        None \<Rightarrow> (ab, Inl ErrNotFound)
      | Some x \<Rightarrow> (ab\<lparr>ab_bids := drop_id oid (ab_bids ab), ab_asks := drop_id oid (ab_asks ab)\<rparr>, Inr x))"

text \<open>A well-formed reference book.\<close>

definition order_wf :: "Side \<Rightarrow> Order \<Rightarrow> bool" where
  "order_wf s x \<longleftrightarrow> ord_Side x = s \<and> 0 < ord_Price x \<and> in_int64 (ord_Price x)
     \<and> 0 < ord_Remaining x \<and> ord_Remaining x \<le> ord_Quantity x \<and> in_int64 (ord_Quantity x)
     \<and> ord_elem x = None \<and> ord_side x = None"

definition prio_sorted :: "Side \<Rightarrow> Order list \<Rightarrow> bool" where
  "prio_sorted s xs \<longleftrightarrow> sorted (map (pkey s \<circ> ord_Price) xs)"

definition uncrossed :: "Order list \<Rightarrow> Order list \<Rightarrow> bool" where
  "uncrossed bids asks \<longleftrightarrow> (\<forall>b \<in> set bids. \<forall>a \<in> set asks. ord_Price b < ord_Price a)"

definition abook_inv :: "abook \<Rightarrow> bool" where
  "abook_inv ab \<longleftrightarrow> (\<forall>s. (\<forall>x \<in> set (ab_side s ab). order_wf s x) \<and> prio_sorted s (ab_side s ab))
     \<and> distinct (map ord_ID (ab_orders ab)) \<and> uncrossed (ab_bids ab) (ab_asks ab)"

section \<open>Filling an incoming order\<close>

definition traded :: "Trade list \<Rightarrow> int" where
  "traded ts = (\<Sum>t \<leftarrow> ts. tr_Quantity t)"

definition resting_qty :: "Order list \<Rightarrow> int" where
  "resting_qty xs = (\<Sum>x \<leftarrow> xs. ord_Remaining x)"

lemma traded_simps [simp]: "traded [] = 0" "traded (t # ts) = tr_Quantity t + traded ts"
  by (simp_all add: traded_def)

lemma resting_qty_simps [simp]:
  "resting_qty [] = 0" "resting_qty (x # xs) = ord_Remaining x + resting_qty xs"
  by (simp_all add: resting_qty_def)

lemma mk_trade_simps [simp]:
  "tr_TakerOrderID (mk_trade t m q) = ord_ID t" "tr_MakerOrderID (mk_trade t m q) = ord_ID m"
  "tr_Price (mk_trade t m q) = ord_Price m" "tr_Quantity (mk_trade t m q) = q"
  by (simp_all add: mk_trade_def)

lemma fill_conserves:
  "fill t r ms = (ts, r', ms') \<Longrightarrow> r' = r - traded ts \<and> resting_qty ms' = resting_qty ms - traded ts"
  by (induction t r ms arbitrary: ts r' ms' rule: fill.induct)
    (auto split: if_splits prod.splits)

lemma fill_remaining_nonneg:
  "fill t r ms = (ts, r', ms') \<Longrightarrow> 0 \<le> r \<Longrightarrow> 0 \<le> r'"
  by (induction t r ms arbitrary: ts r' ms' rule: fill.induct)
    (auto split: if_splits prod.splits)

lemma fill_traded_bounds:
  assumes "fill t r ms = (ts, r', ms')" "0 \<le> r"
  shows "0 \<le> r'" "r' \<le> r \<or> traded ts < 0" "traded ts = r - r'"
  using fill_conserves [OF assms(1)] fill_remaining_nonneg [OF assms] by auto

lemma fill_trades:
  assumes "fill t r ms = (ts, r', ms')" "\<forall>m \<in> set ms. 0 < ord_Remaining m" "tr \<in> set ts"
  shows "tr_TakerOrderID tr = ord_ID t \<and> 0 < tr_Quantity tr
    \<and> (\<exists>m \<in> set ms. tr_MakerOrderID tr = ord_ID m \<and> tr_Price tr = ord_Price m
         \<and> tr_Quantity tr \<le> ord_Remaining m \<and> crosses t (ord_Price m))"
  using assms
  by (induction t r ms arbitrary: ts r' ms' rule: fill.induct)
    (fastforce split: if_splits prod.splits)+

text \<open>
  The makers consumed are a prefix of the priority list: every one but possibly the last
  is filled completely, and the rest of the list is untouched.
\<close>

lemma fill_prefix:
  assumes "fill t r ms = (ts, r', ms')"
  shows "\<exists>dn rs. ms = dn @ rs \<and>
    ((ms' = rs \<and> ts = map (\<lambda>m. mk_trade t m (ord_Remaining m)) dn) \<or>
     (\<exists>m tl q. rs = m # tl \<and> ms' = m\<lparr>ord_Remaining := ord_Remaining m - q\<rparr> # tl \<and> r' = 0
        \<and> 0 < q \<and> q < ord_Remaining m
        \<and> ts = map (\<lambda>m. mk_trade t m (ord_Remaining m)) dn @ [mk_trade t m q]))"
  using assms
proof (induction t r ms arbitrary: ts r' ms' rule: fill.induct)
  case (1 t r)
  then show ?case by simp
next
  case (2 t r m ms)
  consider (stop) "r \<le> 0 \<or> \<not> crosses t (ord_Price m)"
    | (full) "\<not> (r \<le> 0 \<or> \<not> crosses t (ord_Price m))" "ord_Remaining m \<le> r"
    | (part) "\<not> (r \<le> 0 \<or> \<not> crosses t (ord_Price m))" "\<not> ord_Remaining m \<le> r"
    by blast
  then show ?case
  proof cases
    case stop
    with "2.prems" show ?thesis by (intro exI [of _ "[]"] exI [of _ "m # ms"]) auto
  next
    case full
    then obtain ts1 where f: "fill t (r - ord_Remaining m) ms = (ts1, r', ms')"
      and ts: "ts = mk_trade t m (ord_Remaining m) # ts1"
      using "2.prems" by (auto split: prod.splits)
    from "2.IH" [OF full f] obtain dn rs where "ms = dn @ rs" and
      "(ms' = rs \<and> ts1 = map (\<lambda>m. mk_trade t m (ord_Remaining m)) dn) \<or>
       (\<exists>m tl q. rs = m # tl \<and> ms' = m\<lparr>ord_Remaining := ord_Remaining m - q\<rparr> # tl \<and> r' = 0
          \<and> 0 < q \<and> q < ord_Remaining m
          \<and> ts1 = map (\<lambda>m. mk_trade t m (ord_Remaining m)) dn @ [mk_trade t m q])"
      by blast
    then show ?thesis
      by (intro exI [of _ "m # dn"] exI [of _ rs]) (auto simp: ts)
  next
    case part
    with "2.prems" show ?thesis
      by (intro exI [of _ "[]"] exI [of _ "m # ms"]) auto
  qed
qed

text \<open>A remainder is left only when nothing that is still resting can trade.\<close>

lemma fill_exhausts:
  assumes "fill t r ms = (ts, r', ms')" "0 < r'" "ms' \<noteq> []"
  shows "\<not> crosses t (ord_Price (hd ms'))"
  using assms
  by (induction t r ms arbitrary: ts r' ms' rule: fill.induct)
    (auto split: if_splits prod.splits)

section \<open>Every operation keeps the reference book well formed\<close>

lemma opposite_simps [simp]: "opposite Buy = Sell" "opposite Sell = Buy"
  by (simp_all add: opposite_def)

lemma ab_side_set [simp]:
  "ab_side s (ab_set_side s xs ab) = xs"
  "s \<noteq> s' \<Longrightarrow> ab_side s (ab_set_side s' xs ab) = ab_side s ab"
  "ab_side s (ab\<lparr>ab_seq := n\<rparr>) = ab_side s ab"
  "ab_seq (ab_set_side s xs ab) = ab_seq ab"
  "ab_Symbol (ab_set_side s xs ab) = ab_Symbol ab"
  by (cases s; cases s'; simp add: ab_side_def ab_set_side_def)+

lemma opposite_neq [simp]: "opposite s \<noteq> s" "s \<noteq> opposite s"
  by (cases s; simp)+

text \<open>Partial fills touch only \<open>Remaining\<close>, so every other attribute is kept in order.\<close>

lemma fill_attr_drop:
  assumes "fill t r ms = (ts, r', ms')" "\<And>x q. f (x\<lparr>ord_Remaining := q\<rparr>) = f x"
  shows "\<exists>k. map f ms' = drop k (map f ms)"
proof -
  from fill_prefix [OF assms(1)] obtain dn rs where "ms = dn @ rs"
    and "ms' = rs \<or> (\<exists>m tl q. rs = m # tl \<and> ms' = m\<lparr>ord_Remaining := q\<rparr> # tl)"
    by blast
  then have "map f ms' = drop (length dn) (map f ms)" by (auto simp: assms(2))
  then show ?thesis ..
qed

lemma fill_set_attr:
  assumes "fill t r ms = (ts, r', ms')" "\<And>x q. f (x\<lparr>ord_Remaining := q\<rparr>) = f x"
  shows "f ` set ms' \<subseteq> f ` set ms"
  using fill_attr_drop [OF assms, THEN exE]
  by (metis image_set set_drop_subset)

lemma fill_order_wf:
  assumes "fill t r ms = (ts, r', ms')" "\<forall>x \<in> set ms. order_wf s x"
  shows "\<forall>x \<in> set ms'. order_wf s x"
  using fill_prefix [OF assms(1)] assms(2) by (auto simp: order_wf_def)

lemma fill_prio_sorted:
  assumes "fill t r ms = (ts, r', ms')" "prio_sorted s ms"
  shows "prio_sorted s ms'"
proof -
  obtain k where "map (pkey s \<circ> ord_Price) ms' = drop k (map (pkey s \<circ> ord_Price) ms)"
    using fill_attr_drop [OF assms(1), of "pkey s \<circ> ord_Price"] by auto
  with assms(2) show ?thesis
    by (simp only: prio_sorted_def sorted_wrt_drop)
qed

lemma set_enqueue [simp]: "set (enqueue x ms) = insert x (set ms)"
  by (induction ms) auto

lemma mset_enqueue: "mset (enqueue x ms) = add_mset x (mset ms)"
  by (induction ms) auto

lemma enqueue_prio_sorted:
  "prio_sorted (ord_Side x) ms \<Longrightarrow> prio_sorted (ord_Side x) (enqueue x ms)"
  by (induction ms) (auto simp: prio_sorted_def)

lemma spec_match_fill:
  assumes "spec_match t ab = (ts, r, ab')"
  obtains ms where "fill t (ord_Remaining t) (ab_side (opposite (ord_Side t)) ab) = (ts, r, ms)"
    "ab' = ab_set_side (opposite (ord_Side t)) ms (ab\<lparr>ab_seq := ord_Seq t\<rparr>)"
  using assms by (auto simp: spec_match_def split: prod.splits)

lemma distinct_side_drop:
  assumes "distinct (map f (ab_orders ab))" "map f ms = drop k (map f (ab_side s ab))"
  shows "distinct (map f (ab_orders (ab_set_side s ms (ab\<lparr>ab_seq := n\<rparr>))))"
  using assms
  by (cases s) (auto simp: ab_orders_def ab_set_side_def ab_side_def
      simp flip: set_map dest: in_set_dropD)

lemma spec_match_inv:
  assumes "abook_inv ab" "spec_match t ab = (ts, r, ab')"
  shows "abook_inv ab'"
proof -
  let ?o = "opposite (ord_Side t)"
  obtain ms where f: "fill t (ord_Remaining t) (ab_side ?o ab) = (ts, r, ms)"
    and ab': "ab' = ab_set_side ?o ms (ab\<lparr>ab_seq := ord_Seq t\<rparr>)"
    using spec_match_fill [OF assms(2)] .
  have sides: "(\<forall>x \<in> set (ab_side s ab'). order_wf s x) \<and> prio_sorted s (ab_side s ab')" for s
    using assms(1) fill_order_wf [OF f] fill_prio_sorted [OF f]
    by (cases "s = ?o") (auto simp: ab' abook_inv_def)
  obtain k where "map ord_ID ms = drop k (map ord_ID (ab_side ?o ab))"
    using fill_attr_drop [OF f, of ord_ID] by auto
  then have ids: "distinct (map ord_ID (ab_orders ab'))"
    using assms(1) by (auto simp: ab' abook_inv_def intro: distinct_side_drop)
  have "ord_Price ` set ms \<subseteq> ord_Price ` set (ab_side ?o ab)"
    by (rule fill_set_attr [OF f]) simp
  then have "uncrossed (ab_bids ab') (ab_asks ab')"
    using assms(1)
    by (cases "ord_Side t")
      (fastforce simp: ab' abook_inv_def uncrossed_def ab_set_side_def ab_side_def)+
  with sides ids show ?thesis by (simp add: abook_inv_def)
qed

lemma uncrossed_rest:
  assumes f: "fill t r0 ms0 = (ts, r, ms)" and "0 < r" "prio_sorted (opposite (ord_Side t)) ms"
    and "0 < ord_Price t"
  shows "\<forall>x \<in> set ms. case ord_Side t of Buy \<Rightarrow> ord_Price t < ord_Price x | Sell \<Rightarrow> ord_Price x < ord_Price t"
proof (cases ms)
  case (Cons m ms1)
  with fill_exhausts [OF f assms(2)] have "\<not> crosses t (ord_Price m)" by simp
  with assms(3,4) Cons show ?thesis
    by (cases "ord_Side t") (auto simp: crosses_def prio_sorted_def pkey_def)
qed simp

lemma spec_PlaceLimit_inv:
  assumes "abook_inv ab" "in_int64 price" "in_int64 qty"
  shows "abook_inv (fst (spec_PlaceLimit oid side price qty ab))"
proof -
  let ?t = "spec_taker oid side price qty ab"
  obtain ts r ab' where m: "spec_match ?t ab = (ts, r, ab')" by (metis prod_cases3)
  have inv': "abook_inv ab'" by (rule spec_match_inv [OF assms(1) m])
  have t: "ord_Side ?t = side" "ord_Price ?t = price" "ord_ID ?t = oid" "ord_Remaining ?t = qty"
    by (simp_all add: spec_taker_def)
  obtain ms where f: "fill ?t qty (ab_side (opposite side) ab) = (ts, r, ms)"
    and ab': "ab' = ab_set_side (opposite side) ms (ab\<lparr>ab_seq := ord_Seq ?t\<rparr>)"
    using spec_match_fill [OF m] t by metis
  let ?x = "?t\<lparr>ord_Remaining := r\<rparr>"
  let ?ab = "ab_set_side side (enqueue ?x (ab_side side ab')) ab'"
  have "abook_inv ?ab"
    if pre: "0 < price" "0 < qty" "oid \<notin> ord_ID ` set (ab_orders ab)" "0 < r"
  proof -
    have "\<forall>tr \<in> set ts. 0 < tr_Quantity tr"
      using fill_trades [OF f] assms(1) by (auto simp: abook_inv_def order_wf_def)
    then have "0 \<le> traded ts"
      unfolding traded_def by (intro sum_list_nonneg) fastforce
    with fill_conserves [OF f] have "r \<le> qty" by simp
    with pre assms have wf: "order_wf side ?x"
      by (simp add: order_wf_def spec_taker_def)
    have sides: "(\<forall>y \<in> set (ab_side s ?ab). order_wf s y) \<and> prio_sorted s (ab_side s ?ab)" for s
      using inv' wf enqueue_prio_sorted [of ?x "ab_side side ab'"] t(1)
      by (cases "s = side") (auto simp: abook_inv_def)
    have "ord_ID ` set ms \<subseteq> ord_ID ` set (ab_side (opposite side) ab)"
      by (rule fill_set_attr [OF f]) simp
    then have "oid \<notin> ord_ID ` set (ab_orders ab')"
      using pre(3) by (cases side) (auto simp: ab' ab_orders_def ab_set_side_def ab_side_def)
    moreover have "mset (ab_orders ?ab) = add_mset ?x (mset (ab_orders ab'))"
      by (cases side) (simp_all add: ab_orders_def ab_set_side_def ab_side_def mset_enqueue)
    then have "mset (map ord_ID (ab_orders ?ab)) = add_mset oid (mset (map ord_ID (ab_orders ab')))"
      using t(3) by simp
    then have "distinct (map ord_ID (ab_orders ?ab)) \<longleftrightarrow> distinct (oid # map ord_ID (ab_orders ab'))"
      by (metis mset.simps(2) mset_eq_imp_distinct_iff)
    ultimately have ids: "distinct (map ord_ID (ab_orders ?ab))"
      using inv' by (simp add: abook_inv_def)
    have "prio_sorted (opposite side) ms"
      using inv' by (metis ab' ab_side_set(1) abook_inv_def)
    with uncrossed_rest [OF f pre(4)] t pre(1)
    have far: "\<forall>y \<in> set ms. case side of Buy \<Rightarrow> price < ord_Price y | Sell \<Rightarrow> ord_Price y < price"
      by (cases side) auto
    have "uncrossed (ab_bids ?ab) (ab_asks ?ab)"
      using inv' far t(2)
      by (cases side) (auto simp: abook_inv_def uncrossed_def ab_set_side_def ab_side_def ab')
    with sides ids show ?thesis by (simp add: abook_inv_def)
  qed
  with m inv' assms(1) show ?thesis
    by (auto simp: spec_PlaceLimit_def Let_def not_le)
qed

lemma spec_PlaceMarket_inv:
  "abook_inv ab \<Longrightarrow> abook_inv (fst (spec_PlaceMarket oid side qty ab))"
  by (auto simp: spec_PlaceMarket_def split: prod.splits dest: spec_match_inv)

lemma set_drop_id: "set (drop_id oid xs) = {x \<in> set xs. ord_ID x \<noteq> oid}"
  by (simp add: drop_id_def)

lemma spec_Cancel_inv: "abook_inv ab \<Longrightarrow> abook_inv (fst (spec_Cancel oid ab))"
proof -
  assume inv: "abook_inv ab"
  let ?ab = "ab\<lparr>ab_bids := drop_id oid (ab_bids ab), ab_asks := drop_id oid (ab_asks ab)\<rparr>"
  have side: "ab_side s ?ab = drop_id oid (ab_side s ab)" for s
    by (cases s) (simp_all add: ab_side_def)
  have "prio_sorted s xs \<Longrightarrow> prio_sorted s (drop_id oid xs)" for s xs
    by (simp add: prio_sorted_def drop_id_def sorted_wrt_map sorted_wrt_filter)
  moreover have "distinct (map ord_ID (ab_orders ?ab))"
    using inv by (auto simp: abook_inv_def ab_orders_def drop_id_def distinct_map_filter)
  ultimately have "abook_inv ?ab"
    using inv by (auto simp: abook_inv_def side uncrossed_def set_drop_id)
  with inv show ?thesis by (simp add: spec_Cancel_def split: option.split)
qed

end
