(* ===== verification/BookRefine.thy ===== *)
theory BookRefine
  imports BookSpec
begin

text \<open>
  The order book of \<open>OrderBook\<close> implements the reference book of \<open>BookSpec\<close>: the
  representation invariant \<open>repr_inv\<close>, the abstraction \<open>abs_book\<close>, the correctness of the
  bisection and slice surgery, and, for each operation, that on a well-formed book it
  returns (no panic, no divergence), keeps the invariant, and computes the reference
  function on the abstraction.
\<close>

section \<open>The sorted price slice\<close>

lemma search_loop_least:
  assumes "\<And>a b. a \<le> b \<Longrightarrow> b < n \<Longrightarrow> f a \<Longrightarrow> f b"
    and "i \<le> j" "j \<le> n" "\<And>k. k < i \<Longrightarrow> \<not> f k" "\<And>k. j \<le> k \<Longrightarrow> k < n \<Longrightarrow> f k"
  shows "search_loop f i j \<le> n \<and> (\<forall>k < search_loop f i j. \<not> f k)
      \<and> (\<forall>k. search_loop f i j \<le> k \<and> k < n \<longrightarrow> f k)"
  using assms
proof (induction f i j rule: search_loop.induct)
  case (1 f i j)
  note prems = "1.prems"
  show ?case
  proof (cases "i < j")
    case True
    let ?h = "(i + j) div 2"
    have h: "i \<le> ?h" "?h < j" "?h < n" using True prems(3) by auto
    show ?thesis
    proof (cases "f ?h")
      case False
      have lo: "\<not> f k" if "k < ?h + 1" for k
        using that False prems(1) [of k ?h] h(3) by auto
      have "search_loop f (?h + 1) j \<le> n \<and> (\<forall>k < search_loop f (?h + 1) j. \<not> f k)
          \<and> (\<forall>k. search_loop f (?h + 1) j \<le> k \<and> k < n \<longrightarrow> f k)"
        by (rule "1.IH"(1) [OF True refl False prems(1) _ prems(3) lo prems(5)]) (use h in auto)
      then show ?thesis
        unfolding search_loop.simps [of f i j] using True False by (simp add: Let_def)
    next
      case fh: True
      have hi: "f k" if "?h \<le> k" "k < n" for k
        using that fh prems(1) by blast
      have "search_loop f i ?h \<le> n \<and> (\<forall>k < search_loop f i ?h. \<not> f k)
          \<and> (\<forall>k. search_loop f i ?h \<le> k \<and> k < n \<longrightarrow> f k)"
        by (rule "1.IH"(2) [OF True refl _ prems(1) h(1) _ prems(4) hi]) (use fh h in auto)
      then show ?thesis
        unfolding search_loop.simps [of f i j] using True fh by (simp add: Let_def)
    qed
  next
    case False
    then show ?thesis unfolding search_loop.simps [of f i j] using prems by auto
  qed
qed

lemma sort_Search_sorted:
  fixes xs :: "int64 list"
  assumes "sorted xs"
  shows "sort_Search (length xs) (\<lambda>i. xs ! i \<ge> p) = length (takeWhile (\<lambda>x. x < p) xs)"
proof -
  let ?f = "\<lambda>i. xs ! i \<ge> p" and ?n = "length xs"
  let ?r = "sort_Search ?n ?f" and ?w = "length (takeWhile (\<lambda>x. x < p) xs)"
  have mono: "?f b" if "a \<le> b" "b < ?n" "?f a" for a b
    using sorted_nth_mono [OF assms that(1,2)] that(3) by simp
  have "search_loop ?f 0 ?n \<le> ?n \<and> (\<forall>k < search_loop ?f 0 ?n. \<not> ?f k)
      \<and> (\<forall>k. search_loop ?f 0 ?n \<le> k \<and> k < ?n \<longrightarrow> ?f k)"
    by (rule search_loop_least [OF mono]) auto
  then have r: "?r \<le> ?n" "\<And>k. k < ?r \<Longrightarrow> \<not> ?f k" "\<And>k. ?r \<le> k \<Longrightarrow> k < ?n \<Longrightarrow> ?f k"
    unfolding sort_Search_def by blast+
  have w: "?w \<le> ?n" "\<And>k. k < ?w \<Longrightarrow> xs ! k < p" "?w < ?n \<Longrightarrow> \<not> xs ! ?w < p"
    using nth_length_takeWhile [of "\<lambda>x. x < p" xs] nth_mem [of _ "takeWhile (\<lambda>x. x < p) xs"]
      set_takeWhileD [of _ "\<lambda>x. x < p" xs]
    by (auto simp: length_takeWhile_le takeWhile_nth)
  have "\<not> ?r < ?w" using r(3) [of ?r] w(1) w(2) [of ?r] by auto
  moreover have "\<not> ?w < ?r" using r(1) r(2) [of ?w] w(3) by auto
  ultimately show ?thesis by simp
qed

text \<open>\<open>insertPrice\<close> is insertion into a sorted list and \<open>removePrice\<close> deletes the price.\<close>

lemma shift_right_gap:
  assumes "i \<le> length xs"
  shows "(shift_right i (xs @ [z]))[i := p] = take i xs @ p # drop i xs"
proof -
  have "shift_right i (xs @ [z]) = take i xs @ (xs @ [z]) ! i # drop i xs"
    using assms take_Suc_conv_app_nth [of i "xs @ [z]"] by (simp add: shift_right_def)
  then show ?thesis using assms by (simp add: list_update_append)
qed

lemma takeWhile_insort:
  "takeWhile (\<lambda>x. x < p) xs @ p # dropWhile (\<lambda>x. x < p) xs = insort p (xs :: int64 list)"
  by (induction xs) auto

lemma insertPrice_insort:
  assumes "sorted prices"
  shows "insertPrice p prices = insort p prices"
proof -
  have "insertPrice p prices
      = take (length (takeWhile (\<lambda>x. x < p) prices)) prices
        @ p # drop (length (takeWhile (\<lambda>x. x < p) prices)) prices"
    unfolding insertPrice_def Let_def sort_Search_sorted [OF assms]
    by (rule shift_right_gap) (rule length_takeWhile_le)
  then show ?thesis
    by (simp add: takeWhile_eq_take [symmetric] dropWhile_eq_drop [symmetric] takeWhile_insort)
qed

lemma removePrice_remove1:
  assumes "sorted prices"
  shows "removePrice p prices = remove1 p prices"
proof -
  let ?w = "takeWhile (\<lambda>x. x < p) prices" and ?d = "dropWhile (\<lambda>x. x < p) prices"
  have split: "prices = ?w @ ?d" by simp
  have notin: "p \<notin> set ?w" by (auto dest: set_takeWhileD)
  have srt: "sorted ?d" using assms by (simp add: sorted_dropWhile)
  show ?thesis
  proof (cases "?d")
    case Nil
    then have "?w = prices" using split by (metis append_Nil2)
    then show ?thesis using notin
      unfolding removePrice_def Let_def sort_Search_sorted [OF assms]
      by (metis less_irrefl remove1_idem)
  next
    case (Cons x xs)
    then have hd: "\<not> x < p" by (metis hd_dropWhile list.distinct(1) list.sel(1))
    have at: "prices ! length ?w = x" "length ?w < length prices"
      using split Cons by (metis nth_append_length) (metis Cons split length_append length_greater_0_conv list.distinct(1) less_add_same_cancel1)
    have "remove1 p prices = ?w @ remove1 p ?d"
      using notin split by (metis remove1_append)
    moreover have "p \<notin> set ?d" if "x \<noteq> p"
      using that hd srt Cons by auto
    moreover have "take (length ?w) prices = ?w" "drop (length ?w + 1) prices = xs"
      using split Cons by (metis append_eq_conv_conj) (metis append_eq_conv_conj Cons drop_drop drop_Suc_Cons drop0 One_nat_def add.commute split)
    ultimately show ?thesis
      unfolding removePrice_def Let_def sort_Search_sorted [OF assms]
      using at Cons split by (auto simp: remove1_idem)
  qed
qed

section \<open>Representation invariant and abstraction\<close>

definition prio :: "Side \<Rightarrow> int64 list \<Rightarrow> int64 list" where
  "prio s ps = (case s of Buy \<Rightarrow> rev ps | Sell \<Rightarrow> ps)"

definition level_ptrs :: "Side \<Rightarrow> OrderBook \<Rightarrow> ptr list" where
  "level_ptrs s ob = concat (map (\<lambda>p. queue_at s p ob) (prio s (bs_prices (get_side s ob))))"

definition abs_order :: "OrderBook \<Rightarrow> ptr \<Rightarrow> Order" where
  "abs_order ob x = order_copy (ob_heap ob x)"

definition abs_side :: "Side \<Rightarrow> OrderBook \<Rightarrow> Order list" where
  "abs_side s ob = map (abs_order ob) (level_ptrs s ob)"

definition abs_book :: "OrderBook \<Rightarrow> abook" where
  "abs_book ob = \<lparr>ab_Symbol = ob_Symbol ob, ab_bids = abs_side Buy ob, ab_asks = abs_side Sell ob,
     ab_seq = ob_seq ob\<rparr>"

text \<open>
  What holds of the order object behind a queue entry. \<open>X\<close> is the set of orders whose
  remaining quantity is not constrained: the maker between being filled and being removed.
\<close>

definition ptr_ok :: "ptr set \<Rightarrow> Side \<Rightarrow> int64 \<Rightarrow> OrderBook \<Rightarrow> ptr \<Rightarrow> bool" where
  "ptr_ok X s p ob x \<longleftrightarrow> x < ob_next ob \<and> ord_Price (ob_heap ob x) = p \<and> ord_Side (ob_heap ob x) = s
     \<and> ord_elem (ob_heap ob x) = Some x \<and> ord_side (ob_heap ob x) = Some s
     \<and> ob_live ob (ord_ID (ob_heap ob x)) = Some x
     \<and> (x \<notin> X \<longrightarrow> 0 < ord_Remaining (ob_heap ob x)
          \<and> ord_Remaining (ob_heap ob x) \<le> ord_Quantity (ob_heap ob x)
          \<and> in_int64 (ord_Quantity (ob_heap ob x)))"

definition side_inv :: "ptr set \<Rightarrow> Side \<Rightarrow> OrderBook \<Rightarrow> bool" where
  "side_inv X s ob \<longleftrightarrow>
     bs_side (get_side s ob) = s
     \<and> sorted_wrt (<) (bs_prices (get_side s ob))
     \<and> (\<forall>p \<in> set (bs_prices (get_side s ob)). 0 < p \<and> in_int64 p)
     \<and> (\<forall>p. (p \<in> set (bs_prices (get_side s ob))) = (bs_levels (get_side s ob) p \<noteq> None))
     \<and> (\<forall>p. bs_levels (get_side s ob) p \<noteq> Some [])
     \<and> (\<forall>p. distinct (queue_at s p ob))
     \<and> (\<forall>p. \<forall>x \<in> set (queue_at s p ob). ptr_ok X s p ob x)"

definition live_inv :: "OrderBook \<Rightarrow> bool" where
  "live_inv ob \<longleftrightarrow> (\<forall>oid x. ob_live ob oid = Some x \<longrightarrow> ord_ID (ob_heap ob x) = oid
     \<and> x \<in> set (queue_at (ord_Side (ob_heap ob x)) (ord_Price (ob_heap ob x)) ob))"

definition repr_inv :: "ptr set \<Rightarrow> OrderBook \<Rightarrow> bool" where
  "repr_inv X ob \<longleftrightarrow> (\<forall>s. side_inv X s ob) \<and> live_inv ob"

definition unqueued :: "ptr \<Rightarrow> OrderBook \<Rightarrow> bool" where
  "unqueued x ob \<longleftrightarrow> (\<forall>s p. x \<notin> set (queue_at s p ob))"

definition book_inv :: "OrderBook \<Rightarrow> bool" where
  "book_inv ob \<longleftrightarrow> repr_inv {} ob \<and> uncrossed (abs_side Buy ob) (abs_side Sell ob)"

lemma get_side_set [simp]:
  "get_side s (set_side s b ob) = b"
  "s \<noteq> s' \<Longrightarrow> get_side s (set_side s' b ob) = get_side s ob"
  "get_side s (ob\<lparr>ob_heap := h\<rparr>) = get_side s ob"
  "get_side s (ob\<lparr>ob_live := l\<rparr>) = get_side s ob"
  "get_side s (ob\<lparr>ob_next := n\<rparr>) = get_side s ob"
  "get_side s (ob\<lparr>ob_seq := m\<rparr>) = get_side s ob"
  by (cases s; cases s'; simp add: get_side_def set_side_def)+

lemma set_side_fields [simp]:
  "ob_heap (set_side s b ob) = ob_heap ob" "ob_live (set_side s b ob) = ob_live ob"
  "ob_next (set_side s b ob) = ob_next ob" "ob_seq (set_side s b ob) = ob_seq ob"
  "ob_Symbol (set_side s b ob) = ob_Symbol ob"
  by (cases s; simp add: set_side_def)+

lemma queue_at_upd [simp]:
  "queue_at s p (ob\<lparr>ob_heap := h\<rparr>) = queue_at s p ob"
  "queue_at s p (ob\<lparr>ob_live := l\<rparr>) = queue_at s p ob"
  "queue_at s p (ob\<lparr>ob_next := n\<rparr>) = queue_at s p ob"
  "queue_at s p (ob\<lparr>ob_seq := m\<rparr>) = queue_at s p ob"
  "queue_at s p (set_side s b ob) = (case bs_levels b p of None \<Rightarrow> [] | Some q \<Rightarrow> q)"
  "s \<noteq> s' \<Longrightarrow> queue_at s p (set_side s' b ob) = queue_at s p ob"
  by (simp_all add: queue_at_def)

lemma level_ptrs_upd [simp]:
  "level_ptrs s (ob\<lparr>ob_heap := h\<rparr>) = level_ptrs s ob"
  "level_ptrs s (ob\<lparr>ob_live := l\<rparr>) = level_ptrs s ob"
  "level_ptrs s (ob\<lparr>ob_next := n\<rparr>) = level_ptrs s ob"
  "level_ptrs s (ob\<lparr>ob_seq := m\<rparr>) = level_ptrs s ob"
  "s \<noteq> s' \<Longrightarrow> level_ptrs s (set_side s' b ob) = level_ptrs s ob"
  by (simp_all add: level_ptrs_def)

lemma order_copy_simps [simp]:
  "ord_ID (order_copy x) = ord_ID x" "ord_Side (order_copy x) = ord_Side x"
  "ord_Price (order_copy x) = ord_Price x" "ord_Quantity (order_copy x) = ord_Quantity x"
  "ord_Remaining (order_copy x) = ord_Remaining x" "ord_Seq (order_copy x) = ord_Seq x"
  "ord_elem (order_copy x) = None" "ord_side (order_copy x) = None"
  by (simp_all add: order_copy_def)

lemma set_prio [simp]: "set (prio s ps) = set ps"
  by (cases s) (simp_all add: prio_def)

lemma sorted_prio: "sorted_wrt (<) ps \<Longrightarrow> sorted_wrt (\<lambda>a b. pkey s a < pkey s b) (prio s ps)"
  by (cases s) (simp_all add: prio_def pkey_def sorted_wrt_rev)

lemma side_invD:
  assumes "side_inv X s ob"
  shows "bs_side (get_side s ob) = s" "sorted_wrt (<) (bs_prices (get_side s ob))"
    "p \<in> set (bs_prices (get_side s ob)) \<Longrightarrow> 0 < p \<and> in_int64 p"
    "p \<in> set (bs_prices (get_side s ob)) \<longleftrightarrow> queue_at s p ob \<noteq> []"
    "distinct (queue_at s p ob)"
    "x \<in> set (queue_at s p ob) \<Longrightarrow> ptr_ok X s p ob x"
proof -
  show "p \<in> set (bs_prices (get_side s ob)) \<longleftrightarrow> queue_at s p ob \<noteq> []"
  proof (cases "bs_levels (get_side s ob) p")
    case (Some q)
    moreover have "bs_levels (get_side s ob) p \<noteq> Some []" using assms by (auto simp: side_inv_def)
    ultimately show ?thesis using assms by (auto simp: side_inv_def queue_at_def)
  qed (use assms in \<open>auto simp: side_inv_def queue_at_def\<close>)
qed (use assms in \<open>auto simp: side_inv_def\<close>)

lemma repr_invD: "repr_inv X ob \<Longrightarrow> side_inv X s ob" "repr_inv X ob \<Longrightarrow> live_inv ob"
  by (simp_all add: repr_inv_def)

lemma set_level_ptrs:
  assumes "side_inv X s ob"
  shows "set (level_ptrs s ob) = {x. \<exists>p. x \<in> set (queue_at s p ob)}"
  using side_invD(4) [OF assms] by (fastforce simp: level_ptrs_def)

lemma level_ptrs_ok:
  assumes "side_inv X s ob" "x \<in> set (level_ptrs s ob)"
  shows "ptr_ok X s (ord_Price (ob_heap ob x)) ob x" "x \<in> set (queue_at s (ord_Price (ob_heap ob x)) ob)"
proof -
  obtain p where p: "x \<in> set (queue_at s p ob)" using assms by (auto simp: set_level_ptrs)
  with side_invD(6) [OF assms(1)] have "ptr_ok X s p ob x" .
  moreover from this have "ord_Price (ob_heap ob x) = p" by (simp add: ptr_ok_def)
  ultimately show "ptr_ok X s (ord_Price (ob_heap ob x)) ob x" "x \<in> set (queue_at s (ord_Price (ob_heap ob x)) ob)"
    using p by simp_all
qed

text \<open>A queue entry is on one side at one price, so the pointers of a side are distinct.\<close>

lemma queue_unique:
  assumes "repr_inv X ob" "x \<in> set (queue_at s p ob)" "x \<in> set (queue_at s' p' ob)"
  shows "s = s' \<and> p = p'"
  using side_invD(6) [OF repr_invD(1) [OF assms(1)] assms(2)]
    side_invD(6) [OF repr_invD(1) [OF assms(1)] assms(3)] by (simp add: ptr_ok_def)

lemma distinct_concat_map:
  assumes "distinct ps" "\<And>p. distinct (f p)" "\<And>p q x. x \<in> set (f p) \<Longrightarrow> x \<in> set (f q) \<Longrightarrow> p = q"
  shows "distinct (concat (map f ps))"
  using assms(1)
proof (induction ps)
  case (Cons p ps)
  have "set (f p) \<inter> set (concat (map f ps)) = {}"
    using Cons.prems assms(3) by fastforce
  with Cons assms(2) show ?case by simp
qed simp

lemma distinct_level_ptrs:
  assumes "repr_inv X ob"
  shows "distinct (level_ptrs s ob)"
proof -
  have si: "side_inv X s ob" using assms by (rule repr_invD)
  have "distinct (prio s (bs_prices (get_side s ob)))"
    using side_invD(2) [OF si] by (cases s) (auto simp: prio_def strict_sorted_iff)
  then show ?thesis
    unfolding level_ptrs_def
    using queue_unique [OF assms] side_invD(5) [OF si] by (intro distinct_concat_map) auto
qed

section \<open>Writing through the store\<close>

lemma abs_side_heap:
  "x \<notin> set (level_ptrs s ob) \<Longrightarrow>
     abs_side s (ob\<lparr>ob_heap := (ob_heap ob)(x := y)\<rparr>) = abs_side s ob"
  by (auto simp: abs_side_def abs_order_def)

lemma unqueued_level_ptrs:
  "repr_inv X ob \<Longrightarrow> unqueued x ob \<Longrightarrow> x \<notin> set (level_ptrs s ob)"
  using set_level_ptrs [OF repr_invD(1)] by (auto simp: unqueued_def)

lemma ptr_ok_heap_other:
  "x \<noteq> y \<Longrightarrow> ptr_ok X s p (ob\<lparr>ob_heap := (ob_heap ob)(y := z)\<rparr>) x = ptr_ok X s p ob x"
  by (simp add: ptr_ok_def)

lemma repr_inv_heap:
  assumes "repr_inv X ob" "unqueued x ob"
  shows "repr_inv X (ob\<lparr>ob_heap := (ob_heap ob)(x := y)\<rparr>)"
proof -
  let ?ob = "ob\<lparr>ob_heap := (ob_heap ob)(x := y)\<rparr>"
  have "side_inv X s ?ob" for s
    using repr_invD(1) [OF assms(1), of s] assms(2)
    by (auto simp: side_inv_def unqueued_def ptr_ok_heap_other)
      (metis ptr_ok_heap_other)
  moreover have "live_inv ?ob"
    using repr_invD(2) [OF assms(1)] assms(2) by (auto simp: live_inv_def unqueued_def)
  ultimately show ?thesis by (simp add: repr_inv_def)
qed

text \<open>Changing only the remaining quantity of a queued order excepts that order.\<close>

lemma repr_inv_remaining:
  assumes "repr_inv X ob"
  shows "repr_inv (insert x X)
    (ob\<lparr>ob_heap := (ob_heap ob)(x := (ob_heap ob x)\<lparr>ord_Remaining := r\<rparr>)\<rparr>)"
proof -
  let ?ob = "ob\<lparr>ob_heap := (ob_heap ob)(x := (ob_heap ob x)\<lparr>ord_Remaining := r\<rparr>)\<rparr>"
  have "ptr_ok X s p ob y \<Longrightarrow> ptr_ok (insert x X) s p ?ob y" for s p y
    by (auto simp: ptr_ok_def)
  then have "side_inv (insert x X) s ?ob" for s
    using repr_invD(1) [OF assms, of s] by (auto simp: side_inv_def)
  moreover have "live_inv ?ob"
    using repr_invD(2) [OF assms] by (auto simp: live_inv_def)
  ultimately show ?thesis by (simp add: repr_inv_def)
qed

lemma repr_inv_unexcept:
  assumes "repr_inv (insert x X) ob"
    and "0 < ord_Remaining (ob_heap ob x)" "ord_Remaining (ob_heap ob x) \<le> ord_Quantity (ob_heap ob x)"
      "in_int64 (ord_Quantity (ob_heap ob x))"
  shows "repr_inv X ob"
proof -
  have "ptr_ok (insert x X) s p ob y \<Longrightarrow> ptr_ok X s p ob y" for s p y
    using assms(2-4) by (auto simp: ptr_ok_def)
  with assms(1) show ?thesis by (auto simp: repr_inv_def side_inv_def)
qed

section \<open>Removing an order\<close>

lemma remove1_filter: "distinct xs \<Longrightarrow> remove1 x xs = filter (\<lambda>y. y \<noteq> x) xs"
  by (induction xs) (auto intro!: filter_True [symmetric])

lemma prio_filter: "prio s (filter P ps) = filter P (prio s ps)"
  by (cases s) (simp_all add: prio_def rev_filter)

lemma concat_map_nonempty:
  "concat (map f (filter (\<lambda>p. f p \<noteq> []) ps)) = concat (map f ps)"
  by (induction ps) auto

lemma side_remove_effect:
  assumes inv: "repr_inv X ob" and x: "x \<in> set (queue_at s p ob)"
  shows "\<exists>ob'. side_remove s x ob = Some ob'
    \<and> ob_heap ob' = (ob_heap ob)(x := (ob_heap ob x)\<lparr>ord_elem := None\<rparr>)
    \<and> ob_live ob' = ob_live ob \<and> ob_next ob' = ob_next ob \<and> ob_seq ob' = ob_seq ob
    \<and> ob_Symbol ob' = ob_Symbol ob
    \<and> (\<forall>s'. bs_side (get_side s' ob') = bs_side (get_side s' ob))
    \<and> (\<forall>s' p'. queue_at s' p' ob' = filter (\<lambda>y. y \<noteq> x) (queue_at s' p' ob))
    \<and> (\<forall>s'. bs_prices (get_side s' ob')
            = filter (\<lambda>p'. queue_at s' p' ob' \<noteq> []) (bs_prices (get_side s' ob)))
    \<and> (\<forall>s' p'. bs_levels (get_side s' ob') p' \<noteq> Some [])"
proof -
  note si = repr_invD(1) [OF inv]
  let ?b = "get_side s ob"
  let ?q = "queue_at s p ob"
  let ?h = "(ob_heap ob)(x := (ob_heap ob x)\<lparr>ord_elem := None\<rparr>)"
  have ok: "ptr_ok X s p ob x" using side_invD(6) [OF si x] .
  have lev: "bs_levels ?b p = Some ?q"
    using x by (cases "bs_levels ?b p") (simp_all add: queue_at_def)
  have rm: "remove1 x ?q = filter (\<lambda>y. y \<noteq> x) ?q"
    using side_invD(5) [OF si] by (rule remove1_filter)
  have other: "filter (\<lambda>y. y \<noteq> x) (queue_at s' p' ob) = queue_at s' p' ob" if "\<not> (s' = s \<and> p' = p)" for s' p'
    using that queue_unique [OF inv x] by (auto intro!: filter_True)
  have nonempty: "filter (\<lambda>p'. queue_at s' p' ob \<noteq> []) (bs_prices (get_side s' ob)) = bs_prices (get_side s' ob)" for s'
    using side_invD(4) [OF si] by (intro filter_True) auto
  have noemp: "bs_levels (get_side s' ob) p' \<noteq> Some []" for s' p'
    using si by (auto simp: side_inv_def)
  show ?thesis
  proof (cases "filter (\<lambda>y. y \<noteq> x) ?q = []")
    case True
    let ?b' = "?b\<lparr>bs_levels := (bs_levels ?b)(p := None), bs_prices := removePrice p (bs_prices ?b)\<rparr>"
    let ?ob = "set_side s ?b' (ob\<lparr>ob_heap := ?h\<rparr>)"
    have res: "side_remove s x ob = Some ?ob"
      using ok lev True rm by (simp add: side_remove_def bs_remove_def ptr_ok_def)
    have q: "queue_at s' p' ?ob = filter (\<lambda>y. y \<noteq> x) (queue_at s' p' ob)" for s' p'
      using other [of s' p'] True by (cases "s' = s") (auto simp: queue_at_def)
    have "removePrice p (bs_prices ?b) = filter (\<lambda>p'. p' \<noteq> p) (bs_prices ?b)"
      using side_invD(2) [OF si, of s]
      by (simp add: removePrice_remove1 strict_sorted_iff remove1_filter)
    also have "\<dots> = filter (\<lambda>p'. queue_at s p' ?ob \<noteq> []) (bs_prices ?b)"
    proof (rule filter_cong [OF refl])
      fix p' assume "p' \<in> set (bs_prices ?b)"
      then show "p' \<noteq> p \<longleftrightarrow> queue_at s p' ?ob \<noteq> []"
        using side_invD(4) [OF si, of p' s] other [of s p'] True by (cases "p' = p") (simp_all only: q, auto)
    qed
    finally have pr: "bs_prices (get_side s' ?ob)
        = filter (\<lambda>p'. queue_at s' p' ?ob \<noteq> []) (bs_prices (get_side s' ob))" for s'
      using nonempty other [of s'] by (cases "s' = s") auto
    have "bs_levels (get_side s' ?ob) p' \<noteq> Some []" for s' p'
      using noemp by (cases "s' = s") auto
    moreover have "bs_side (get_side s' ?ob) = bs_side (get_side s' ob)" for s'
      by (cases "s' = s") auto
    ultimately show ?thesis using res q pr
      by (intro exI [of _ ?ob] conjI allI) (simp_all del: queue_at_upd)
  next
    case False
    let ?b' = "?b\<lparr>bs_levels := (bs_levels ?b)(p \<mapsto> filter (\<lambda>y. y \<noteq> x) ?q)\<rparr>"
    let ?ob = "set_side s ?b' (ob\<lparr>ob_heap := ?h\<rparr>)"
    have res: "side_remove s x ob = Some ?ob"
      using ok lev False rm by (simp add: side_remove_def bs_remove_def ptr_ok_def)
    have q: "queue_at s' p' ?ob = filter (\<lambda>y. y \<noteq> x) (queue_at s' p' ob)" for s' p'
      using other [of s' p'] by (cases "s' = s") (auto simp: queue_at_def)
    have "queue_at s' p' ?ob \<noteq> [] \<longleftrightarrow> queue_at s' p' ob \<noteq> []" for s' p'
      unfolding q using other [of s' p'] False by (cases "s' = s \<and> p' = p") auto
    then have pr: "bs_prices (get_side s' ?ob)
        = filter (\<lambda>p'. queue_at s' p' ?ob \<noteq> []) (bs_prices (get_side s' ob))" for s'
      using nonempty by (cases "s' = s") (auto simp del: queue_at_upd)
    have "bs_levels (get_side s' ?ob) p' \<noteq> Some []" for s' p'
      using noemp False by (cases "s' = s") auto
    moreover have "bs_side (get_side s' ?ob) = bs_side (get_side s' ob)" for s'
      by (cases "s' = s") auto
    ultimately show ?thesis using res q pr
      by (intro exI [of _ ?ob] conjI allI) (simp_all del: queue_at_upd)
  qed
qed

lemma remove_order:
  assumes inv: "repr_inv {x} ob" and x: "x \<in> set (queue_at s p ob)"
    and oid: "oid = ord_ID (ob_heap ob x)"
  shows "\<exists>ob'. side_remove s x ob = Some ob'
    \<and> ob_heap ob' = (ob_heap ob)(x := (ob_heap ob x)\<lparr>ord_elem := None\<rparr>)
    \<and> ob_live ob' = ob_live ob
    \<and> ob_next ob' = ob_next ob \<and> ob_seq ob' = ob_seq ob \<and> ob_Symbol ob' = ob_Symbol ob
    \<and> repr_inv {} (ob'\<lparr>ob_live := (ob_live ob)(oid := None)\<rparr>)
    \<and> (\<forall>s' p'. queue_at s' p' ob' = filter (\<lambda>y. y \<noteq> x) (queue_at s' p' ob))
    \<and> (\<forall>s'. level_ptrs s' ob' = filter (\<lambda>y. y \<noteq> x) (level_ptrs s' ob))
    \<and> (\<forall>s'. abs_side s' ob' = map (abs_order ob) (filter (\<lambda>y. y \<noteq> x) (level_ptrs s' ob)))"
proof -
  obtain ob' where eff: "side_remove s x ob = Some ob'"
    "ob_heap ob' = (ob_heap ob)(x := (ob_heap ob x)\<lparr>ord_elem := None\<rparr>)"
    "ob_live ob' = ob_live ob" "ob_next ob' = ob_next ob" "ob_seq ob' = ob_seq ob"
    "ob_Symbol ob' = ob_Symbol ob"
    and bs: "\<And>s'. bs_side (get_side s' ob') = bs_side (get_side s' ob)"
    and q: "\<And>s' p'. queue_at s' p' ob' = filter (\<lambda>y. y \<noteq> x) (queue_at s' p' ob)"
    and pr: "\<And>s'. bs_prices (get_side s' ob')
            = filter (\<lambda>p'. queue_at s' p' ob' \<noteq> []) (bs_prices (get_side s' ob))"
    and ne: "\<And>s' p'. bs_levels (get_side s' ob') p' \<noteq> Some []"
    using side_remove_effect [OF inv x] by blast
  let ?ob = "ob'\<lparr>ob_live := (ob_live ob)(oid := None)\<rparr>"
  note si = repr_invD(1) [OF inv]
  have xlive: "ob_live ob oid = Some x"
    using side_invD(6) [OF si x] oid by (simp add: ptr_ok_def)
  have ptr: "ptr_ok {} s' p' ?ob y" if y: "y \<in> set (queue_at s' p' ob)" "y \<noteq> x" for s' p' y
  proof -
    have ok: "ptr_ok {x} s' p' ob y" using side_invD(6) [OF si y(1)] .
    then have "ord_ID (ob_heap ob y) \<noteq> oid" using xlive y(2) by (auto simp: ptr_ok_def)
    with ok y(2) eff show ?thesis by (simp add: ptr_ok_def)
  qed
  have "side_inv {} s' ?ob" for s'
  proof -
    have lev: "(p' \<in> set (bs_prices (get_side s' ?ob))) = (bs_levels (get_side s' ?ob) p' \<noteq> None)" for p'
      using ne [of s' p'] side_invD(4) [OF si, of p' s'] pr [of s'] q [of s' p']
      by (cases "bs_levels (get_side s' ob') p'") (auto simp: queue_at_def [of s' p' ob'])
    have "sorted_wrt (<) (bs_prices (get_side s' ?ob))"
      using side_invD(2) [OF si, of s'] by (simp add: pr sorted_wrt_filter)
    moreover have "\<forall>p' \<in> set (bs_prices (get_side s' ?ob)). 0 < p' \<and> in_int64 p'"
      using side_invD(3) [OF si, of _ s'] by (auto simp: pr)
    ultimately show ?thesis
      using bs [of s'] side_invD(1) [OF si, of s'] lev ne side_invD(5) [OF si, of s'] ptr
      by (simp add: side_inv_def q)
  qed
  moreover have "live_inv ?ob"
    unfolding live_inv_def
  proof (intro allI impI)
    fix i y assume "ob_live ?ob i = Some y"
    then have i: "i \<noteq> oid" "ob_live ob i = Some y" by (auto split: if_splits)
    then have id: "ord_ID (ob_heap ob y) = i"
      "y \<in> set (queue_at (ord_Side (ob_heap ob y)) (ord_Price (ob_heap ob y)) ob)"
      using repr_invD(2) [OF inv] by (auto simp: live_inv_def)
    with i oid have "y \<noteq> x" by auto
    with id eff show "ord_ID (ob_heap ?ob y) = i
        \<and> y \<in> set (queue_at (ord_Side (ob_heap ?ob y)) (ord_Price (ob_heap ?ob y)) ?ob)"
      by (simp add: q)
  qed
  ultimately have "repr_inv {} ?ob" by (simp add: repr_inv_def)
  moreover have lp: "level_ptrs s' ob' = filter (\<lambda>y. y \<noteq> x) (level_ptrs s' ob)" for s'
    by (simp add: level_ptrs_def pr prio_filter concat_map_nonempty)
      (simp add: q filter_concat comp_def)
  moreover have "abs_side s' ob' = map (abs_order ob) (filter (\<lambda>y. y \<noteq> x) (level_ptrs s' ob))" for s'
    unfolding abs_side_def lp by (rule map_cong) (auto simp: abs_order_def eff)
  ultimately show ?thesis using eff q by blast
qed

section \<open>Adding an order\<close>

lemma alloc_order_inv:
  assumes inv: "repr_inv {} ob" and al: "alloc_order oid side price qty ob = (x, ob')"
  shows "repr_inv {} ob'" "unqueued x ob'" "x < ob_next ob'" "ob_live ob' = ob_live ob"
    "\<And>s. abs_side s ob' = abs_side s ob" "\<And>s p. queue_at s p ob' = queue_at s p ob"
    "ob_heap ob' x = \<lparr>ord_ID = oid, ord_Side = side, ord_Price = price, ord_Quantity = qty,
       ord_Remaining = qty, ord_Seq = i64_add (ob_seq ob) 1, ord_elem = None, ord_side = None\<rparr>"
    "ob_seq ob' = i64_add (ob_seq ob) 1" "ob_Symbol ob' = ob_Symbol ob"
proof -
  let ?v = "\<lparr>ord_ID = oid, ord_Side = side, ord_Price = price, ord_Quantity = qty,
       ord_Remaining = qty, ord_Seq = i64_add (ob_seq ob) 1, ord_elem = None, ord_side = None\<rparr>"
  let ?n = "ob_next ob"
  have x: "x = ?n" and ob': "ob' = ob\<lparr>ob_seq := i64_add (ob_seq ob) 1, ob_next := Suc ?n,
      ob_heap := (ob_heap ob)(?n := ?v)\<rparr>"
    using al by (auto simp: alloc_order_def Let_def)
  have un: "unqueued ?n ob"
    using side_invD(6) [OF repr_invD(1) [OF inv]] by (fastforce simp: unqueued_def ptr_ok_def)
  let ?ob1 = "ob\<lparr>ob_heap := (ob_heap ob)(?n := ?v)\<rparr>"
  have r1: "repr_inv {} ?ob1" by (rule repr_inv_heap [OF inv un])
  have eqs: "get_side s ob' = get_side s ob" "queue_at s p ob' = queue_at s p ob"
    "level_ptrs s ob' = level_ptrs s ob" for s p
    by (cases s; simp add: ob' get_side_def queue_at_def level_ptrs_def)+
  have "ptr_ok {} s p ?ob1 y \<Longrightarrow> ptr_ok {} s p ob' y" for s p y
    by (auto simp: ptr_ok_def ob')
  with r1 show "repr_inv {} ob'"
    by (auto simp: repr_inv_def side_inv_def live_inv_def eqs ob')
  show "unqueued x ob'" using un by (simp add: unqueued_def eqs x)
  show "abs_side s ob' = abs_side s ob" for s
    using unqueued_level_ptrs [OF inv un, of s] by (auto simp: abs_side_def abs_order_def eqs ob')
qed (use al in \<open>auto simp: alloc_order_def Let_def queue_at_def get_side_def split: Side.split\<close>)

text \<open>Inserting a price into the priority order of a side.\<close>

fun pins :: "Side \<Rightarrow> int64 \<Rightarrow> int64 list \<Rightarrow> int64 list" where
  "pins s p [] = [p]"
| "pins s p (a # ps) = (if pkey s p < pkey s a then p # a # ps else a # pins s p ps)"

lemma pkey_inj [simp]: "pkey s p = pkey s q \<longleftrightarrow> p = q"
  by (cases s) (simp_all add: pkey_def)

lemma set_pins [simp]: "set (pins s p ps) = insert p (set ps)"
  by (induction ps) auto

lemma sorted_pins:
  "sorted_wrt (\<lambda>a b. pkey s a < pkey s b) ps \<Longrightarrow> p \<notin> set ps \<Longrightarrow>
     sorted_wrt (\<lambda>a b. pkey s a < pkey s b) (pins s p ps)"
proof (induction ps)
  case (Cons a ps)
  then show ?case
    by (auto simp: not_less order_less_le intro: order_less_trans)
qed simp

lemma prio_insort:
  assumes "sorted_wrt (<) ps" "p \<notin> set ps"
  shows "prio s (insort p ps) = pins s p (prio s ps)"
proof -
  have asc: "sorted_wrt (<) (insort p ps)" "set (insort p ps) = insert p (set ps)"
    using assms by (simp_all add: strict_sorted_iff sorted_insort distinct_insort set_insort_key)
  have "sorted_wrt (\<lambda>a b. pkey s a < pkey s b) (pins s p (prio s ps))"
    using sorted_prio [OF assms(1), of s] assms(2) by (intro sorted_pins) simp_all
  then have "sorted_wrt (<) (prio s (pins s p (prio s ps)))"
    by (cases s) (simp_all add: prio_def pkey_def sorted_wrt_rev)
  moreover have "set (prio s (pins s p (prio s ps))) = set (insort p ps)"
    using asc by simp
  ultimately have "prio s (pins s p (prio s ps)) = insort p ps"
    using asc(1) by (metis strict_sorted_equal)
  then have "prio s (insort p ps) = prio s (prio s (pins s p (prio s ps)))" by simp
  then show ?thesis by (cases s) (simp_all add: prio_def)
qed

lemma enqueue_front:
  "\<forall>y \<in> set xs. pkey (ord_Side x) (ord_Price x) < pkey (ord_Side x) (ord_Price y) \<Longrightarrow>
     enqueue x xs = x # xs"
  by (cases xs) auto

lemma enqueue_behind:
  "\<forall>y \<in> set xs. pkey (ord_Side x) (ord_Price y) \<le> pkey (ord_Side x) (ord_Price x) \<Longrightarrow>
     enqueue x (xs @ ys) = xs @ enqueue x ys"
  by (induction xs) auto

text \<open>Appending to the queue of a price is insertion into the priority list of the side.\<close>

lemma enqueue_concat:
  assumes "sorted_wrt (\<lambda>a b. pkey s a < pkey s b) ps"
    and "\<forall>p' \<in> set ps. \<forall>y \<in> set (f p'). ord_Price y = p'"
    and "ord_Side x = s" "ord_Price x = p" "p \<notin> set ps \<Longrightarrow> f p = []"
  shows "enqueue x (concat (map f ps))
    = concat (map (f(p := f p @ [x])) (if p \<in> set ps then ps else pins s p ps))"
  using assms
proof (induction ps)
  case (Cons a ps)
  have later: "\<forall>y \<in> set (concat (map f ps)). pkey s a < pkey s (ord_Price y)"
    using Cons.prems(1,2) by auto
  have fa: "\<forall>y \<in> set (f a). ord_Price y = a" using Cons.prems(2) by simp
  consider "p = a" | "p \<noteq> a" "pkey s p < pkey s a" | "p \<noteq> a" "pkey s a < pkey s p"
    by (metis linorder_less_linear pkey_inj)
  then show ?case
  proof cases
    case 1
    have "a \<notin> set ps" using Cons.prems(1) by auto
    then have "concat (map (f(a := f a @ [x])) ps) = concat (map f ps)"
      by (intro arg_cong [of _ _ concat] map_cong) auto
    moreover have "enqueue x (f a @ concat (map f ps)) = f a @ x # concat (map f ps)"
      using fa later 1 Cons.prems(3,4) by (simp add: enqueue_behind enqueue_front)
    ultimately show ?thesis unfolding 1 by (simp add: fun_upd_def)
  next
    case 2
    then have "p \<notin> set ps" using Cons.prems(1) by (auto dest: order_less_trans)
    then have "concat (map (f(p := f p @ [x])) ps) = concat (map f ps)"
      by (intro arg_cong [of _ _ concat] map_cong) auto
    moreover have "enqueue x (f a @ concat (map f ps)) = x # f a @ concat (map f ps)"
    proof (rule enqueue_front, rule ballI)
      fix y assume "y \<in> set (f a @ concat (map f ps))"
      then have "pkey s a \<le> pkey s (ord_Price y)" using fa later by (auto simp: order_less_imp_le)
      then show "pkey (ord_Side x) (ord_Price x) < pkey (ord_Side x) (ord_Price y)"
        using 2 Cons.prems(3,4) by simp
    qed
    ultimately show ?thesis using 2 \<open>p \<notin> set ps\<close> Cons.prems(5) by (simp add: fun_upd_def)
  next
    case 3
    have "enqueue x (f a @ concat (map f ps)) = f a @ enqueue x (concat (map f ps))"
      using fa 3 Cons.prems(3,4) by (intro enqueue_behind) simp
    moreover have "enqueue x (concat (map f ps))
        = concat (map (f(p := f p @ [x])) (if p \<in> set ps then ps else pins s p ps))"
      using Cons.prems 3 by (intro Cons.IH) auto
    ultimately show ?thesis using 3 by (auto simp: fun_upd_def)
  qed
qed simp

lemma rest_effect:
  assumes inv: "repr_inv {} ob" and un: "unqueued x ob" and xn: "x < ob_next ob"
    and sd: "ord_Side (ob_heap ob x) = s"
  defines "p \<equiv> ord_Price (ob_heap ob x)"
  shows "ob_heap (rest x ob) = (ob_heap ob)(x := (ob_heap ob x)\<lparr>ord_elem := Some x, ord_side := Some s\<rparr>)"
    "ob_live (rest x ob) = (ob_live ob)(ord_ID (ob_heap ob x) \<mapsto> x)"
    "ob_next (rest x ob) = ob_next ob" "ob_seq (rest x ob) = ob_seq ob"
    "ob_Symbol (rest x ob) = ob_Symbol ob"
    "bs_side (get_side s' (rest x ob)) = bs_side (get_side s' ob)"
    "queue_at s' p' (rest x ob) = (if s' = s \<and> p' = p then queue_at s p ob @ [x] else queue_at s' p' ob)"
    "bs_prices (get_side s' (rest x ob)) =
       (if s' = s \<and> queue_at s p ob = [] then insort p (bs_prices (get_side s ob)) else bs_prices (get_side s' ob))"
    "bs_levels (get_side s' (rest x ob)) p' = (if s' = s \<and> p' = p then Some (queue_at s p ob @ [x])
       else bs_levels (get_side s' ob) p')"
proof -
  note si = repr_invD(1) [OF inv]
  have ss: "(if s = Sell then Sell else Buy) = s" by (cases s) auto
  have bs: "bs_side (get_side s ob) = s" by (rule side_invD(1) [OF si])
  have srt: "sorted (bs_prices (get_side s ob))"
    using side_invD(2) [OF si] by (simp add: strict_sorted_iff)
  have emp: "bs_levels (get_side s ob) p = None \<longleftrightarrow> queue_at s p ob = []"
    using si [of s] by (auto simp: queue_at_def side_inv_def split: option.split)
  define b' where "b' = (get_side s ob)\<lparr>bs_levels := (bs_levels (get_side s ob))(p \<mapsto> queue_at s p ob @ [x]),
     bs_prices := (if queue_at s p ob = [] then insort p (bs_prices (get_side s ob)) else bs_prices (get_side s ob))\<rparr>"
  define h where "h = (ob_heap ob)(x := (ob_heap ob x)\<lparr>ord_elem := Some x, ord_side := Some s\<rparr>)"
  have add: "bs_add x (ob_heap ob) (get_side s ob) = (h, b')"
  proof (cases "bs_levels (get_side s ob) p")
    case None
    then show ?thesis using emp bs insertPrice_insort [OF srt]
      by (simp add: bs_add_def b'_def h_def Let_def p_def queue_at_def)
  next
    case (Some q)
    then show ?thesis using emp bs
      by (simp add: bs_add_def b'_def h_def Let_def p_def queue_at_def)
  qed
  have r: "rest x ob = (set_side s b' (ob\<lparr>ob_heap := h\<rparr>))\<lparr>ob_live := (ob_live ob)(ord_ID (ob_heap ob x) \<mapsto> x)\<rparr>"
    using add sd ss by (simp add: rest_def Let_def h_def)
  show "ob_heap (rest x ob) = (ob_heap ob)(x := (ob_heap ob x)\<lparr>ord_elem := Some x, ord_side := Some s\<rparr>)"
    "ob_live (rest x ob) = (ob_live ob)(ord_ID (ob_heap ob x) \<mapsto> x)"
    "ob_next (rest x ob) = ob_next ob" "ob_seq (rest x ob) = ob_seq ob"
    "ob_Symbol (rest x ob) = ob_Symbol ob"
    by (simp_all add: r h_def)
  show "bs_side (get_side s' (rest x ob)) = bs_side (get_side s' ob)"
    "bs_prices (get_side s' (rest x ob)) =
       (if s' = s \<and> queue_at s p ob = [] then insort p (bs_prices (get_side s ob)) else bs_prices (get_side s' ob))"
    "bs_levels (get_side s' (rest x ob)) p' = (if s' = s \<and> p' = p then Some (queue_at s p ob @ [x])
       else bs_levels (get_side s' ob) p')"
    by (cases "s' = s"; simp add: r b'_def)+
  show "queue_at s' p' (rest x ob) = (if s' = s \<and> p' = p then queue_at s p ob @ [x] else queue_at s' p' ob)"
    by (cases "s' = s") (simp_all add: r b'_def queue_at_def)
qed

lemma rest_inv:
  assumes inv: "repr_inv {} ob" and un: "unqueued x ob" and xn: "x < ob_next ob"
    and fresh: "ob_live ob (ord_ID (ob_heap ob x)) = None"
    and p: "0 < ord_Price (ob_heap ob x)" "in_int64 (ord_Price (ob_heap ob x))"
    and r: "0 < ord_Remaining (ob_heap ob x)" "ord_Remaining (ob_heap ob x) \<le> ord_Quantity (ob_heap ob x)"
      "in_int64 (ord_Quantity (ob_heap ob x))"
  shows "repr_inv {} (rest x ob)"
proof -
  let ?s = "ord_Side (ob_heap ob x)" and ?p = "ord_Price (ob_heap ob x)"
  let ?ob = "rest x ob"
  note si = repr_invD(1) [OF inv]
  note eff = rest_effect [OF inv un xn refl]
  have noq: "x \<notin> set (queue_at s' p' ob)" for s' p' using un by (simp add: unqueued_def)
  have old: "ptr_ok {} s' p' ?ob y" if y: "y \<in> set (queue_at s' p' ob)" for s' p' y
  proof -
    have ok: "ptr_ok {} s' p' ob y" using side_invD(6) [OF si y] .
    have "y \<noteq> x" using y noq by auto
    moreover from ok fresh have "ord_ID (ob_heap ob y) \<noteq> ord_ID (ob_heap ob x)"
      by (auto simp: ptr_ok_def)
    ultimately show ?thesis using ok by (simp add: ptr_ok_def eff)
  qed
  have new: "ptr_ok {} ?s ?p ?ob x" using xn r by (simp add: ptr_ok_def eff)
  have "side_inv {} s' ?ob" for s'
  proof -
    have mem: "p' \<in> set (bs_prices (get_side s' ob)) \<longleftrightarrow> queue_at s' p' ob \<noteq> []" for p'
      by (rule side_invD(4) [OF si])
    have lev: "bs_levels (get_side s' ob) p' \<noteq> None \<longleftrightarrow> queue_at s' p' ob \<noteq> []" for p'
      using si [of s'] by (auto simp: side_inv_def queue_at_def split: option.split)
    have "sorted_wrt (<) (bs_prices (get_side s' ?ob))"
      using side_invD(2) [OF si, of s'] mem
      by (auto simp: eff strict_sorted_iff sorted_insort distinct_insort)
    moreover have "\<forall>p' \<in> set (bs_prices (get_side s' ?ob)). 0 < p' \<and> in_int64 p'"
      using side_invD(3) [OF si, of _ s'] p by (auto simp: eff set_insort_key)
    moreover have "(p' \<in> set (bs_prices (get_side s' ?ob))) = (bs_levels (get_side s' ?ob) p' \<noteq> None)" for p'
      using mem [of p'] lev [of p'] by (auto simp: eff set_insort_key)
    moreover have "bs_levels (get_side s' ?ob) p' \<noteq> Some []" for p'
      using si [of s'] by (auto simp: eff side_inv_def)
    moreover have "distinct (queue_at s' p' ?ob)" for p'
      using side_invD(5) [OF si] noq by (auto simp: eff)
    moreover have "ptr_ok {} s' p' ?ob y" if "y \<in> set (queue_at s' p' ?ob)" for p' y
      using that old new by (auto simp: eff(7) split: if_splits)
    moreover have "bs_side (get_side s' ?ob) = s'" using side_invD(1) [OF si] by (simp add: eff)
    ultimately show ?thesis by (simp add: side_inv_def)
  qed
  moreover have "live_inv ?ob"
    unfolding live_inv_def
  proof (intro allI impI)
    fix i y assume ly: "ob_live ?ob i = Some y"
    show "ord_ID (ob_heap ?ob y) = i
        \<and> y \<in> set (queue_at (ord_Side (ob_heap ?ob y)) (ord_Price (ob_heap ?ob y)) ?ob)"
    proof (cases "i = ord_ID (ob_heap ob x)")
      case True
      with ly have "y = x" by (simp add: eff)
      then show ?thesis unfolding \<open>y = x\<close> True by (simp add: eff)
    next
      case False
      with ly have "ob_live ob i = Some y" by (simp add: eff)
      then have "ord_ID (ob_heap ob y) = i"
        "y \<in> set (queue_at (ord_Side (ob_heap ob y)) (ord_Price (ob_heap ob y)) ob)"
        using repr_invD(2) [OF inv] by (auto simp: live_inv_def)
      moreover from this have "y \<noteq> x" using noq by auto
      ultimately show ?thesis by (auto simp: eff)
    qed
  qed
  ultimately show ?thesis by (simp add: repr_inv_def)
qed

lemma rest_abs:
  assumes inv: "repr_inv {} ob" and un: "unqueued x ob" and xn: "x < ob_next ob"
  shows "abs_side s' (rest x ob) = (if s' = ord_Side (ob_heap ob x)
    then enqueue (abs_order ob x) (abs_side s' ob) else abs_side s' ob)"
proof -
  let ?s = "ord_Side (ob_heap ob x)" and ?p = "ord_Price (ob_heap ob x)"
  let ?ps = "bs_prices (get_side ?s ob)"
  let ?f = "\<lambda>p'. map (abs_order ob) (queue_at ?s p' ob)"
  note si = repr_invD(1) [OF inv]
  note eff = rest_effect [OF inv un xn refl]
  have copy: "abs_order (rest x ob) = abs_order ob"
    by (auto simp: abs_order_def eff order_copy_def fun_eq_iff)
  have mem: "?p \<in> set ?ps \<longleftrightarrow> queue_at ?s ?p ob \<noteq> []"
    by (rule side_invD(4) [OF si])
  have pr: "prio ?s (bs_prices (get_side ?s (rest x ob)))
      = (if ?p \<in> set (prio ?s ?ps) then prio ?s ?ps else pins ?s ?p (prio ?s ?ps))"
    using mem side_invD(2) [OF si] by (auto simp: eff prio_insort)
  have "enqueue (abs_order ob x) (concat (map ?f (prio ?s ?ps)))
      = concat (map (?f(?p := ?f ?p @ [abs_order ob x]))
          (if ?p \<in> set (prio ?s ?ps) then prio ?s ?ps else pins ?s ?p (prio ?s ?ps)))"
  proof (rule enqueue_concat [OF sorted_prio])
    show "sorted_wrt (<) ?ps" by (rule side_invD(2) [OF si])
    show "\<forall>p' \<in> set (prio ?s ?ps). \<forall>y \<in> set (?f p'). ord_Price y = p'"
      using side_invD(6) [OF si] by (fastforce simp: abs_order_def ptr_ok_def)
  qed (use mem in \<open>auto simp: abs_order_def\<close>)
  also have "\<dots> = concat (map (\<lambda>p'. map (abs_order ob) (queue_at ?s p' (rest x ob)))
      (prio ?s (bs_prices (get_side ?s (rest x ob)))))"
    unfolding pr by (intro arg_cong [of _ _ concat] map_cong) (auto simp: eff(7))
  finally have own: "abs_side ?s (rest x ob) = enqueue (abs_order ob x) (abs_side ?s ob)"
    by (simp add: abs_side_def level_ptrs_def map_concat comp_def copy)
  moreover have "abs_side s' (rest x ob) = abs_side s' ob" if "s' \<noteq> ?s"
    using that by (simp add: abs_side_def level_ptrs_def copy eff)
  ultimately show ?thesis by auto
qed

section \<open>Matching\<close>

text \<open>
  The state of a book while the taker \<open>t\<close>, already allocated but not queued, is matched.
\<close>

definition matching :: "ptr \<Rightarrow> OrderBook \<Rightarrow> bool" where
  "matching t ob \<longleftrightarrow> repr_inv {} ob \<and> unqueued t ob \<and> t < ob_next ob
     \<and> 0 \<le> ord_Remaining (ob_heap ob t) \<and> in_int64 (ord_Remaining (ob_heap ob t))"

lemma prio_Nil [simp]: "prio s ps = [] \<longleftrightarrow> ps = []"
  by (cases s) (simp_all add: prio_def)

lemma prio_empty [simp]: "prio s [] = []"
  by simp

lemma abs_live_upd [simp]:
  "abs_order (ob\<lparr>ob_live := l\<rparr>) = abs_order ob"
  "abs_side s (ob\<lparr>ob_live := l\<rparr>) = abs_side s ob"
  by (simp_all add: abs_order_def abs_side_def fun_eq_iff)

lemma best_prio:
  assumes "side_inv X s ob"
  shows "best (get_side s ob)
    = (case prio s (bs_prices (get_side s ob)) of [] \<Rightarrow> None | p # _ \<Rightarrow> Some p)"
proof -
  have bs: "bs_side (get_side s ob) = s" by (rule side_invD(1) [OF assms])
  show ?thesis
  proof (cases s)
    case Buy
    then show ?thesis using bs
      by (cases "bs_prices (get_side s ob)" rule: rev_cases) (simp_all add: best_def prio_def)
  next
    case Sell
    then show ?thesis using bs
      by (cases "bs_prices (get_side s ob)") (simp_all add: best_def prio_def)
  qed
qed

text \<open>The best price is that of the first order in priority, which heads its queue.\<close>

lemma best_first:
  assumes "side_inv X s ob"
  shows "level_ptrs s ob = [] \<Longrightarrow> best (get_side s ob) = None"
    and "level_ptrs s ob = m # ms \<Longrightarrow> best (get_side s ob) = Some (ord_Price (ob_heap ob m))
      \<and> queue_at s (ord_Price (ob_heap ob m)) ob \<noteq> []
      \<and> hd (queue_at s (ord_Price (ob_heap ob m)) ob) = m"
proof -
  let ?ps = "prio s (bs_prices (get_side s ob))"
  have ne: "queue_at s p ob \<noteq> []" if "p \<in> set ?ps" for p
    using that side_invD(4) [OF assms] by simp
  show "best (get_side s ob) = None" if "level_ptrs s ob = []"
    using that ne by (cases ?ps) (auto simp: level_ptrs_def best_prio [OF assms])
  assume m: "level_ptrs s ob = m # ms"
  then obtain p ps where ps: "?ps = p # ps" by (cases ?ps) (auto simp: level_ptrs_def)
  with ne [of p] m have q: "queue_at s p ob \<noteq> []" "hd (queue_at s p ob) = m"
    by (cases "queue_at s p ob"; auto simp: level_ptrs_def)+
  then have "m \<in> set (queue_at s p ob)" by (metis hd_in_set)
  then have "ord_Price (ob_heap ob m) = p" using side_invD(6) [OF assms] by (auto simp: ptr_ok_def)
  with q ps show "best (get_side s ob) = Some (ord_Price (ob_heap ob m))
      \<and> queue_at s (ord_Price (ob_heap ob m)) ob \<noteq> []
      \<and> hd (queue_at s (ord_Price (ob_heap ob m)) ob) = m"
    by (simp add: best_prio [OF assms])
qed

lemma sub_remaining_simps [simp]:
  "queue_at s p (sub_remaining x q ob) = queue_at s p ob"
  "level_ptrs s (sub_remaining x q ob) = level_ptrs s ob"
  "ob_next (sub_remaining x q ob) = ob_next ob" "ob_seq (sub_remaining x q ob) = ob_seq ob"
  "ob_live (sub_remaining x q ob) = ob_live ob" "ob_Symbol (sub_remaining x q ob) = ob_Symbol ob"
  "unqueued y (sub_remaining x q ob) = unqueued y ob"
  "y \<noteq> x \<Longrightarrow> ob_heap (sub_remaining x q ob) y = ob_heap ob y"
  by (simp_all add: sub_remaining_def unqueued_def)

lemma sub_remaining_self:
  assumes "0 \<le> q" "q \<le> ord_Remaining (ob_heap ob x)" "in_int64 (ord_Remaining (ob_heap ob x))"
  shows "ob_heap (sub_remaining x q ob) x
    = (ob_heap ob x)\<lparr>ord_Remaining := ord_Remaining (ob_heap ob x) - q\<rparr>"
proof -
  have "in_int64 (ord_Remaining (ob_heap ob x) - q)"
    using assms by (auto intro: in_int64_mono)
  then show ?thesis by (simp add: sub_remaining_def i64_sub_def)
qed

text \<open>One iteration of the inner loop is one step of the reference \<open>fill\<close>.\<close>

lemma fill_front_step:
  assumes mt: "matching t ob" and lp: "level_ptrs s ob = m # ms"
    and r: "0 < ord_Remaining (ob_heap ob t)"
  defines "p \<equiv> ord_Price (ob_heap ob m)"
    and "q \<equiv> min (ord_Remaining (ob_heap ob t)) (ord_Remaining (ob_heap ob m))"
  shows "\<exists>ob'. fill_front t s p ob ts = Some (ob', ts @ [mk_trade (ob_heap ob t) (abs_order ob m) q])
    \<and> matching t ob'
    \<and> ob_heap ob' t = (ob_heap ob t)\<lparr>ord_Remaining := ord_Remaining (ob_heap ob t) - q\<rparr>
    \<and> ob_seq ob' = ob_seq ob \<and> ob_Symbol ob' = ob_Symbol ob
    \<and> (\<forall>s'. s' \<noteq> s \<longrightarrow> abs_side s' ob' = abs_side s' ob)
    \<and> (if q = ord_Remaining (ob_heap ob m)
       then abs_side s ob' = map (abs_order ob) ms \<and> level_ptrs s ob' = ms
         \<and> queue_at s p ob' = tl (queue_at s p ob)
       else abs_side s ob' = (abs_order ob m)\<lparr>ord_Remaining := ord_Remaining (ob_heap ob m) - q\<rparr>
              # map (abs_order ob) ms \<and> level_ptrs s ob' = m # ms
         \<and> queue_at s p ob' = queue_at s p ob)"
proof -
  have inv: "repr_inv {} ob" and un: "unqueued t ob" and tn: "t < ob_next ob"
    and rt: "in_int64 (ord_Remaining (ob_heap ob t))"
    using mt by (auto simp: matching_def)
  note si = repr_invD(1) [OF inv]
  have hdq: "hd (queue_at s p ob) = m" "queue_at s p ob \<noteq> []"
    using best_first(2) [OF si lp] by (simp_all add: p_def)
  then have mq: "m \<in> set (queue_at s p ob)" by (metis hd_in_set)
  have ok: "ptr_ok {} s p ob m" using side_invD(6) [OF si mq] .
  then have rm: "0 < ord_Remaining (ob_heap ob m)" "in_int64 (ord_Remaining (ob_heap ob m))"
    "ord_Remaining (ob_heap ob m) \<le> ord_Quantity (ob_heap ob m)" "in_int64 (ord_Quantity (ob_heap ob m))"
    by (auto simp: ptr_ok_def intro: in_int64_mono)
  have tm: "t \<noteq> m" using un mq by (auto simp: unqueued_def)
  have q: "0 \<le> q" "q \<le> ord_Remaining (ob_heap ob t)" "q \<le> ord_Remaining (ob_heap ob m)"
    using r rm(1) by (auto simp: q_def)
  have m64: "min64 (ord_Remaining (ob_heap ob t)) (ord_Remaining (ob_heap ob m)) = q"
    by (simp add: min64_def q_def)
  let ?ob1 = "sub_remaining t q ob" and ?ob2 = "sub_remaining m q (sub_remaining t q ob)"
  have h1: "ob_heap ?ob1 t = (ob_heap ob t)\<lparr>ord_Remaining := ord_Remaining (ob_heap ob t) - q\<rparr>"
    using q rt by (intro sub_remaining_self) auto
  have h2: "ob_heap ?ob2 m = (ob_heap ob m)\<lparr>ord_Remaining := ord_Remaining (ob_heap ob m) - q\<rparr>"
    using sub_remaining_self [of q ?ob1 m] q rm tm by simp
  have h2t: "ob_heap ?ob2 t = (ob_heap ob t)\<lparr>ord_Remaining := ord_Remaining (ob_heap ob t) - q\<rparr>"
    using h1 tm by simp
  have inv1: "repr_inv {} ?ob1"
    unfolding sub_remaining_def using repr_inv_heap [OF inv un] .
  have inv2: "repr_inv {m} ?ob2"
    unfolding sub_remaining_def [of m] using repr_inv_remaining [OF inv1] .
  have notin: "m \<notin> set ms" "\<And>s'. s' \<noteq> s \<Longrightarrow> m \<notin> set (level_ptrs s' ob)"
    "\<And>s'. t \<notin> set (level_ptrs s' ob)"
    using distinct_level_ptrs [OF inv, of s] lp queue_unique [OF inv mq]
      set_level_ptrs [OF si] unqueued_level_ptrs [OF inv un] by auto
  have tr: "\<lparr>tr_TakerOrderID = ord_ID (ob_heap ob t), tr_MakerOrderID = ord_ID (ob_heap ob m),
      tr_Price = p, tr_Quantity = q\<rparr> = mk_trade (ob_heap ob t) (abs_order ob m) q"
    by (simp add: mk_trade_def abs_order_def p_def)
  have copy: "abs_order ?ob2 y = abs_order ob y" if "y \<noteq> m" "y \<noteq> t" for y
    using that by (simp add: abs_order_def)
  have rtq: "0 \<le> ord_Remaining (ob_heap ob t) - q" "in_int64 (ord_Remaining (ob_heap ob t) - q)"
    using q rt by (auto intro: in_int64_mono)
  show ?thesis
  proof (cases "q = ord_Remaining (ob_heap ob m)")
    case True
    obtain ob3 where ob3: "side_remove s m ?ob2 = Some ob3"
      "ob_heap ob3 = (ob_heap ?ob2)(m := (ob_heap ?ob2 m)\<lparr>ord_elem := None\<rparr>)"
      "ob_live ob3 = ob_live ?ob2" "ob_next ob3 = ob_next ?ob2" "ob_seq ob3 = ob_seq ?ob2"
      "ob_Symbol ob3 = ob_Symbol ?ob2"
      "repr_inv {} (ob3\<lparr>ob_live := (ob_live ?ob2)(ord_ID (ob_heap ob m) := None)\<rparr>)"
      "\<And>s' p'. queue_at s' p' ob3 = filter (\<lambda>y. y \<noteq> m) (queue_at s' p' ?ob2)"
      "\<And>s'. level_ptrs s' ob3 = filter (\<lambda>y. y \<noteq> m) (level_ptrs s' ?ob2)"
      "\<And>s'. abs_side s' ob3 = map (abs_order ?ob2) (filter (\<lambda>y. y \<noteq> m) (level_ptrs s' ?ob2))"
      using remove_order [OF inv2, of s p "ord_ID (ob_heap ob m)"] mq h2 by auto
    let ?ob' = "ob3\<lparr>ob_live := (ob_live ob3)(ord_ID (ob_heap ob m) := None)\<rparr>"
    have "fill_front t s p ob ts = Some (?ob', ts @ [mk_trade (ob_heap ob t) (abs_order ob m) q])"
      using True h2 ob3(1) tr hdq(1) tm by (simp add: fill_front_def Let_def m64)
    moreover have "matching t ?ob'"
      using ob3 un tn tm h2t rtq by (auto simp: matching_def unqueued_def)
    moreover have "ob_heap ?ob' t = (ob_heap ob t)\<lparr>ord_Remaining := ord_Remaining (ob_heap ob t) - q\<rparr>"
      using ob3(2) tm h2t by simp
    moreover have fs: "filter (\<lambda>y. y \<noteq> m) (level_ptrs s ob) = ms"
      using lp notin(1) by (auto intro!: filter_True)
    then have "level_ptrs s ?ob' = ms" using ob3(9) [of s] by simp
    moreover have ab: "abs_side s' ?ob' = map (abs_order ob) (filter (\<lambda>y. y \<noteq> m) (level_ptrs s' ob))" for s'
      unfolding abs_live_upd ob3(10) using notin(3) [of s']
      by (intro map_cong copy) auto
    then have "abs_side s ?ob' = map (abs_order ob) ms" by (simp only: fs)
    moreover have "abs_side s' ?ob' = abs_side s' ob" if "s' \<noteq> s" for s'
    proof -
      have "filter (\<lambda>y. y \<noteq> m) (level_ptrs s' ob) = level_ptrs s' ob"
        using notin(2) [OF that] by (auto intro!: filter_True)
      with ab [of s'] show ?thesis by (simp only: abs_side_def [of s' ob])
    qed
    moreover have "queue_at s p ?ob' = tl (queue_at s p ob)"
      using ob3(8) [of s p] hdq side_invD(5) [OF si, of s p]
      by (cases "queue_at s p ob") (auto intro!: filter_True)
    moreover have "ob_seq ?ob' = ob_seq ob" "ob_Symbol ?ob' = ob_Symbol ob" using ob3(5,6) by simp_all
    ultimately show ?thesis
      unfolding if_P [OF True] by blast
  next
    case False
    then have pos: "0 < ord_Remaining (ob_heap ob m) - q" using q by simp
    have "fill_front t s p ob ts = Some (?ob2, ts @ [mk_trade (ob_heap ob t) (abs_order ob m) q])"
      using pos h2 tr hdq(1) by (simp add: fill_front_def Let_def m64)
    moreover have "repr_inv {} ?ob2"
      by (rule repr_inv_unexcept [OF inv2]) (use pos rm q in \<open>simp_all add: h2\<close>)
    then have "matching t ?ob2" using un tn h2t rtq by (simp add: matching_def)
    moreover have "abs_order ?ob2 m = (abs_order ob m)\<lparr>ord_Remaining := ord_Remaining (ob_heap ob m) - q\<rparr>"
      by (simp add: abs_order_def h2 order_copy_def)
    moreover have "map (abs_order ?ob2) ms = map (abs_order ob) ms"
      using notin(1) notin(3) [of s] lp by (intro map_cong [OF refl] copy) auto
    moreover have "abs_side s' ?ob2 = abs_side s' ob" if "s' \<noteq> s" for s'
      unfolding abs_side_def using notin(2) [OF that] notin(3) by (auto intro: copy)
    ultimately show ?thesis
      using False h2t lp by (intro exI [of _ ?ob2]) (simp add: abs_side_def)
  qed
qed

lemma queue_level: "queue_at s p ob \<noteq> [] \<Longrightarrow> bs_levels (get_side s ob) p \<noteq> None"
  by (cases "bs_levels (get_side s ob) p") (simp_all add: queue_at_def)

lemma prices_abs:
  assumes "side_inv X s ob"
  shows "set (bs_prices (get_side s ob)) = ord_Price ` set (abs_side s ob)"
proof -
  have "p \<in> set (bs_prices (get_side s ob)) \<longleftrightarrow> (\<exists>x. x \<in> set (queue_at s p ob))" for p
    using side_invD(4) [OF assms, of p] by (cases "queue_at s p ob") auto
  then show ?thesis
    using side_invD(6) [OF assms] level_ptrs_ok(2) [OF assms]
    by (fastforce simp: abs_side_def abs_order_def set_level_ptrs [OF assms] ptr_ok_def image_iff)
qed

lemma best_iff:
  assumes "side_inv X s ob"
  shows "best (get_side s ob) = Some p \<longleftrightarrow> p \<in> ord_Price ` set (abs_side s ob)
    \<and> (\<forall>x \<in> set (abs_side s ob). pkey s p \<le> pkey s (ord_Price x))"
proof -
  let ?ps = "prio s (bs_prices (get_side s ob))"
  have "sorted_wrt (\<lambda>a b. pkey s a < pkey s b) ?ps"
    by (rule sorted_prio [OF side_invD(2) [OF assms]])
  then have "best (get_side s ob) = Some p \<longleftrightarrow> p \<in> set ?ps \<and> (\<forall>p' \<in> set ?ps. pkey s p \<le> pkey s p')"
    unfolding best_prio [OF assms]
    by (cases ?ps) (auto simp: order_less_imp_le dest: bspec order_antisym)
  then show ?thesis by (simp add: prices_abs [OF assms])
qed

lemma matching_side_inv: "matching t ob \<Longrightarrow> side_inv {} s ob"
  by (simp add: matching_def repr_invD)

text \<open>
  The two nested loops are one loop over the priority list: as long as the queue that is
  being consumed is not exhausted, its price stays the best.
\<close>

lemma match_loop_flat:
  assumes mt: "matching t ob" and lp: "level_ptrs s ob = m # ms"
    and r: "0 < ord_Remaining (ob_heap ob t)"
    and cr: "crosses (ob_heap ob t) (ord_Price (ob_heap ob m))"
  shows "match_loop t s ob ts = Option.bind (fill_front t s (ord_Price (ob_heap ob m)) ob ts)
    (\<lambda>(ob, ts). match_loop t s ob ts)"
proof -
  let ?p = "ord_Price (ob_heap ob m)"
  note si = matching_side_inv [OF mt]
  note bf = best_first(2) [OF si lp]
  have "bs_levels (get_side s ob) ?p \<noteq> None" using bf by (intro queue_level) simp
  then obtain lv where lev: "bs_levels (get_side s ob) ?p = Some lv" by blast
  obtain ob1 ts1 where f: "fill_front t s ?p ob ts = Some (ob1, ts1)"
    and mt1: "matching t ob1"
    and h1: "ord_Price (ob_heap ob1 t) = ord_Price (ob_heap ob t)"
      "ord_Side (ob_heap ob1 t) = ord_Side (ob_heap ob t)"
    and ab1: "ord_Price ` set (abs_side s ob1) \<subseteq> ord_Price ` set (abs_side s ob)"
  proof -
    have "abs_side s ob = abs_order ob m # map (abs_order ob) ms" by (simp add: abs_side_def lp)
    with fill_front_step [OF mt lp r, of ts] that show thesis
      by (fastforce split: if_splits)
  qed
  note si1 = matching_side_inv [OF mt1]
  have outer: "match_loop t s ob ts = Option.bind (match_queue t s ?p ob ts)
      (\<lambda>(ob, ts). match_loop t s ob ts)"
    using r cr bf lev by (subst match_loop.simps) simp
  have inner: "match_queue t s ?p ob ts = match_queue t s ?p ob1 ts1"
    using r bf f by (subst match_queue.simps) simp
  have "Option.bind (match_queue t s ?p ob1 ts1) (\<lambda>(ob, ts). match_loop t s ob ts)
      = match_loop t s ob1 ts1"
  proof (cases "0 < ord_Remaining (ob_heap ob1 t) \<and> queue_at s ?p ob1 \<noteq> []")
    case False
    then show ?thesis by (subst match_queue.simps) auto
  next
    case True
    have "?p \<in> ord_Price ` set (abs_side s ob1)"
      using True side_invD(4) [OF si1] prices_abs [OF si1] by blast
    moreover have "best (get_side s ob) = Some ?p" using bf by simp
    ultimately have "best (get_side s ob1) = Some ?p"
      using ab1 by (fastforce simp: best_iff [OF si] best_iff [OF si1])
    moreover have "crosses (ob_heap ob1 t) ?p" using cr h1 by (simp add: crosses_def)
    moreover have "bs_levels (get_side s ob1) ?p \<noteq> None" using True by (intro queue_level) simp
    then obtain lv1 where "bs_levels (get_side s ob1) ?p = Some lv1" by blast
    ultimately show ?thesis using True by (subst (2) match_loop.simps) simp
  qed
  with outer inner f show ?thesis by simp
qed

text \<open>\<open>match\<close> returns, and computes the reference \<open>fill\<close> on the opposite side.\<close>

lemma fill_taker_cong:
  assumes "ord_ID t = ord_ID t'" "ord_Side t = ord_Side t'" "ord_Price t = ord_Price t'"
  shows "fill t r ms = fill t' r ms"
  using assms
  by (induction t r ms rule: fill.induct) (simp_all add: crosses_def mk_trade_def)

lemma match_loop_fill:
  assumes "matching t ob"
    and "fill (ob_heap ob t) (ord_Remaining (ob_heap ob t)) (abs_side s ob) = (ts', r', ms')"
  shows "\<exists>ob'. match_loop t s ob ts = Some (ob', ts @ ts') \<and> matching t ob'
    \<and> ob_heap ob' t = (ob_heap ob t)\<lparr>ord_Remaining := r'\<rparr>
    \<and> ob_seq ob' = ob_seq ob \<and> ob_Symbol ob' = ob_Symbol ob
    \<and> abs_side s ob' = ms' \<and> (\<forall>s'. s' \<noteq> s \<longrightarrow> abs_side s' ob' = abs_side s' ob)"
  using assms
proof (induction "length (level_ptrs s ob)" arbitrary: ob ts ts' r' ms')
  case 0
  then have "level_ptrs s ob = []" by simp
  then have "best (get_side s ob) = None" "abs_side s ob = []"
    using best_first(1) [OF matching_side_inv [OF "0.prems"(1)]] by (simp_all add: abs_side_def)
  with "0.prems" show ?case by (subst match_loop.simps) simp
next
  case (Suc n)
  note mt = Suc.prems(1)
  note si = matching_side_inv [OF mt]
  obtain m ms where lp: "level_ptrs s ob = m # ms" using Suc.hyps(2) by (cases "level_ptrs s ob") auto
  let ?t = "ob_heap ob t" and ?p = "ord_Price (ob_heap ob m)"
  have ab: "abs_side s ob = abs_order ob m # map (abs_order ob) ms" by (simp add: abs_side_def lp)
  note bf = best_first(2) [OF si lp]
  show ?case
  proof (cases "0 < ord_Remaining ?t \<and> crosses ?t ?p")
    case False
    have "match_loop t s ob ts = Some (ob, ts)"
      using False bf by (subst match_loop.simps) auto
    moreover have "ts' = [] \<and> r' = ord_Remaining ?t \<and> ms' = abs_side s ob"
      using Suc.prems(2) False by (auto simp: ab abs_order_def)
    ultimately show ?thesis using mt by simp
  next
    case True
    then have r: "0 < ord_Remaining ?t" and cr: "crosses ?t ?p" by simp_all
    let ?q = "min (ord_Remaining ?t) (ord_Remaining (ob_heap ob m))"
    obtain ob1 where f: "fill_front t s ?p ob ts = Some (ob1, ts @ [mk_trade ?t (abs_order ob m) ?q])"
      and mt1: "matching t ob1"
      and h1: "ob_heap ob1 t = ?t\<lparr>ord_Remaining := ord_Remaining ?t - ?q\<rparr>"
      and fr: "ob_seq ob1 = ob_seq ob" "ob_Symbol ob1 = ob_Symbol ob"
        "\<forall>s'. s' \<noteq> s \<longrightarrow> abs_side s' ob1 = abs_side s' ob"
      and br: "?q = ord_Remaining (ob_heap ob m) \<longrightarrow>
          abs_side s ob1 = map (abs_order ob) ms \<and> level_ptrs s ob1 = ms"
        "?q \<noteq> ord_Remaining (ob_heap ob m) \<longrightarrow>
          abs_side s ob1 = (abs_order ob m)\<lparr>ord_Remaining := ord_Remaining (ob_heap ob m) - ?q\<rparr> # map (abs_order ob) ms"
    proof -
      from fill_front_step [OF mt lp r, of ts] obtain ob1 where
        F: "fill_front t s ?p ob ts = Some (ob1, ts @ [mk_trade ?t (abs_order ob m) ?q])
          \<and> matching t ob1 \<and> ob_heap ob1 t = ?t\<lparr>ord_Remaining := ord_Remaining ?t - ?q\<rparr>
          \<and> ob_seq ob1 = ob_seq ob \<and> ob_Symbol ob1 = ob_Symbol ob
          \<and> (\<forall>s'. s' \<noteq> s \<longrightarrow> abs_side s' ob1 = abs_side s' ob)
          \<and> (if ?q = ord_Remaining (ob_heap ob m)
             then abs_side s ob1 = map (abs_order ob) ms \<and> level_ptrs s ob1 = ms
               \<and> queue_at s ?p ob1 = tl (queue_at s ?p ob)
             else abs_side s ob1 = (abs_order ob m)\<lparr>ord_Remaining := ord_Remaining (ob_heap ob m) - ?q\<rparr>
                # map (abs_order ob) ms \<and> level_ptrs s ob1 = m # ms
               \<and> queue_at s ?p ob1 = queue_at s ?p ob)" by (rule exE)
      have br': "(?q = ord_Remaining (ob_heap ob m) \<longrightarrow> abs_side s ob1 = map (abs_order ob) ms \<and> level_ptrs s ob1 = ms)
        \<and> (?q \<noteq> ord_Remaining (ob_heap ob m) \<longrightarrow>
             abs_side s ob1 = (abs_order ob m)\<lparr>ord_Remaining := ord_Remaining (ob_heap ob m) - ?q\<rparr> # map (abs_order ob) ms)"
        using F by presburger
      with F show thesis by (intro that [of ob1]) (elim conjE, assumption)+
    qed
    have step: "match_loop t s ob ts = match_loop t s ob1 (ts @ [mk_trade ?t (abs_order ob m) ?q])"
      using match_loop_flat [OF mt lp r cr] f by simp
    have nstop: "\<not> (ord_Remaining ?t \<le> 0 \<or> \<not> crosses ?t (ord_Price (abs_order ob m)))"
      using r cr by (simp add: abs_order_def)
    show ?thesis
    proof (cases "ord_Remaining (ob_heap ob m) \<le> ord_Remaining ?t")
      case full: True
      then have q: "?q = ord_Remaining (ob_heap ob m)" by simp
      obtain ts1 where f1: "fill ?t (ord_Remaining ?t - ?q) (map (abs_order ob) ms) = (ts1, r', ms')"
        and ts': "ts' = mk_trade ?t (abs_order ob m) ?q # ts1"
        using Suc.prems(2) nstop full unfolding ab q
        by (auto simp: abs_order_def split: prod.splits)
      have f1': "fill (ob_heap ob1 t) (ord_Remaining (ob_heap ob1 t)) (abs_side s ob1) = (ts1, r', ms')"
        using f1 fill_taker_cong [of "ob_heap ob1 t" ?t] h1 br q by simp
      have "n = length (level_ptrs s ob1)" using Suc.hyps(2) lp br q by simp
      from Suc.hyps(1) [OF this mt1 f1', of "ts @ [mk_trade ?t (abs_order ob m) ?q]"]
      show ?thesis using step ts' h1 fr by auto
    next
      case part: False
      then have q: "?q = ord_Remaining ?t" by simp
      have res: "ts' = [mk_trade ?t (abs_order ob m) ?q]" "r' = 0"
        "ms' = (abs_order ob m)\<lparr>ord_Remaining := ord_Remaining (ob_heap ob m) - ?q\<rparr> # map (abs_order ob) ms"
        using Suc.prems(2) nstop part unfolding ab q by (auto simp: abs_order_def)
      have "match_loop t s ob1 (ts @ [mk_trade ?t (abs_order ob m) ?q])
          = Some (ob1, ts @ [mk_trade ?t (abs_order ob m) ?q])"
        using h1 q by (subst match_loop.simps) simp
      then show ?thesis using step res mt1 h1 fr br q part by auto
    qed
  qed
qed

end
