(* ===== verification/BookOps.thy ===== *)
theory BookOps
  imports BookRefine
begin

text \<open>
  The operations of the order book implement the reference book of \<open>BookSpec\<close>: on a
  well-formed book every call returns, keeps the invariant, and its result and the
  abstraction of its final state are those of the reference operation. The second half
  draws the consequences that the users of the book rely on.
\<close>

section \<open>The operations implement the reference book\<close>

lemma abs_book_sel [simp]:
  "ab_side s (abs_book ob) = abs_side s ob" "ab_seq (abs_book ob) = ob_seq ob"
  "ab_Symbol (abs_book ob) = ob_Symbol ob"
  "ab_bids (abs_book ob) = abs_side Buy ob" "ab_asks (abs_book ob) = abs_side Sell ob"
  by (cases s; simp add: abs_book_def ab_side_def)+

lemma abook_eqI:
  assumes "\<And>s. ab_side s a = ab_side s b" "ab_seq a = ab_seq b" "ab_Symbol a = ab_Symbol b"
  shows "a = (b::abook)"
  using assms(1) [of Buy] assms(1) [of Sell] assms(2,3) by (simp add: ab_side_def)

lemma abs_order_wf:
  assumes "repr_inv {} ob" "x \<in> set (abs_side s ob)"
  shows "order_wf s x"
proof -
  obtain y where y: "y \<in> set (level_ptrs s ob)" "x = abs_order ob y"
    using assms(2) by (auto simp: abs_side_def)
  note si = repr_invD(1) [OF assms(1)]
  have "ptr_ok {} s (ord_Price (ob_heap ob y)) ob y" using level_ptrs_ok(1) [OF si y(1)] .
  moreover have "0 < ord_Price (ob_heap ob y) \<and> in_int64 (ord_Price (ob_heap ob y))"
    using level_ptrs_ok(2) [OF si y(1)] side_invD(3,4) [OF si] by (metis empty_iff list.set(1))
  ultimately show ?thesis by (simp add: y(2) abs_order_def order_wf_def ptr_ok_def)
qed

lemma abs_prio_sorted:
  assumes "repr_inv {} ob"
  shows "prio_sorted s (abs_side s ob)"
proof -
  let ?ps = "prio s (bs_prices (get_side s ob))"
  let ?f = "\<lambda>p. map (\<lambda>x. pkey s (ord_Price (ob_heap ob x))) (queue_at s p ob)"
  note si = repr_invD(1) [OF assms]
  have "?f p = replicate (length (queue_at s p ob)) (pkey s p)" for p
    using side_invD(6) [OF si, of _ s p] by (auto simp: ptr_ok_def map_replicate_const intro!: replicate_eqI)
  then have "concat (map ?f ps) = concat (map (\<lambda>p. replicate (length (queue_at s p ob)) (pkey s p)) ps)" for ps
    by simp
  moreover have "sorted (concat (map (\<lambda>p. replicate (g p) (pkey s p)) ps))"
    if "sorted_wrt (\<lambda>a b. pkey s a < pkey s b) ps" for g ps
    using that by (induction ps) (auto simp: sorted_append intro: order_less_imp_le)
  ultimately have "sorted (concat (map ?f ?ps))" using sorted_prio [OF side_invD(2) [OF si]] by metis
  then show ?thesis
    by (simp add: prio_sorted_def abs_side_def level_ptrs_def map_concat comp_def abs_order_def)
qed

lemma live_iff:
  assumes "repr_inv {} ob"
  shows "ob_live ob oid = Some x \<longleftrightarrow> (\<exists>s. x \<in> set (level_ptrs s ob)) \<and> ord_ID (ob_heap ob x) = oid"
proof
  assume "ob_live ob oid = Some x"
  then show "(\<exists>s. x \<in> set (level_ptrs s ob)) \<and> ord_ID (ob_heap ob x) = oid"
    using repr_invD(2) [OF assms] by (auto simp: live_inv_def set_level_ptrs [OF repr_invD(1) [OF assms]])
next
  assume "(\<exists>s. x \<in> set (level_ptrs s ob)) \<and> ord_ID (ob_heap ob x) = oid"
  then show "ob_live ob oid = Some x"
    using level_ptrs_ok(1) [OF repr_invD(1) [OF assms]] by (auto simp: ptr_ok_def)
qed

lemma level_ptrs_sides:
  assumes "repr_inv {} ob" "x \<in> set (level_ptrs s ob)"
  shows "s = ord_Side (ob_heap ob x)"
  using level_ptrs_ok(1) [OF repr_invD(1) [OF assms(1)] assms(2)] by (simp add: ptr_ok_def)

lemma set_ab_orders: "set (ab_orders (abs_book ob)) = {abs_order ob x |x s. x \<in> set (level_ptrs s ob)}"
proof -
  have u: "(UNIV :: Side set) = {Buy, Sell}" by (auto intro: Side.exhaust)
  have "set (ab_orders (abs_book ob)) = (\<Union>s. set (abs_side s ob))"
    unfolding u by (simp add: ab_orders_def)
  then show ?thesis by (auto simp: abs_side_def)
qed

lemma live_ids:
  assumes "repr_inv {} ob"
  shows "ob_live ob oid \<noteq> None \<longleftrightarrow> oid \<in> ord_ID ` set (ab_orders (abs_book ob))"
proof -
  have "ob_live ob oid \<noteq> None \<longleftrightarrow> (\<exists>x. ob_live ob oid = Some x)" by blast
  also have "\<dots> \<longleftrightarrow> (\<exists>x s. x \<in> set (level_ptrs s ob) \<and> ord_ID (abs_order ob x) = oid)"
    unfolding live_iff [OF assms] by (simp add: abs_order_def)
  also have "\<dots> \<longleftrightarrow> oid \<in> ord_ID ` set (ab_orders (abs_book ob))"
    unfolding set_ab_orders by blast
  finally show ?thesis .
qed

lemma abs_book_inv:
  assumes "book_inv ob"
  shows "abook_inv (abs_book ob)"
proof -
  have inv: "repr_inv {} ob" and un: "uncrossed (abs_side Buy ob) (abs_side Sell ob)"
    using assms by (auto simp: book_inv_def)
  let ?xs = "level_ptrs Buy ob @ level_ptrs Sell ob"
  have "distinct ?xs"
    using distinct_level_ptrs [OF inv] level_ptrs_sides [OF inv, of _ Buy]
      level_ptrs_sides [OF inv, of _ Sell] by fastforce
  moreover have "inj_on (\<lambda>x. ord_ID (ob_heap ob x)) (set ?xs)"
    using live_iff [OF inv] by (intro inj_onI) (metis Un_iff option.inject set_append)
  ultimately have "distinct (map (\<lambda>x. ord_ID (ob_heap ob x)) ?xs)" by (simp only: distinct_map)
  then have "distinct (map ord_ID (ab_orders (abs_book ob)))"
    by (simp add: ab_orders_def abs_side_def abs_order_def comp_def)
  with un show ?thesis
    using abs_order_wf [OF inv] abs_prio_sorted [OF inv] by (simp add: abook_inv_def)
qed

lemma repr_uncrossed_inv:
  assumes "repr_inv {} ob" "abook_inv (abs_book ob)"
  shows "book_inv ob"
  using assms by (simp add: book_inv_def abook_inv_def)

lemma spec_match_ids:
  assumes "spec_match t ab = (ts, r, ab')"
  shows "ord_ID ` set (ab_orders ab') \<subseteq> ord_ID ` set (ab_orders ab)"
proof -
  obtain ms where f: "fill t (ord_Remaining t) (ab_side (opposite (ord_Side t)) ab) = (ts, r, ms)"
    and ab': "ab' = ab_set_side (opposite (ord_Side t)) ms (ab\<lparr>ab_seq := ord_Seq t\<rparr>)"
    using spec_match_fill [OF assms] .
  have "ord_ID ` set ms \<subseteq> ord_ID ` set (ab_side (opposite (ord_Side t)) ab)"
    by (rule fill_set_attr [OF f]) simp
  then show ?thesis
    by (cases "ord_Side t") (auto simp: ab' ab_orders_def ab_set_side_def ab_side_def)
qed

lemma match_refines:
  assumes inv: "repr_inv {} ob" and un: "unqueued t ob" and tn: "t < ob_next ob"
    and r0: "0 \<le> ord_Remaining (ob_heap ob t)" "in_int64 (ord_Remaining (ob_heap ob t))"
    and f: "fill (ob_heap ob t) (ord_Remaining (ob_heap ob t))
      (abs_side (opposite (ord_Side (ob_heap ob t))) ob) = (ts, r, ms)"
  shows "\<exists>ob'. match t ob = Some (ob', ts) \<and> repr_inv {} ob' \<and> unqueued t ob' \<and> t < ob_next ob'
    \<and> ob_heap ob' t = (ob_heap ob t)\<lparr>ord_Remaining := r\<rparr>
    \<and> ob_seq ob' = ob_seq ob \<and> ob_Symbol ob' = ob_Symbol ob
    \<and> (\<forall>s. abs_side s ob' = (if s = opposite (ord_Side (ob_heap ob t)) then ms else abs_side s ob))"
proof -
  have "matching t ob" using assms by (simp add: matching_def)
  from match_loop_fill [OF this f, of "[]"] show ?thesis
    by (auto simp: match_def matching_def)
qed

text \<open>
  The common part of the two placing operations: allocating the taker and matching it
  computes \<open>spec_match\<close> on the abstraction.
\<close>

lemma place_match:
  assumes inv: "book_inv ob" and al: "alloc_order oid side price qty ob = (t, ob0)"
    and q: "0 < qty" "in_int64 qty"
    and sm: "spec_match (spec_taker oid side price qty (abs_book ob)) (abs_book ob) = (ts, r, ab')"
  shows "\<exists>ob'. match t ob0 = Some (ob', ts) \<and> repr_inv {} ob' \<and> unqueued t ob' \<and> t < ob_next ob'
    \<and> ob_heap ob' t = (spec_taker oid side price qty (abs_book ob))\<lparr>ord_Remaining := r\<rparr>
    \<and> abs_book ob' = ab'"
proof -
  let ?t = "spec_taker oid side price qty (abs_book ob)"
  have ri: "repr_inv {} ob" using inv by (simp add: book_inv_def)
  note a = alloc_order_inv [OF ri al]
  have h: "ob_heap ob0 t = ?t" using a(7) by (simp add: spec_taker_def)
  have ht: "ord_Remaining ?t = qty" "ord_Side ?t = side" "ord_Seq ?t = ob_seq ob0"
    using a(8) by (simp_all add: spec_taker_def)
  obtain ms where f: "fill ?t qty (abs_side (opposite side) ob) = (ts, r, ms)"
    and ab': "ab' = ab_set_side (opposite side) ms ((abs_book ob)\<lparr>ab_seq := ord_Seq ?t\<rparr>)"
    using spec_match_fill [OF sm] ht by (metis abs_book_sel(1))
  have f': "fill (ob_heap ob0 t) (ord_Remaining (ob_heap ob0 t))
      (abs_side (opposite (ord_Side (ob_heap ob0 t))) ob0) = (ts, r, ms)"
    using f by (simp add: h ht a(5))
  have "0 \<le> ord_Remaining (ob_heap ob0 t)" "in_int64 (ord_Remaining (ob_heap ob0 t))"
    using q by (simp_all add: h ht)
  from match_refines [OF a(1-3) this f'] obtain ob' where
    m: "match t ob0 = Some (ob', ts)" "repr_inv {} ob'" "unqueued t ob'" "t < ob_next ob'"
      "ob_heap ob' t = ?t\<lparr>ord_Remaining := r\<rparr>" "ob_seq ob' = ob_seq ob0" "ob_Symbol ob' = ob_Symbol ob0"
      "\<And>s. abs_side s ob' = (if s = opposite side then ms else abs_side s ob)"
    by (auto simp: h ht a(5))
  have "abs_book ob' = ab'"
  proof (rule abook_eqI)
    show "ab_side s (abs_book ob') = ab_side s ab'" for s
      using m(8) by (cases "s = opposite side") (simp_all add: ab')
  qed (use m(6,7) ht(3) a(9) in \<open>simp_all add: ab'\<close>)
  with m show ?thesis by blast
qed

theorem PlaceMarket_refines:
  assumes inv: "book_inv ob" and q: "in_int64 qty"
  shows "\<exists>ob' res. PlaceMarket oid side qty ob = Some (ob', res) \<and> book_inv ob'
    \<and> (abs_book ob', res) = spec_PlaceMarket oid side qty (abs_book ob)"
proof (cases "qty \<le> 0 \<or> ob_live ob oid \<noteq> None")
  case True
  have "repr_inv {} ob" using inv by (simp add: book_inv_def)
  from live_ids [OF this, of oid] True inv show ?thesis
    by (auto simp: PlaceMarket_def spec_PlaceMarket_def)
next
  case False
  have ri: "repr_inv {} ob" using inv by (simp add: book_inv_def)
  obtain t ob0 where al: "alloc_order oid side 0 qty ob = (t, ob0)" by fastforce
  obtain ts r ab' where sm: "spec_match (spec_taker oid side 0 qty (abs_book ob)) (abs_book ob) = (ts, r, ab')"
    by (metis prod_cases3)
  from place_match [OF inv al _ q sm] False obtain ob' where
    m: "match t ob0 = Some (ob', ts)" "repr_inv {} ob'" "abs_book ob' = ab'" by auto
  have "abook_inv (abs_book ob')"
    using spec_match_inv [OF abs_book_inv [OF inv] sm] m(3) by simp
  with m False al sm live_ids [OF ri, of oid] show ?thesis
    by (auto simp: PlaceMarket_def spec_PlaceMarket_def intro: repr_uncrossed_inv)
qed

theorem PlaceLimit_refines:
  assumes inv: "book_inv ob" and pq: "in_int64 price" "in_int64 qty"
  shows "\<exists>ob' res. PlaceLimit oid side price qty ob = Some (ob', res) \<and> book_inv ob'
    \<and> (abs_book ob', res) = spec_PlaceLimit oid side price qty (abs_book ob)"
proof (cases "price \<le> 0 \<or> qty \<le> 0 \<or> ob_live ob oid \<noteq> None")
  case True
  have "repr_inv {} ob" using inv by (simp add: book_inv_def)
  from live_ids [OF this, of oid] True inv show ?thesis
    by (auto simp: PlaceLimit_def spec_PlaceLimit_def)
next
  case False
  then have pos: "0 < price" "0 < qty" "ob_live ob oid = None" by auto
  have ri: "repr_inv {} ob" using inv by (simp add: book_inv_def)
  then have nid: "oid \<notin> ord_ID ` set (ab_orders (abs_book ob))" using pos(3) live_ids by blast
  let ?t = "spec_taker oid side price qty (abs_book ob)"
  obtain t ob0 where al: "alloc_order oid side price qty ob = (t, ob0)" by fastforce
  obtain ts r ab' where sm: "spec_match ?t (abs_book ob) = (ts, r, ab')" by (metis prod_cases3)
  from place_match [OF inv al pos(2) pq(2) sm] obtain ob' where
    m: "match t ob0 = Some (ob', ts)" "repr_inv {} ob'" "unqueued t ob'" "t < ob_next ob'"
      "ob_heap ob' t = ?t\<lparr>ord_Remaining := r\<rparr>" "abs_book ob' = ab'" by auto
  have ai: "abook_inv (fst (spec_PlaceLimit oid side price qty (abs_book ob)))"
    by (rule spec_PlaceLimit_inv [OF abs_book_inv [OF inv] pq])
  show ?thesis
  proof (cases "0 < r")
    case False
    then have sp: "spec_PlaceLimit oid side price qty (abs_book ob) = (ab', Inr ts)"
      using pos nid sm by (simp add: spec_PlaceLimit_def)
    with ai m have "book_inv ob'" by (intro repr_uncrossed_inv) auto
    with sp m al pos False show ?thesis by (simp add: PlaceLimit_def)
  next
    case True
    let ?x = "?t\<lparr>ord_Remaining := r\<rparr>"
    have sp: "spec_PlaceLimit oid side price qty (abs_book ob)
        = (ab_set_side side (enqueue ?x (ab_side side ab')) ab', Inr ts)"
      using pos nid sm True by (simp add: spec_PlaceLimit_def)
    have xs: "ord_Side ?x = side" "ord_Price ?x = price" "ord_Quantity ?x = qty" "ord_Remaining ?x = r"
      "ord_ID ?x = oid" "abs_order ob' t = ?x"
      using m(5) by (simp_all add: spec_taker_def abs_order_def order_copy_def)
    have "?x \<in> set (ab_side side (fst (spec_PlaceLimit oid side price qty (abs_book ob))))"
      by (simp add: sp)
    then have wfx: "order_wf side ?x" using ai by (auto simp: abook_inv_def)
    have "oid \<notin> ord_ID ` set (ab_orders ab')"
      using spec_match_ids [OF sm] nid by blast
    then have "ob_live ob' oid = None" using live_ids [OF m(2), of oid] m(6) by simp
    with wfx have ri': "repr_inv {} (rest t ob')"
      by (intro rest_inv [OF m(2-4)]) (simp_all add: m(5) xs order_wf_def)
    have "abs_book (rest t ob') = ab_set_side side (enqueue ?x (ab_side side ab')) ab'"
    proof (rule abook_eqI)
      show "ab_side s (abs_book (rest t ob')) = ab_side s (ab_set_side side (enqueue ?x (ab_side side ab')) ab')" for s
        using rest_abs [OF m(2-4), of s] m(6) xs
        by (cases "s = side") (auto simp: m(5))
    qed (use rest_effect(4,5) [OF m(2-4) refl] m(6) in auto)
    with sp ai ri' m al pos True show ?thesis
      by (auto simp: PlaceLimit_def intro: repr_uncrossed_inv)
  qed
qed

text \<open>Looking an order up and cancelling it.\<close>

lemma find_distinct_key:
  assumes "x \<in> set xs" "inj_on f (set xs)" "f x = k"
  shows "find (\<lambda>y. f y = k) xs = Some x"
proof -
  have "\<exists>y. find (\<lambda>y. f y = k) xs = Some y" using assms(1,3) by (induction xs) auto
  then obtain y where y: "find (\<lambda>y. f y = k) xs = Some y" ..
  then have "y \<in> set xs" "f y = k" by (auto simp: find_Some_iff)
  with assms y show ?thesis by (metis inj_onD)
qed

lemma Order_lookup_refines:
  assumes "book_inv ob"
  shows "Order_lookup oid ob = spec_lookup oid (abs_book ob)"
proof (cases "ob_live ob oid")
  case None
  then have "oid \<notin> ord_ID ` set (ab_orders (abs_book ob))"
    using live_ids [of ob oid] assms by (auto simp: book_inv_def)
  then have "spec_lookup oid (abs_book ob) = None"
    by (auto simp: spec_lookup_def find_None_iff)
  with None show ?thesis by (simp add: Order_lookup_def)
next
  case (Some x)
  have ri: "repr_inv {} ob" using assms by (simp add: book_inv_def)
  have "abs_order ob x \<in> set (ab_orders (abs_book ob))" "ord_ID (abs_order ob x) = oid"
    using Some unfolding live_iff [OF ri] set_ab_orders by (auto simp: abs_order_def)
  moreover have "inj_on ord_ID (set (ab_orders (abs_book ob)))"
    using abs_book_inv [OF assms] by (simp add: abook_inv_def distinct_map)
  ultimately have "spec_lookup oid (abs_book ob) = Some (abs_order ob x)"
    unfolding spec_lookup_def by (intro find_distinct_key)
  with Some show ?thesis by (simp add: Order_lookup_def abs_order_def)
qed

lemma repr_inv_mono: "repr_inv X ob \<Longrightarrow> X \<subseteq> Y \<Longrightarrow> repr_inv Y ob"
  unfolding repr_inv_def side_inv_def ptr_ok_def by blast

theorem Cancel_refines:
  assumes inv: "book_inv ob"
  shows "\<exists>ob' res. Cancel oid ob = Some (ob', res) \<and> book_inv ob'
    \<and> (abs_book ob', res) = spec_Cancel oid (abs_book ob)"
proof (cases "ob_live ob oid")
  case None
  with Order_lookup_refines [OF inv, of oid] inv show ?thesis
    by (auto simp: Cancel_def spec_Cancel_def Order_lookup_def)
next
  case (Some x)
  have ri: "repr_inv {} ob" using inv by (simp add: book_inv_def)
  have lk: "spec_lookup oid (abs_book ob) = Some (abs_order ob x)"
    using Order_lookup_refines [OF inv, of oid] Some by (simp add: Order_lookup_def abs_order_def)
  obtain s where xs: "x \<in> set (level_ptrs s ob)" and idx: "ord_ID (ob_heap ob x) = oid"
    using Some live_iff [OF ri] by blast
  note ok = level_ptrs_ok [OF repr_invD(1) [OF ri] xs]
  have sx: "ord_side (ob_heap ob x) = Some s" using ok(1) by (simp add: ptr_ok_def)
  from remove_order [OF repr_inv_mono [OF ri] ok(2) idx [symmetric]] obtain ob1 where
    r: "side_remove s x ob = Some ob1"
      "ob_heap ob1 = (ob_heap ob)(x := (ob_heap ob x)\<lparr>ord_elem := None\<rparr>)"
      "ob_live ob1 = ob_live ob" "ob_seq ob1 = ob_seq ob" "ob_Symbol ob1 = ob_Symbol ob"
      "repr_inv {} (ob1\<lparr>ob_live := (ob_live ob)(oid := None)\<rparr>)"
      "\<And>s'. abs_side s' ob1 = map (abs_order ob) (filter (\<lambda>y. y \<noteq> x) (level_ptrs s' ob))"
    by auto
  let ?ob' = "ob1\<lparr>ob_live := (ob_live ob1)(oid := None)\<rparr>"
  have same: "ord_ID (ob_heap ob y) = oid \<longleftrightarrow> y = x" if "y \<in> set (level_ptrs s' ob)" for y s'
    using that live_iff [OF ri, of oid] Some idx xs by (metis option.inject)
  have side: "abs_side s' ?ob' = drop_id oid (abs_side s' ob)" for s'
    using same [of _ s'] unfolding abs_live_upd r(7)
    by (simp add: abs_side_def drop_id_def filter_map comp_def abs_order_def cong: filter_cong)
  have C: "Cancel oid ob = Some (?ob', Inr (abs_order ob x))"
    using Some sx r(1,2) by (simp add: Cancel_def abs_order_def order_copy_def)
  have sp: "(abs_book ?ob', Inr (abs_order ob x)) = spec_Cancel oid (abs_book ob)"
    using lk side r(4,5) by (simp add: spec_Cancel_def abs_book_def)
  have "abook_inv (abs_book ?ob')"
    using spec_Cancel_inv [OF abs_book_inv [OF inv], of oid] by (simp flip: sp)
  then have "book_inv ?ob'" using r(3,6) by (intro repr_uncrossed_inv) simp_all
  with C sp show ?thesis by blast
qed

theorem New_book_inv: "book_inv (New_book symbol) \<and> abs_book (New_book symbol) = \<lparr>ab_Symbol = symbol, ab_bids = [], ab_asks = [], ab_seq = 0\<rparr>"
proof -
  have g: "get_side s (New_book symbol) = newBookSide s" for s
    by (cases s) (simp_all add: get_side_def New_book_def)
  have q: "queue_at s p (New_book symbol) = []" for s p
    by (simp add: queue_at_def g newBookSide_def)
  have l: "level_ptrs s (New_book symbol) = []" for s
    by (simp add: level_ptrs_def g newBookSide_def)
  have "repr_inv {} (New_book symbol)"
    unfolding repr_inv_def side_inv_def g q by (simp add: newBookSide_def live_inv_def New_book_def)
  then show ?thesis
    by (simp add: book_inv_def uncrossed_def abs_side_def l abs_book_def) (simp add: New_book_def)
qed

lemma best_refines:
  assumes "book_inv ob"
  shows "best (get_side s ob) = map_option ord_Price (case abs_side s ob of [] \<Rightarrow> None | x # _ \<Rightarrow> Some x)"
proof -
  have si: "side_inv {} s ob" using assms by (simp add: book_inv_def repr_invD)
  show ?thesis
    using best_first [OF si] by (cases "level_ptrs s ob") (auto simp: abs_side_def abs_order_def)
qed

section \<open>Depth\<close>

text \<open>The rows of a side: one per distinct price, best first, with the quantity resting there.\<close>

definition spec_rows :: "Order list \<Rightarrow> PriceLevel list" where
  "spec_rows xs = map (\<lambda>p. \<lparr>pl_Price = p,
     pl_Quantity = wrap64 (resting_qty (filter (\<lambda>x. ord_Price x = p) xs))\<rparr>)
     (remdups_adj (map ord_Price xs))"

definition cut_rows :: "int \<Rightarrow> 'a list \<Rightarrow> 'a list" where
  "cut_rows maxLevels xs = (if maxLevels > 0 then take (nat maxLevels) xs else xs)"

definition spec_Depth :: "int \<Rightarrow> abook \<Rightarrow> PriceLevel list \<times> PriceLevel list" where
  "spec_Depth n ab = (cut_rows n (spec_rows (ab_bids ab)), cut_rows n (spec_rows (ab_asks ab)))"

lemma level_qty_wrap: "level_qty h q = wrap64 (\<Sum>x \<leftarrow> q. ord_Remaining (h x))"
proof -
  have "foldl (\<lambda>qty e. i64_add qty (ord_Remaining (h e))) a q = wrap64 (a + (\<Sum>x \<leftarrow> q. ord_Remaining (h x)))"
    if "in_int64 a" for a
    using that
    by (induction q arbitrary: a) (simp_all add: i64_defs wrap64_add_left add.assoc)
  from this [of 0] show ?thesis by (simp add: level_qty_def in_int64_def)
qed

lemma remdups_adj_concat:
  assumes "sorted_wrt (\<lambda>a b. pkey s a < pkey s b) ps" "\<forall>p \<in> set ps. 0 < n p"
  shows "remdups_adj (concat (map (\<lambda>p. replicate (n p) p) ps)) = ps"
  using assms
proof (induction ps)
  case (Cons p ps)
  then have ih: "remdups_adj (concat (map (\<lambda>p. replicate (n p) p) ps)) = ps" (is "remdups_adj ?c = _") by simp
  obtain k where k: "n p = Suc k" using Cons.prems(2) by (auto simp: gr0_conv_Suc)
  have "remdups_adj (replicate k p @ ?c) = (if k = 0 then ps else p # ps)" for k
  proof (induction k)
    case (Suc k)
    have "p \<notin> set ?c" using Cons.prems(1) by auto
    then have "?c = [] \<or> hd ?c \<noteq> p" by (metis hd_in_set)
    with Suc ih show ?case
      by (cases k; cases ?c) auto
  qed (simp add: ih)
  from this [of "Suc k"] show ?case by (simp add: k)
qed simp

lemma level_prices:
  assumes "repr_inv {} ob"
  shows "remdups_adj (map ord_Price (abs_side s ob)) = prio s (bs_prices (get_side s ob))"
    "p \<in> set (bs_prices (get_side s ob)) \<Longrightarrow>
       resting_qty (filter (\<lambda>x. ord_Price x = p) (abs_side s ob)) = (\<Sum>x \<leftarrow> queue_at s p ob. ord_Remaining (ob_heap ob x))"
proof -
  let ?ps = "prio s (bs_prices (get_side s ob))"
  note si = repr_invD(1) [OF assms]
  have srt: "sorted_wrt (\<lambda>a b. pkey s a < pkey s b) ?ps" by (rule sorted_prio [OF side_invD(2) [OF si]])
  have pr: "ord_Price (ob_heap ob x) = p" if "x \<in> set (queue_at s p ob)" for x p
    using side_invD(6) [OF si that] by (simp add: ptr_ok_def)
  have "map (\<lambda>x. ord_Price (ob_heap ob x)) (queue_at s p ob) = replicate (length (queue_at s p ob)) p" for p
    using pr by (auto simp: intro!: replicate_eqI)
  then have "map ord_Price (abs_side s ob) = concat (map (\<lambda>p. replicate (length (queue_at s p ob)) p) ?ps)"
    by (simp add: abs_side_def level_ptrs_def map_concat comp_def abs_order_def)
  then show "remdups_adj (map ord_Price (abs_side s ob)) = ?ps"
    using remdups_adj_concat [OF srt] side_invD(4) [OF si] by simp
  assume p: "p \<in> set (bs_prices (get_side s ob))"
  have "filter (\<lambda>x. ord_Price (ob_heap ob x) = p) (concat (map (\<lambda>p. queue_at s p ob) ps))
      = (if p \<in> set ps then queue_at s p ob else [])" if "distinct ps" for ps
    using that
  proof (induction ps)
    case (Cons a ps)
    moreover have "filter (\<lambda>x. ord_Price (ob_heap ob x) = p) (queue_at s a ob) = (if a = p then queue_at s p ob else [])"
      using pr by (auto simp: filter_empty_conv intro!: filter_True)
    ultimately show ?case by auto
  qed simp
  moreover have "distinct ?ps"
    using side_invD(2) [OF si, of s] by (cases s) (simp_all add: prio_def strict_sorted_iff)
  ultimately show "resting_qty (filter (\<lambda>x. ord_Price x = p) (abs_side s ob)) = (\<Sum>x \<leftarrow> queue_at s p ob. ord_Remaining (ob_heap ob x))"
    using p by (simp add: resting_qty_def abs_side_def level_ptrs_def filter_map comp_def abs_order_def)
qed

lemma depth_rows_prio:
  assumes "side_inv X s ob" "i + n \<le> length (bs_prices (get_side s ob))"
  shows "depth_rows h (get_side s ob) i n =
    Some (map (\<lambda>p. \<lparr>pl_Price = p, pl_Quantity = level_qty h (queue_at s p ob)\<rparr>)
      (take n (drop i (prio s (bs_prices (get_side s ob))))))"
  using assms(2)
proof (induction n arbitrary: i)
  case (Suc n)
  let ?b = "get_side s ob"
  let ?p = "prio s (bs_prices ?b) ! i"
  have lp: "length (prio s (bs_prices ?b)) = length (bs_prices ?b)" by (cases s) (simp_all add: prio_def)
  have i: "i < length (prio s (bs_prices ?b))" using Suc.prems lp by simp
  have p: "(if bs_side ?b = Buy then bs_prices ?b ! (length (bs_prices ?b) - 1 - i) else bs_prices ?b ! i) = ?p"
    using side_invD(1) [OF assms(1)] Suc.prems by (cases s) (simp_all add: prio_def rev_nth)
  have "?p \<in> set (bs_prices ?b)" using nth_mem [OF i] by simp
  then obtain q where "bs_levels ?b ?p = Some q" using assms(1) by (auto simp: side_inv_def)
  moreover then have "queue_at s ?p ob = q" by (simp add: queue_at_def)
  ultimately show ?case
    using Suc.IH [of "Suc i"] Suc.prems i by (simp add: p Let_def Cons_nth_drop_Suc [symmetric])
qed simp

lemma bs_depth_refines:
  assumes "repr_inv {} ob"
  shows "bs_depth (ob_heap ob) maxLevels (get_side s ob) = Some (cut_rows maxLevels (spec_rows (abs_side s ob)))"
proof -
  let ?ps = "bs_prices (get_side s ob)"
  note si = repr_invD(1) [OF assms]
  have rows: "spec_rows (abs_side s ob)
      = map (\<lambda>p. \<lparr>pl_Price = p, pl_Quantity = level_qty (ob_heap ob) (queue_at s p ob)\<rparr>) (prio s ?ps)"
    unfolding spec_rows_def level_prices(1) [OF assms]
    using level_prices(2) [OF assms] by (auto simp: level_qty_wrap)
  have len: "length (prio s ?ps) = length ?ps" by (cases s) (simp_all add: prio_def)
  show ?thesis
    unfolding bs_depth_def Let_def rows cut_rows_def
    by (subst depth_rows_prio [OF si]) (auto simp: take_map len)
qed

theorem Depth_refines:
  assumes "book_inv ob"
  shows "Depth_book maxLevels ob = Some (spec_Depth maxLevels (abs_book ob))"
proof -
  have ri: "repr_inv {} ob" using assms by (simp add: book_inv_def)
  have "ob_bids ob = get_side Buy ob" "ob_asks ob = get_side Sell ob" by (simp_all add: get_side_def)
  then show ?thesis
    by (simp only: Depth_book_def bs_depth_refines [OF ri]) (simp add: spec_Depth_def)
qed

end
