(* ===== verification/BookContract.thy ===== *)
theory BookContract
  imports BookOps
begin

text \<open>
  What the users of an order book may rely on, as a contract on the lookup of resting orders
  by id (the locale \<open>book_contract\<close>), the proof that the order book of \<open>OrderBook\<close>
  fulfils it, runs of whole operation sequences, and the properties of the order book.
\<close>

section \<open>The effect of matching on a lookup\<close>

definition filled :: "string \<Rightarrow> Trade list \<Rightarrow> int" where
  "filled k ts = (\<Sum>t \<leftarrow> ts. if tr_MakerOrderID t = k then tr_Quantity t else 0)"

definition after_fill :: "int \<Rightarrow> Order option \<Rightarrow> Order option" where
  "after_fill q x = (case x of None \<Rightarrow> None
     | Some m \<Rightarrow> if ord_Remaining m = q then None
                 else Some (m\<lparr>ord_Remaining := ord_Remaining m - q\<rparr>))"

lemma filled_simps [simp]:
  "filled k [] = 0"
  "filled k (t # ts) = (if tr_MakerOrderID t = k then tr_Quantity t else 0) + filled k ts"
  by (simp_all add: filled_def)

lemma after_fill_simps [simp]:
  "after_fill q None = None"
  "after_fill q (Some m) = (if ord_Remaining m = q then None
     else Some (m\<lparr>ord_Remaining := ord_Remaining m - q\<rparr>))"
  by (simp_all add: after_fill_def)

lemma filled_other: "k \<notin> tr_MakerOrderID ` set ts \<Longrightarrow> filled k ts = 0"
  by (induction ts) auto

abbreviation find_id :: "string \<Rightarrow> Order list \<Rightarrow> Order option" where
  "find_id k xs \<equiv> find (\<lambda>x. ord_ID x = k) xs"

lemma find_id_None: "find_id k xs = None \<longleftrightarrow> k \<notin> ord_ID ` set xs"
  by (auto simp: find_None_iff)

lemma find_id_SomeD: "find_id k xs = Some x \<Longrightarrow> x \<in> set xs \<and> ord_ID x = k"
  by (auto simp: find_Some_iff)

lemma find_id_unfilled:
  "(\<And>x. x \<in> set xs \<Longrightarrow> 0 < ord_Remaining x) \<Longrightarrow> after_fill 0 (find_id k xs) = find_id k xs"
  by (cases "find_id k xs") (fastforce dest: find_id_SomeD simp: after_fill_def)+

lemma find_id_append:
  "find_id k (xs @ ys) = (case find_id k xs of None \<Rightarrow> find_id k ys | Some x \<Rightarrow> Some x)"
  by (induction xs) auto

lemma fill_makers:
  assumes "fill t r ms = (ts, r', ms')"
  shows "tr_MakerOrderID ` set ts \<subseteq> ord_ID ` set ms"
    and "distinct (map ord_ID ms) \<Longrightarrow> distinct (map tr_MakerOrderID ts)"
proof -
  from fill_prefix [OF assms] obtain dn rs where p: "ms = dn @ rs"
    "map tr_MakerOrderID ts = map ord_ID dn \<or>
     (\<exists>m tl. rs = m # tl \<and> map tr_MakerOrderID ts = map ord_ID dn @ [ord_ID m])"
    by (auto simp: comp_def)
  have "set (map tr_MakerOrderID ts) \<subseteq> set (map ord_ID ms)"
    using p by (elim disjE exE conjE; simp only: set_append map_append) auto
  then show "tr_MakerOrderID ` set ts \<subseteq> ord_ID ` set ms" by simp
  show "distinct (map ord_ID ms) \<Longrightarrow> distinct (map tr_MakerOrderID ts)" using p by auto
qed

lemma fill_lookup:
  assumes "fill t r ms = (ts, r', ms')" "distinct (map ord_ID ms)" "\<forall>m \<in> set ms. 0 < ord_Remaining m"
  shows "find_id k ms' = after_fill (filled k ts) (find_id k ms)"
  using assms
proof (induction t r ms arbitrary: ts r' ms' rule: fill.induct)
  case (2 t r m ms)
  have same: "find_id k ms = after_fill 0 (find_id k ms)"
    using "2.prems"(3) by (intro find_id_unfilled [symmetric]) simp
  consider (stop) "r \<le> 0 \<or> \<not> crosses t (ord_Price m)"
    | (full) "\<not> (r \<le> 0 \<or> \<not> crosses t (ord_Price m))" "ord_Remaining m \<le> r"
    | (part) "\<not> (r \<le> 0 \<or> \<not> crosses t (ord_Price m))" "\<not> ord_Remaining m \<le> r"
    by blast
  then show ?case
  proof cases
    case stop
    with "2.prems" same show ?thesis by auto
  next
    case full
    then obtain ts1 where f: "fill t (r - ord_Remaining m) ms = (ts1, r', ms')"
      and ts: "ts = mk_trade t m (ord_Remaining m) # ts1"
      using "2.prems" by (auto split: prod.splits)
    have ih: "find_id k ms' = after_fill (filled k ts1) (find_id k ms)"
      using "2.IH" [OF full f] "2.prems" by simp
    show ?thesis
    proof (cases "ord_ID m = k")
      case True
      then have "k \<notin> ord_ID ` set ms" using "2.prems"(2) by auto
      moreover from this have "filled k ts1 = 0" using fill_makers(1) [OF f] by (intro filled_other) blast
      ultimately show ?thesis using ih True by (simp add: ts find_id_None [THEN iffD2])
    qed (simp add: ts ih)
  next
    case part
    with "2.prems" same show ?thesis by auto
  qed
qed simp

lemma find_id_enqueue:
  "ord_ID x \<notin> ord_ID ` set ms \<Longrightarrow> find_id k (enqueue x ms) = (if k = ord_ID x then Some x else find_id k ms)"
  by (induction ms) auto

lemma spec_lookup_sides:
  assumes "distinct (map ord_ID (ab_orders ab))"
  shows "spec_lookup k ab = (case find_id k (ab_side s ab) of
     None \<Rightarrow> find_id k (ab_side (opposite s) ab) | Some x \<Rightarrow> Some x)"
proof -
  have "find_id k (ab_bids ab) = None \<or> find_id k (ab_asks ab) = None"
    using assms by (auto simp: ab_orders_def find_id_None)
  then show ?thesis
    by (cases s; cases "find_id k (ab_bids ab)"; cases "find_id k (ab_asks ab)")
      (auto simp: spec_lookup_def ab_orders_def find_id_append ab_side_def)
qed

lemma abook_invD:
  assumes "abook_inv ab"
  shows "x \<in> set (ab_side s ab) \<Longrightarrow> order_wf s x" "prio_sorted s (ab_side s ab)"
    "distinct (map ord_ID (ab_orders ab))" "distinct (map ord_ID (ab_side s ab))"
    "uncrossed (ab_bids ab) (ab_asks ab)"
  using assms by (auto simp: abook_inv_def ab_orders_def ab_side_def split: Side.split)

lemma spec_match_lookup:
  assumes inv: "abook_inv ab" and m: "spec_match t ab = (ts, r, ab')"
  shows "spec_lookup k ab' = after_fill (filled k ts) (spec_lookup k ab)"
proof -
  let ?o = "opposite (ord_Side t)"
  obtain ms where f: "fill t (ord_Remaining t) (ab_side ?o ab) = (ts, r, ms)"
    and ab': "ab' = ab_set_side ?o ms (ab\<lparr>ab_seq := ord_Seq t\<rparr>)"
    using spec_match_fill [OF m] .
  have lk: "find_id k ms = after_fill (filled k ts) (find_id k (ab_side ?o ab))"
    using abook_invD [OF inv] by (intro fill_lookup [OF f]) (auto simp: order_wf_def)
  have oo: "opposite ?o = ord_Side t" by (cases "ord_Side t") simp_all
  note s1 = spec_lookup_sides [OF abook_invD(3) [OF inv], of k ?o]
  note s2 = spec_lookup_sides [OF abook_invD(3) [OF spec_match_inv [OF inv m]], of k ?o]
  show ?thesis
  proof (cases "find_id k (ab_side ?o ab)")
    case None
    then have z: "filled k ts = 0"
      using fill_makers(1) [OF f] by (intro filled_other) (auto simp: find_id_None)
    have "find_id k (ab_side (ord_Side t) ab) = after_fill 0 (find_id k (ab_side (ord_Side t) ab))"
      using abook_invD(1) [OF inv, of _ "ord_Side t"]
      by (intro find_id_unfilled [symmetric]) (simp add: order_wf_def)
    with None lk z show ?thesis unfolding s1 s2 oo by (simp add: ab')
  next
    case (Some x)
    have "find_id k (ab_side (ord_Side t) ab) = None"
      using Some abook_invD(3) [OF inv]
      by (cases "ord_Side t") (auto simp: find_id_None ab_orders_def ab_side_def dest!: find_id_SomeD)
    with Some lk show ?thesis unfolding s1 s2 oo by (simp add: ab')
  qed
qed

section \<open>The contract of an order book\<close>

text \<open>
  A trade of the taker \<open>oid\<close>: it is against a resting order of the other side, at that
  order's price, for at most what is left of it, and inside the taker's limit (a market order
  has limit 0).
\<close>

definition trade_ok :: "string \<Rightarrow> Side \<Rightarrow> int64 \<Rightarrow> (string \<Rightarrow> Order option) \<Rightarrow> Trade \<Rightarrow> bool" where
  "trade_ok oid side limit lk tr \<longleftrightarrow> tr_TakerOrderID tr = oid \<and> 0 < tr_Quantity tr \<and> 0 < tr_Price tr
     \<and> (limit \<noteq> 0 \<longrightarrow> (if side = Buy then tr_Price tr \<le> limit else limit \<le> tr_Price tr))
     \<and> (case lk (tr_MakerOrderID tr) of None \<Rightarrow> False
        | Some m \<Rightarrow> ord_Side m = opposite side \<and> ord_Price m = tr_Price tr
            \<and> tr_Quantity tr \<le> ord_Remaining m)"

definition rested :: "string \<Rightarrow> Side \<Rightarrow> int64 \<Rightarrow> int64 \<Rightarrow> int \<Rightarrow> Order \<Rightarrow> bool" where
  "rested oid side price qty rm x \<longleftrightarrow> ord_ID x = oid \<and> ord_Side x = side \<and> ord_Price x = price
     \<and> ord_Quantity x = qty \<and> ord_Remaining x = rm"

text \<open>
  What a placed order does to the resting orders: \<open>lk\<close> and \<open>lk'\<close> are the lookup
  before and after, \<open>ts\<close> the trades returned, \<open>limit\<close> the price (0 for a market order,
  which never rests).
\<close>

definition placed :: "string \<Rightarrow> Side \<Rightarrow> int64 \<Rightarrow> int64 \<Rightarrow> (string \<Rightarrow> Order option) \<Rightarrow>
    (string \<Rightarrow> Order option) \<Rightarrow> Trade list \<Rightarrow> bool" where
  "placed oid side limit qty lk lk' ts \<longleftrightarrow> 0 < qty \<and> lk oid = None
     \<and> (\<forall>tr \<in> set ts. trade_ok oid side limit lk tr) \<and> distinct (map tr_MakerOrderID ts)
     \<and> traded ts \<le> qty
     \<and> (\<forall>k. k \<noteq> oid \<longrightarrow> lk' k = after_fill (filled k ts) (lk k))
     \<and> (if limit \<noteq> 0 \<and> traded ts < qty
        then \<exists>x. lk' oid = Some x \<and> rested oid side limit qty (qty - traded ts) x else lk' oid = None)"

locale book_contract =
  fixes binv :: "'b \<Rightarrow> bool"
    and look :: "string \<Rightarrow> 'b \<Rightarrow> Order option"
    and limit :: "string \<Rightarrow> Side \<Rightarrow> int64 \<Rightarrow> int64 \<Rightarrow> 'b \<Rightarrow> ('b \<times> (ob_error + Trade list)) option"
    and market :: "string \<Rightarrow> Side \<Rightarrow> int64 \<Rightarrow> 'b \<Rightarrow> ('b \<times> (ob_error + Trade list)) option"
    and cancel :: "string \<Rightarrow> 'b \<Rightarrow> ('b \<times> (ob_error + Order)) option"
  assumes look_wf: "binv b \<Longrightarrow> look k b = Some x \<Longrightarrow> ord_ID x = k \<and> order_wf (ord_Side x) x"
    and limit_total: "binv b \<Longrightarrow> in_int64 p \<Longrightarrow> in_int64 q \<Longrightarrow>
      \<exists>b' res. limit oid s p q b = Some (b', res) \<and> binv b'"
    and limit_err: "binv b \<Longrightarrow> limit oid s p q b = Some (b', Inl e) \<Longrightarrow> b' = b"
    and limit_ok: "binv b \<Longrightarrow> in_int64 p \<Longrightarrow> in_int64 q \<Longrightarrow> limit oid s p q b = Some (b', Inr ts) \<Longrightarrow>
      0 < p \<and> placed oid s p q (\<lambda>k. look k b) (\<lambda>k. look k b') ts"
    and market_total: "binv b \<Longrightarrow> in_int64 q \<Longrightarrow>
      \<exists>b' res. market oid s q b = Some (b', res) \<and> binv b'"
    and market_err: "binv b \<Longrightarrow> market oid s q b = Some (b', Inl e) \<Longrightarrow> b' = b"
    and market_ok: "binv b \<Longrightarrow> in_int64 q \<Longrightarrow> market oid s q b = Some (b', Inr ts) \<Longrightarrow>
      placed oid s 0 q (\<lambda>k. look k b) (\<lambda>k. look k b') ts"
    and cancel_total: "binv b \<Longrightarrow> \<exists>b' res. cancel oid b = Some (b', res) \<and> binv b'"
    and cancel_err: "binv b \<Longrightarrow> cancel oid b = Some (b', Inl e) \<Longrightarrow>
      b' = b \<and> e = ErrNotFound \<and> look oid b = None"
    and cancel_ok: "binv b \<Longrightarrow> cancel oid b = Some (b', Inr x) \<Longrightarrow>
      look oid b = Some x \<and> (\<forall>k. look k b' = (if k = oid then None else look k b))"
begin

lemma limit_inv:
  assumes "binv b" "in_int64 p" "in_int64 q" "limit oid s p q b = Some (b', res)"
  shows "binv b'"
  using limit_total [OF assms(1-3), of oid s] assms(4) by auto

lemma market_inv: "binv b \<Longrightarrow> in_int64 q \<Longrightarrow> market oid s q b = Some (b', res) \<Longrightarrow> binv b'"
  using market_total [of b q oid s] by auto

lemma cancel_inv: "binv b \<Longrightarrow> cancel oid b = Some (b', res) \<Longrightarrow> binv b'"
  using cancel_total [of b oid] by auto

end

text \<open>Consequences of \<open>placed\<close> alone.\<close>

lemma placed_maker:
  assumes "placed oid s p q lk lk' ts" "tr \<in> set ts"
  obtains m where "lk (tr_MakerOrderID tr) = Some m" "ord_Side m = opposite s"
    "ord_Price m = tr_Price tr" "tr_Quantity tr \<le> ord_Remaining m" "tr_MakerOrderID tr \<noteq> oid"
    "0 < tr_Quantity tr" "0 < tr_Price tr" "tr_TakerOrderID tr = oid"
  using assms by (fastforce simp: placed_def trade_ok_def split: option.splits)

lemma placed_unfilled:
  assumes "placed oid s p q lk lk' ts" "k \<noteq> oid" "k \<notin> tr_MakerOrderID ` set ts"
    "\<And>x. lk k = Some x \<Longrightarrow> 0 < ord_Remaining x"
  shows "lk' k = lk k"
proof -
  have "lk' k = after_fill 0 (lk k)" using assms(1,2) filled_other [OF assms(3)] by (simp add: placed_def)
  then show ?thesis using assms(4) by (cases "lk k") (auto simp: after_fill_def)
qed

lemma filled_maker:
  assumes "distinct (map tr_MakerOrderID ts)" "tr \<in> set ts"
  shows "filled (tr_MakerOrderID tr) ts = tr_Quantity tr"
  using assms by (induction ts) (auto simp: filled_other)

lemma placed_maker_after:
  assumes "placed oid s p q lk lk' ts" "tr \<in> set ts" "lk (tr_MakerOrderID tr) = Some m"
  shows "lk' (tr_MakerOrderID tr) = (if ord_Remaining m = tr_Quantity tr then None
    else Some (m\<lparr>ord_Remaining := ord_Remaining m - tr_Quantity tr\<rparr>))"
proof -
  have "distinct (map tr_MakerOrderID ts)" "tr_MakerOrderID tr \<noteq> oid"
    using assms by (auto simp: placed_def)
  with assms filled_maker [of ts tr] show ?thesis by (simp add: placed_def)
qed

section \<open>The order book fulfils the contract\<close>

lemma spec_lookup_wf:
  assumes "abook_inv ab" "spec_lookup k ab = Some x"
  shows "ord_ID x = k \<and> order_wf (ord_Side x) x"
proof -
  have x: "x \<in> set (ab_orders ab)" "ord_ID x = k"
    using find_id_SomeD assms(2) unfolding spec_lookup_def by blast+
  then have "x \<in> set (ab_side Buy ab) \<or> x \<in> set (ab_side Sell ab)"
    by (simp add: ab_orders_def ab_side_def)
  then obtain s where "x \<in> set (ab_side s ab)" by blast
  from abook_invD(1) [OF assms(1) this] x show ?thesis by (simp add: order_wf_def)
qed

lemma spec_match_trades:
  assumes inv: "abook_inv ab" and m: "spec_match t ab = (ts, r, ab')"
    and t: "0 \<le> ord_Remaining t" "0 \<le> ord_Price t"
  shows "\<forall>tr \<in> set ts. trade_ok (ord_ID t) (ord_Side t) (ord_Price t) (\<lambda>k. spec_lookup k ab) tr"
    "distinct (map tr_MakerOrderID ts)" "traded ts \<le> ord_Remaining t" "r = ord_Remaining t - traded ts"
proof -
  let ?o = "opposite (ord_Side t)"
  obtain ms where f: "fill t (ord_Remaining t) (ab_side ?o ab) = (ts, r, ms)"
    using spec_match_fill [OF m] .
  show "distinct (map tr_MakerOrderID ts)" by (rule fill_makers(2) [OF f abook_invD(4) [OF inv]])
  show "traded ts \<le> ord_Remaining t" "r = ord_Remaining t - traded ts"
    using fill_remaining_nonneg [OF f t(1)] fill_conserves [OF f] by auto
  have wf: "order_wf ?o m" if "m \<in> set (ab_side ?o ab)" for m using abook_invD(1) [OF inv that] .
  show "\<forall>tr \<in> set ts. trade_ok (ord_ID t) (ord_Side t) (ord_Price t) (\<lambda>k. spec_lookup k ab) tr"
  proof
    fix tr assume "tr \<in> set ts"
    then obtain m where m: "m \<in> set (ab_side ?o ab)" "tr_TakerOrderID tr = ord_ID t" "0 < tr_Quantity tr"
      "tr_MakerOrderID tr = ord_ID m" "tr_Price tr = ord_Price m" "tr_Quantity tr \<le> ord_Remaining m"
      "crosses t (ord_Price m)"
      using fill_trades [OF f] wf by (fastforce simp: order_wf_def)
    have "find_id (ord_ID m) (ab_side ?o ab) = Some m"
      using m(1) abook_invD(4) [OF inv] by (intro find_distinct_key) (auto simp: distinct_map)
    then have "spec_lookup (ord_ID m) ab = Some m"
      using spec_lookup_sides [OF abook_invD(3) [OF inv], of "ord_ID m" ?o] by simp
    then show "trade_ok (ord_ID t) (ord_Side t) (ord_Price t) (\<lambda>k. spec_lookup k ab) tr"
      using m wf [OF m(1)] by (auto simp: trade_ok_def order_wf_def crosses_def split: if_splits)
  qed
qed

lemma spec_PlaceMarket_placed:
  assumes inv: "abook_inv ab" and pm: "spec_PlaceMarket oid side qty ab = (ab', Inr ts)"
  shows "placed oid side 0 qty (\<lambda>k. spec_lookup k ab) (\<lambda>k. spec_lookup k ab') ts"
proof -
  let ?t = "spec_taker oid side 0 qty ab"
  have q: "0 < qty" and nid: "oid \<notin> ord_ID ` set (ab_orders ab)"
    using pm by (auto simp: spec_PlaceMarket_def split: if_splits prod.splits)
  then obtain r where m: "spec_match ?t ab = (ts, r, ab')"
    using pm by (auto simp: spec_PlaceMarket_def split: if_splits prod.splits)
  have t: "ord_ID ?t = oid" "ord_Side ?t = side" "ord_Price ?t = 0" "ord_Remaining ?t = qty"
    by (simp_all add: spec_taker_def)
  have lk: "spec_lookup oid ab = None" using nid by (simp add: spec_lookup_def find_id_None)
  with spec_match_lookup [OF inv m] have "spec_lookup oid ab' = None" by simp
  with spec_match_trades [OF inv m] spec_match_lookup [OF inv m] q lk show ?thesis
    by (simp add: placed_def t)
qed

lemma spec_PlaceLimit_placed:
  assumes inv: "abook_inv ab" and pl: "spec_PlaceLimit oid side price qty ab = (ab', Inr ts)"
  shows "0 < price \<and> placed oid side price qty (\<lambda>k. spec_lookup k ab) (\<lambda>k. spec_lookup k ab') ts"
proof -
  let ?t = "spec_taker oid side price qty ab"
  have q: "0 < price" "0 < qty" and nid: "oid \<notin> ord_ID ` set (ab_orders ab)"
    using pl by (auto simp: spec_PlaceLimit_def split: if_splits prod.splits)
  obtain ts0 r ab0 where m: "spec_match ?t ab = (ts0, r, ab0)" by (metis prod_cases3)
  let ?x = "?t\<lparr>ord_Remaining := r\<rparr>"
  have ts: "ts = ts0" and ab': "ab' = (if r > 0
      then ab_set_side side (enqueue ?x (ab_side side ab0)) ab0 else ab0)"
    using pl q nid m by (auto simp: spec_PlaceLimit_def split: if_splits)
  have t: "ord_ID ?t = oid" "ord_Side ?t = side" "ord_Price ?t = price" "ord_Remaining ?t = qty"
    "ord_Quantity ?t = qty"
    by (simp_all add: spec_taker_def)
  note inv0 = spec_match_inv [OF inv m]
  note tr = spec_match_trades [OF inv m]
  have lk: "spec_lookup oid ab = None" using nid by (simp add: spec_lookup_def find_id_None)
  have nid0: "oid \<notin> ord_ID ` set (ab_orders ab0)" using spec_match_ids [OF m] nid by blast
  then have lk0: "spec_lookup oid ab0 = None" by (simp add: spec_lookup_def find_id_None)
  have "spec_lookup k ab' = (if r > 0 \<and> k = oid then Some ?x else spec_lookup k ab0)" for k
  proof (cases "r > 0")
    case True
    have none: "find_id oid (ab_bids ab0) = None" "find_id oid (ab_asks ab0) = None"
      using nid0 by (auto simp: ab_orders_def find_id_None)
    have "oid \<notin> ord_ID ` set (ab_side side ab0)" using nid0 by (cases side) (auto simp: ab_orders_def ab_side_def)
    then have enq: "find_id k (enqueue ?x (ab_side side ab0)) = (if k = oid then Some ?x else find_id k (ab_side side ab0))"
      using find_id_enqueue [of ?x "ab_side side ab0" k] t(1) by simp
    have "spec_lookup k ab0 = (case find_id k (ab_bids ab0) of None \<Rightarrow> find_id k (ab_asks ab0) | Some y \<Rightarrow> Some y)"
      by (simp add: spec_lookup_def ab_orders_def find_id_append)
    moreover have "spec_lookup k ab' = (case find_id k (ab_bids ab') of None \<Rightarrow> find_id k (ab_asks ab') | Some y \<Rightarrow> Some y)"
      by (simp add: spec_lookup_def ab_orders_def find_id_append)
    ultimately show ?thesis
      using True enq none
      by (cases side; cases "k = oid") (simp_all add: ab' ab_set_side_def ab_side_def split: option.split)
  qed (simp add: ab')
  with tr q lk lk0 spec_match_lookup [OF inv m] show ?thesis
    by (auto simp: placed_def t ts rested_def)
qed

lemma spec_Cancel_ok:
  assumes inv: "abook_inv ab" and c: "spec_Cancel oid ab = (ab', Inr x)"
  shows "spec_lookup oid ab = Some x \<and> (\<forall>k. spec_lookup k ab' = (if k = oid then None else spec_lookup k ab))"
proof -
  have x: "spec_lookup oid ab = Some x"
    and ab': "ab_orders ab' = drop_id oid (ab_orders ab)"
    using c by (auto simp: spec_Cancel_def ab_orders_def drop_id_def split: option.splits)
  have "find_id k (drop_id oid xs) = (if k = oid then None else find_id k xs)" for k xs
    by (induction xs) (auto simp: drop_id_def)
  with x ab' show ?thesis by (simp add: spec_lookup_def)
qed

interpretation ob: book_contract book_inv Order_lookup PlaceLimit PlaceMarket Cancel
proof unfold_locales
  fix b b' :: OrderBook and k oid :: string and s p q e x ts
  assume inv: "book_inv b"
  note a = abs_book_inv [OF inv]
  have inv': "book_inv b'" if "(b', res) = (c, r)" "book_inv c" for c res r using that by simp
  show "Order_lookup k b = Some x \<Longrightarrow> ord_ID x = k \<and> order_wf (ord_Side x) x"
    using spec_lookup_wf [OF a] by (simp add: Order_lookup_refines [OF inv])
  show "PlaceLimit oid s p q b = Some (b', Inl e) \<Longrightarrow> b' = b"
    by (auto simp: PlaceLimit_def Let_def split: if_splits prod.splits option.splits)
  show "PlaceMarket oid s q b = Some (b', Inl e) \<Longrightarrow> b' = b"
    by (auto simp: PlaceMarket_def Let_def split: if_splits prod.splits option.splits)
  show "\<exists>b' res. Cancel oid b = Some (b', res) \<and> book_inv b'"
    using Cancel_refines [OF inv, of oid] by blast
  show "Cancel oid b = Some (b', Inl e) \<Longrightarrow> b' = b \<and> e = ErrNotFound \<and> Order_lookup oid b = None"
    by (auto simp: Cancel_def Order_lookup_def split: option.splits)
  show "Order_lookup oid b = Some x \<and> (\<forall>k. Order_lookup k b' = (if k = oid then None else Order_lookup k b))"
    if "Cancel oid b = Some (b', Inr x)"
    using Cancel_refines [OF inv, of oid] spec_Cancel_ok [OF a, of oid "abs_book b'" x] that
      Order_lookup_refines [OF inv] Order_lookup_refines [of b'] by auto
  assume q: "in_int64 q"
  show "\<exists>b' res. PlaceMarket oid s q b = Some (b', res) \<and> book_inv b'"
    using PlaceMarket_refines [OF inv q, of oid s] by blast
  show "placed oid s 0 q (\<lambda>k. Order_lookup k b) (\<lambda>k. Order_lookup k b') ts"
    if "PlaceMarket oid s q b = Some (b', Inr ts)"
    using PlaceMarket_refines [OF inv q, of oid s] spec_PlaceMarket_placed [OF a, of oid s q "abs_book b'" ts] that
      Order_lookup_refines [OF inv] Order_lookup_refines [of b'] by auto
  assume p: "in_int64 p"
  show "\<exists>b' res. PlaceLimit oid s p q b = Some (b', res) \<and> book_inv b'"
    using PlaceLimit_refines [OF inv p q, of oid s] by blast
  show "0 < p \<and> placed oid s p q (\<lambda>k. Order_lookup k b) (\<lambda>k. Order_lookup k b') ts"
    if "PlaceLimit oid s p q b = Some (b', Inr ts)"
    using PlaceLimit_refines [OF inv p q, of oid s] spec_PlaceLimit_placed [OF a, of oid s p q "abs_book b'" ts] that
      Order_lookup_refines [OF inv] Order_lookup_refines [of b'] by auto
qed

section \<open>Sequences of operations\<close>

datatype book_cmd = BLimit string Side int64 int64 | BMarket string Side int64 | BCancel string

datatype book_res = RPlace "ob_error + Trade list" | RCancel "ob_error + Order"

fun book_cmd_ok :: "book_cmd \<Rightarrow> bool" where
  "book_cmd_ok (BLimit oid s p q) \<longleftrightarrow> in_int64 p \<and> in_int64 q"
| "book_cmd_ok (BMarket oid s q) \<longleftrightarrow> in_int64 q"
| "book_cmd_ok (BCancel oid) \<longleftrightarrow> True"

fun book_step :: "book_cmd \<Rightarrow> OrderBook \<Rightarrow> (OrderBook \<times> book_res) option" where
  "book_step (BLimit oid s p q) ob = map_option (map_prod (\<lambda>x. x) RPlace) (PlaceLimit oid s p q ob)"
| "book_step (BMarket oid s q) ob = map_option (map_prod (\<lambda>x. x) RPlace) (PlaceMarket oid s q ob)"
| "book_step (BCancel oid) ob = map_option (map_prod (\<lambda>x. x) RCancel) (Cancel oid ob)"

fun book_run :: "book_cmd list \<Rightarrow> OrderBook \<Rightarrow> (OrderBook \<times> book_res list) option" where
  "book_run [] ob = Some (ob, [])"
| "book_run (c # cs) ob = Option.bind (book_step c ob) (\<lambda>(ob1, r).
     map_option (map_prod (\<lambda>x. x) (Cons r)) (book_run cs ob1))"

fun spec_step :: "book_cmd \<Rightarrow> abook \<Rightarrow> abook \<times> book_res" where
  "spec_step (BLimit oid s p q) ab = map_prod (\<lambda>x. x) RPlace (spec_PlaceLimit oid s p q ab)"
| "spec_step (BMarket oid s q) ab = map_prod (\<lambda>x. x) RPlace (spec_PlaceMarket oid s q ab)"
| "spec_step (BCancel oid) ab = map_prod (\<lambda>x. x) RCancel (spec_Cancel oid ab)"

fun spec_run :: "book_cmd list \<Rightarrow> abook \<Rightarrow> abook \<times> book_res list" where
  "spec_run [] ab = (ab, [])"
| "spec_run (c # cs) ab = (let (ab1, r) = spec_step c ab; (ab2, rs) = spec_run cs ab1 in (ab2, r # rs))"

definition empty_abook :: "string \<Rightarrow> abook" where
  "empty_abook symbol = \<lparr>ab_Symbol = symbol, ab_bids = [], ab_asks = [], ab_seq = 0\<rparr>"

lemma book_step_sim:
  assumes "book_inv ob" "book_cmd_ok c"
  shows "\<exists>ob' r. book_step c ob = Some (ob', r) \<and> book_inv ob' \<and> (abs_book ob', r) = spec_step c (abs_book ob)"
proof (cases c)
  case (BLimit oid s p q)
  with PlaceLimit_refines [OF assms(1), of p q oid s] assms(2) show ?thesis
    by (auto simp flip: surj_pair simp: map_prod_def split: prod.split)
next
  case (BMarket oid s q)
  with PlaceMarket_refines [OF assms(1), of q oid s] assms(2) show ?thesis
    by (auto simp: map_prod_def split: prod.split)
next
  case (BCancel oid)
  with Cancel_refines [OF assms(1), of oid] show ?thesis
    by (auto simp: map_prod_def split: prod.split)
qed

lemma book_run_sim:
  assumes "book_inv ob" "list_all book_cmd_ok cs"
  shows "\<exists>ob' rs. book_run cs ob = Some (ob', rs) \<and> book_inv ob' \<and> spec_run cs (abs_book ob) = (abs_book ob', rs)"
  using assms
proof (induction cs arbitrary: ob)
  case (Cons c cs)
  then obtain ob1 r where 1: "book_step c ob = Some (ob1, r)" "book_inv ob1"
    "spec_step c (abs_book ob) = (abs_book ob1, r)"
    using book_step_sim [of ob c] by auto
  with Cons.IH [OF 1(2)] Cons.prems(2) show ?case by auto
qed simp

lemma book_run_inv:
  assumes "list_all book_cmd_ok cs" "book_run cs (New_book symbol) = Some (ob, rs)"
  shows "book_inv ob"
  using book_run_sim [of "New_book symbol" cs] New_book_inv [of symbol] assms by auto

definition demo_cmds :: "book_cmd list" where
  "demo_cmds = [BLimit ''a1'' Sell 101 5, BLimit ''a2'' Sell 100 4, BLimit ''b1'' Buy 98 6,
     BLimit ''a3'' Sell 100 3, BCancel ''a1'', BLimit ''a4'' Sell 102 9]"

definition demo_book :: OrderBook where
  "demo_book = fst (the (book_run demo_cmds (New_book ''BTC-USDT'')))"

lemma demo_ok: "list_all book_cmd_ok demo_cmds" by code_simp

lemma demo_book_inv: "book_inv demo_book"
  using book_run_sim [OF New_book_inv [of "''BTC-USDT''", THEN conjunct1] demo_ok]
  by (auto simp: demo_book_def)

section \<open>Properties of the order book\<close>

text \<open>A taker that consumes two makers at one price and rests the remainder.\<close>

definition demo_trades :: "Trade list" where
  "demo_trades = [\<lparr>tr_TakerOrderID = ''t1'', tr_MakerOrderID = ''a2'', tr_Price = 100, tr_Quantity = 4\<rparr>,
      \<lparr>tr_TakerOrderID = ''t1'', tr_MakerOrderID = ''a3'', tr_Price = 100, tr_Quantity = 3\<rparr>]"

definition demo_limit :: "OrderBook \<times> (ob_error + Trade list)" where
  "demo_limit = the (PlaceLimit ''t1'' Buy 101 10 demo_book)"

lemma demo_limit_run: "PlaceLimit ''t1'' Buy 101 10 demo_book = Some (fst demo_limit, Inr demo_trades)"
proof -
  have "map_option snd (PlaceLimit ''t1'' Buy 101 10 demo_book) = Some (Inr demo_trades)" by code_simp
  then show ?thesis by (auto simp: demo_limit_def)
qed

text \<open>C3: Any sequence of limit, market and cancel operations with machine-integer arguments,
  from the empty book, runs to completion (no panic, no divergence), and the results it
  returns and the book it leaves are those of the reference book: a price-time priority list
  per side, consumed from the front.\<close>

theorem book_run_refines:
  assumes "list_all book_cmd_ok cs"
  shows "\<exists>ob rs. book_run cs (New_book symbol) = Some (ob, rs) \<and> book_inv ob
    \<and> spec_run cs (empty_abook symbol) = (abs_book ob, rs)"
  using book_run_sim [of "New_book symbol" cs] New_book_inv [of symbol] assms
  by (simp add: empty_abook_def)

theorem book_run_refines_witness:
  "\<exists>ob rs. book_run demo_cmds (New_book ''BTC-USDT'') = Some (ob, rs) \<and> book_inv ob
    \<and> spec_run demo_cmds (empty_abook ''BTC-USDT'') = (abs_book ob, rs)"
  by (rule book_run_refines [OF demo_ok])

text \<open>C17: A limit order that is accepted trades only with resting orders of the other side, at
  their prices, inside its own limit; what it does not trade rests under its id; and every other
  resting order is unchanged except that makers lose exactly what they traded and disappear
  when nothing of them is left.\<close>

theorem PlaceLimit_effect:
  assumes "book_inv ob" "in_int64 price" "in_int64 qty"
    and "PlaceLimit oid side price qty ob = Some (ob', Inr ts)"
  shows "placed oid side price qty (\<lambda>k. Order_lookup k ob) (\<lambda>k. Order_lookup k ob') ts"
  using ob.limit_ok [OF assms] by blast

theorem PlaceLimit_effect_witness:
  "PlaceLimit ''t1'' Buy 101 10 demo_book = Some (fst demo_limit, Inr
     demo_trades)
   \<and> placed ''t1'' Buy 101 10 (\<lambda>k. Order_lookup k demo_book) (\<lambda>k. Order_lookup k (fst demo_limit))
     demo_trades"
proof -
  note r = demo_limit_run
  have "in_int64 101" "in_int64 10" by code_simp+
  from PlaceLimit_effect [OF demo_book_inv this r] r show ?thesis by simp
qed

text \<open>A market order trades like a limit order with no limit and never rests: its
  unfilled remainder is discarded.\<close>

theorem PlaceMarket_effect:
  assumes "book_inv ob" "in_int64 qty" "PlaceMarket oid side qty ob = Some (ob', Inr ts)"
  shows "placed oid side 0 qty (\<lambda>k. Order_lookup k ob) (\<lambda>k. Order_lookup k ob') ts
    \<and> Order_lookup oid ob' = None"
  using ob.market_ok [OF assms] by (simp add: placed_def)

definition demo_market :: "OrderBook \<times> (ob_error + Trade list)" where
  "demo_market = the (PlaceMarket ''t2'' Sell 10 demo_book)"

theorem PlaceMarket_effect_witness:
  "placed ''t2'' Sell 0 10 (\<lambda>k. Order_lookup k demo_book) (\<lambda>k. Order_lookup k (fst demo_market))
     [\<lparr>tr_TakerOrderID = ''t2'', tr_MakerOrderID = ''b1'', tr_Price = 98, tr_Quantity = 6\<rparr>]
   \<and> Order_lookup ''t2'' (fst demo_market) = None"
proof -
  let ?ts = "[\<lparr>tr_TakerOrderID = ''t2'', tr_MakerOrderID = ''b1'', tr_Price = 98, tr_Quantity = 6\<rparr>]"
  have "map_option snd (PlaceMarket ''t2'' Sell 10 demo_book) = Some (Inr ?ts)" by code_simp
  then have r: "PlaceMarket ''t2'' Sell 10 demo_book = Some (fst demo_market, Inr ?ts)"
    by (auto simp: demo_market_def)
  have "in_int64 10" by code_simp
  from PlaceMarket_effect [OF demo_book_inv this r] show ?thesis .
qed

text \<open>C18: Price-time priority. The makers of an accepted limit order are a prefix of the
  other side's priority list (best price first, then oldest first), each filled completely at its
  own price except possibly the last one, and the part of the list behind them is untouched.\<close>

theorem PlaceLimit_priority:
  assumes inv: "book_inv ob" and pq: "in_int64 price" "in_int64 qty"
    and pl: "PlaceLimit oid side price qty ob = Some (ob', Inr ts)"
  shows "\<exists>dn rs. abs_side (opposite side) ob = dn @ rs \<and>
    ((abs_side (opposite side) ob' = rs \<and>
      map (\<lambda>t. (tr_MakerOrderID t, tr_Price t, tr_Quantity t)) ts
        = map (\<lambda>m. (ord_ID m, ord_Price m, ord_Remaining m)) dn) \<or>
     (\<exists>m tl q. rs = m # tl \<and> 0 < q \<and> q < ord_Remaining m
      \<and> abs_side (opposite side) ob' = m\<lparr>ord_Remaining := ord_Remaining m - q\<rparr> # tl
      \<and> map (\<lambda>t. (tr_MakerOrderID t, tr_Price t, tr_Quantity t)) ts
        = map (\<lambda>m. (ord_ID m, ord_Price m, ord_Remaining m)) dn @ [(ord_ID m, ord_Price m, q)]))"
proof -
  let ?t = "spec_taker oid side price qty (abs_book ob)"
  obtain ts0 r ab0 where m: "spec_match ?t (abs_book ob) = (ts0, r, ab0)" by (metis prod_cases3)
  have t: "ord_Side ?t = side" "ord_Remaining ?t = qty" by (simp_all add: spec_taker_def)
  obtain ms where f: "fill ?t qty (abs_side (opposite side) ob) = (ts0, r, ms)"
    and ab0: "ab0 = ab_set_side (opposite side) ms ((abs_book ob)\<lparr>ab_seq := ord_Seq ?t\<rparr>)"
    using spec_match_fill [OF m] t by (metis abs_book_sel(1))
  have "(abs_book ob', Inr ts) = spec_PlaceLimit oid side price qty (abs_book ob)"
    using PlaceLimit_refines [OF inv pq, of oid side] pl by auto
  then have "ts = ts0 \<and> ab_side (opposite side) (abs_book ob') = ms"
    using m by (auto simp: spec_PlaceLimit_def Let_def ab0 simp del: abs_book_sel(1) split: if_splits)
  then show ?thesis using fill_prefix [OF f] by (fastforce simp: comp_def)
qed

theorem PlaceLimit_priority_witness:
  "PlaceLimit ''t1'' Buy 101 10 demo_book = Some (fst demo_limit, Inr
     demo_trades)
   \<and> (\<exists>dn rs. abs_side Sell demo_book = dn @ rs \<and> abs_side Sell (fst demo_limit) = rs
       \<and> map ord_ID dn = [''a2'', ''a3''])"
proof -
  note r = demo_limit_run
  have i: "in_int64 101" "in_int64 10" by code_simp+
  have l: "length (abs_side Sell demo_book) = 3" "length (abs_side Sell (fst demo_limit)) = 1" by code_simp+
  let ?f = "\<lambda>t. (tr_MakerOrderID t, tr_Price t, tr_Quantity t)"
  let ?g = "\<lambda>m. (ord_ID m, ord_Price m, ord_Remaining m)"
  from PlaceLimit_priority [OF demo_book_inv i r, unfolded opposite_simps] show ?thesis
  proof (elim disjE exE conjE)
    fix dn rs
    assume d: "abs_side Sell demo_book = dn @ rs"
      and a: "abs_side Sell (fst demo_limit) = rs" "map ?f demo_trades = map ?g dn"
    from a(2) have "map fst (map ?g dn) = map fst (map ?f demo_trades)" by (simp only:)
    then have ids: "map ord_ID dn = [''a2'', ''a3'']" by (simp add: comp_def demo_trades_def)
    show ?thesis by (intro conjI exI) (rule r, rule d, rule a, rule ids)
  next
    fix dn rs m tl q
    assume d: "abs_side Sell demo_book = dn @ rs"
      and a: "rs = m # tl" "abs_side Sell (fst demo_limit) = m\<lparr>ord_Remaining := ord_Remaining m - q\<rparr> # tl"
      "map ?f demo_trades = map ?g dn @ [(ord_ID m, ord_Price m, q)]"
    from arg_cong [OF a(3), of length] have "length dn = 1" by (simp add: demo_trades_def)
    with a d l show ?thesis by simp
  qed
qed

text \<open>C19: After any sequence of operations the book is not crossed: the best bid is below the
  best ask, and both are the prices of the first orders in priority.\<close>

theorem best_prices:
  assumes cs: "list_all book_cmd_ok cs" "book_run cs (New_book symbol) = Some (ob, rs)"
  shows "BestBid ob = map_option ord_Price (case abs_side Buy ob of [] \<Rightarrow> None | x # _ \<Rightarrow> Some x)
    \<and> BestAsk ob = map_option ord_Price (case abs_side Sell ob of [] \<Rightarrow> None | x # _ \<Rightarrow> Some x)
    \<and> (\<forall>b a. BestBid ob = Some b \<and> BestAsk ob = Some a \<longrightarrow> b < a)"
proof -
  have inv: "book_inv ob" by (rule book_run_inv [OF cs])
  have "BestBid ob = best (get_side Buy ob)" "BestAsk ob = best (get_side Sell ob)"
    by (simp_all add: BestBid_def BestAsk_def get_side_def)
  moreover have "uncrossed (abs_side Buy ob) (abs_side Sell ob)" using inv by (simp add: book_inv_def)
  ultimately show ?thesis
    by (auto simp: best_refines [OF inv] uncrossed_def split: list.splits)
qed

theorem best_prices_witness:
  "BestBid demo_book = Some 98 \<and> BestAsk demo_book = Some 100
   \<and> the (BestBid demo_book) < the (BestAsk demo_book)"
proof -
  obtain rs where "book_run demo_cmds (New_book ''BTC-USDT'') = Some (demo_book, rs)"
    using book_run_sim [OF New_book_inv [of "''BTC-USDT''", THEN conjunct1] demo_ok]
    by (auto simp: demo_book_def)
  moreover have "BestBid demo_book = Some 98" "BestAsk demo_book = Some 100" by code_simp+
  ultimately show ?thesis
    using best_prices [OF demo_ok, of "''BTC-USDT''" demo_book rs] by (metis option.sel)
qed

text \<open>C26: Cancelling returns exactly the resting order (its remaining quantity included) and
  removes it and nothing else; an id that is not resting gives the not-found error and changes
  nothing. Cancel never panics.\<close>

theorem Cancel_exact:
  assumes inv: "book_inv ob"
  shows "\<exists>ob'. Cancel oid ob = Some (ob', case Order_lookup oid ob of None \<Rightarrow> Inl ErrNotFound | Some x \<Rightarrow> Inr x)
    \<and> book_inv ob' \<and> (\<forall>k. Order_lookup k ob' = (if k = oid then None else Order_lookup k ob))
    \<and> (\<forall>s. abs_side s ob' = filter (\<lambda>x. ord_ID x \<noteq> oid) (abs_side s ob))"
proof -
  from Cancel_refines [OF inv, of oid] obtain ob' res where
    c: "Cancel oid ob = Some (ob', res)" "book_inv ob'" "(abs_book ob', res) = spec_Cancel oid (abs_book ob)"
    by blast
  have side: "abs_side s ob' = drop_id oid (abs_side s ob)" for s
  proof (cases "spec_lookup oid (abs_book ob)")
    case None
    then have "oid \<notin> ord_ID ` set (ab_orders (abs_book ob))" by (simp add: spec_lookup_def find_id_None)
    then have "drop_id oid (abs_side s ob) = abs_side s ob"
      unfolding drop_id_def by (intro filter_True) (cases s; auto simp: ab_orders_def)
    moreover have "abs_book ob' = abs_book ob" using None c(3) by (simp add: spec_Cancel_def)
    then have "ab_side s (abs_book ob') = ab_side s (abs_book ob)" by (rule arg_cong)
    ultimately show ?thesis by simp
  next
    case (Some x)
    with c(3) have "abs_book ob' = (abs_book ob)\<lparr>ab_bids := drop_id oid (abs_side Buy ob), ab_asks := drop_id oid (abs_side Sell ob)\<rparr>"
      by (simp add: spec_Cancel_def)
    then have "ab_side s (abs_book ob') = ab_side s ((abs_book ob)\<lparr>ab_bids := drop_id oid (abs_side Buy ob),
        ab_asks := drop_id oid (abs_side Sell ob)\<rparr>)" by (rule arg_cong)
    then show ?thesis unfolding abs_book_sel(1) by (cases s) (simp_all add: ab_side_def)
  qed
  have "Order_lookup k ob' = (if k = oid then None else Order_lookup k ob)" for k
    using c(1) ob.cancel_ok [OF inv, of oid ob'] ob.cancel_err [OF inv, of oid ob'] by (cases res) auto
  moreover have "res = (case Order_lookup oid ob of None \<Rightarrow> Inl ErrNotFound | Some x \<Rightarrow> Inr x)"
    using c(3) by (auto simp: Order_lookup_refines [OF inv] spec_Cancel_def split: option.splits)
  ultimately show ?thesis using c side by (auto simp: drop_id_def)
qed

theorem Cancel_exact_witness:
  "\<exists>ob'. Cancel ''a3'' demo_book = Some (ob', case Order_lookup ''a3'' demo_book of None \<Rightarrow> Inl ErrNotFound | Some x \<Rightarrow> Inr x)
    \<and> Order_lookup ''a3'' ob' = None \<and> Order_lookup ''a3'' demo_book \<noteq> None"
proof -
  have "Order_lookup ''a3'' demo_book \<noteq> None" by code_simp
  with Cancel_exact [OF demo_book_inv, of "''a3''"] show ?thesis by metis
qed

text \<open>A depth snapshot has one row per price level, best price first, cut at
  \<open>maxLevels\<close> when that is positive; a row's quantity is the sum of the remaining
  quantities at that price (modulo the 64-bit wrap-around of the sum).\<close>

theorem Depth_book_correct:
  assumes "book_inv ob"
  shows "Depth_book maxLevels ob = Some (cut_rows maxLevels (spec_rows (abs_side Buy ob)),
    cut_rows maxLevels (spec_rows (abs_side Sell ob)))"
  using Depth_refines [OF assms] by (simp add: spec_Depth_def)

theorem Depth_book_correct_witness:
  "Depth_book 1 demo_book = Some (cut_rows 1 (spec_rows (abs_side Buy demo_book)),
    cut_rows 1 (spec_rows (abs_side Sell demo_book)))
   \<and> cut_rows 1 (spec_rows (abs_side Sell demo_book)) = [\<lparr>pl_Price = 100, pl_Quantity = 7\<rparr>]"
proof
  show "cut_rows 1 (spec_rows (abs_side Sell demo_book)) = [\<lparr>pl_Price = 100, pl_Quantity = 7\<rparr>]"
    by code_simp
qed (rule Depth_book_correct [OF demo_book_inv])

text \<open>The errors of placing an order: on a well-formed book a limit order is refused
  exactly when its price or quantity is not positive or its id is resting already, with the
  corresponding error, and then the book is unchanged.\<close>

theorem PlaceLimit_errors:
  assumes inv: "book_inv ob" and pq: "in_int64 price" "in_int64 qty"
  shows "(PlaceLimit oid side price qty ob = Some (ob, Inl ErrInvalid) \<longleftrightarrow> price \<le> 0 \<or> qty \<le> 0)
    \<and> (PlaceLimit oid side price qty ob = Some (ob, Inl ErrDuplicateID)
      \<longleftrightarrow> 0 < price \<and> 0 < qty \<and> Order_lookup oid ob \<noteq> None)
    \<and> ((\<exists>ob' ts. PlaceLimit oid side price qty ob = Some (ob', Inr ts))
      \<longleftrightarrow> 0 < price \<and> 0 < qty \<and> Order_lookup oid ob = None)"
proof -
  have lk: "Order_lookup oid ob = None \<longleftrightarrow> ob_live ob oid = None" by (simp add: Order_lookup_def)
  have ok: "\<exists>ob' ts. PlaceLimit oid side price qty ob = Some (ob', Inr ts)"
    if "0 < price" "0 < qty" "ob_live ob oid = None"
    using ob.limit_total [OF inv pq, of oid side] that
    by (auto simp: PlaceLimit_def Let_def split: prod.splits option.splits if_splits)
  show ?thesis
    using ok unfolding lk
    by (cases "price \<le> 0 \<or> qty \<le> 0"; cases "ob_live ob oid") (auto simp: PlaceLimit_def not_le)
qed

theorem PlaceLimit_errors_witness:
  "PlaceLimit ''a2'' Buy 5 5 demo_book = Some (demo_book, Inl ErrDuplicateID)
   \<and> PlaceLimit ''new'' Buy 0 5 demo_book = Some (demo_book, Inl ErrInvalid)"
proof -
  have "in_int64 5" "in_int64 0" "Order_lookup ''a2'' demo_book \<noteq> None" by code_simp+
  with PlaceLimit_errors [OF demo_book_inv, of 5 5 "''a2''" Buy]
    PlaceLimit_errors [OF demo_book_inv, of 0 5 "''new''" Buy] show ?thesis by simp
qed

text \<open>Quantity is conserved. An accepted limit order adds its quantity to the market and
  every unit traded takes one unit from the taker and one from a maker: the resting quantity
  after the order, plus twice the traded quantity, is the resting quantity before plus the
  quantity of the order.\<close>

theorem PlaceLimit_conserves:
  assumes inv: "book_inv ob" and pq: "in_int64 price" "in_int64 qty"
    and pl: "PlaceLimit oid side price qty ob = Some (ob', Inr ts)"
  shows "resting_qty (abs_side Buy ob') + resting_qty (abs_side Sell ob') + 2 * traded ts
    = resting_qty (abs_side Buy ob) + resting_qty (abs_side Sell ob) + qty"
proof -
  let ?t = "spec_taker oid side price qty (abs_book ob)"
  have sp: "(abs_book ob', Inr ts) = spec_PlaceLimit oid side price qty (abs_book ob)"
    using PlaceLimit_refines [OF inv pq, of oid side] pl by auto
  then have q: "0 < qty" by (auto simp: spec_PlaceLimit_def split: if_splits)
  obtain ts0 r ab0 where m: "spec_match ?t (abs_book ob) = (ts0, r, ab0)" by (metis prod_cases3)
  have t: "ord_Side ?t = side" "ord_Remaining ?t = qty" by (simp_all add: spec_taker_def)
  obtain ms where f: "fill ?t qty (abs_side (opposite side) ob) = (ts0, r, ms)"
    and ab0: "ab0 = ab_set_side (opposite side) ms ((abs_book ob)\<lparr>ab_seq := ord_Seq ?t\<rparr>)"
    using spec_match_fill [OF m] t by (metis abs_book_sel(1))
  let ?x = "?t\<lparr>ord_Remaining := r\<rparr>"
  have enq: "resting_qty (enqueue ?x xs) = r + resting_qty xs" for xs by (induction xs) auto
  have r: "0 \<le> r" using fill_remaining_nonneg [OF f] q by simp
  have ts: "ts = ts0" and ab': "abs_book ob' = (if r > 0
      then ab_set_side side (enqueue ?x (ab_side side ab0)) ab0 else ab0)"
    using sp m by (auto simp: spec_PlaceLimit_def Let_def split: if_splits)
  have "resting_qty (ab_side side (abs_book ob')) = resting_qty (abs_side side ob) + r
      \<and> ab_side (opposite side) (abs_book ob') = ms"
    using r by (auto simp: ab' ab0 enq simp del: abs_book_sel(1)) (simp_all)
  then show ?thesis using fill_conserves [OF f] by (cases side) (simp_all add: ts)
qed

theorem PlaceLimit_conserves_witness:
  "resting_qty (abs_side Buy (fst demo_limit)) + resting_qty (abs_side Sell (fst demo_limit)) + 2 * 7
    = resting_qty (abs_side Buy demo_book) + resting_qty (abs_side Sell demo_book) + 10"
proof -
  note r = demo_limit_run
  have "in_int64 101" "in_int64 10" by code_simp+
  from PlaceLimit_conserves [OF demo_book_inv this r] show ?thesis by (simp add: demo_trades_def)
qed

end
