(* ===== verification/Engine.thy ===== *)
theory Engine
  imports BookContract "HOL-Library.List_Lexorder" "HOL-Library.Char_ord" "HOL-Library.Sublist"
begin

text \<open>
  The event-sourced matching engine of \<open>services/matching-engine/engine/engine.go\<close>: the
  command and event records, \<open>apply\<close> (one command against its book), the admission control
  of the loop in \<open>Run\<close>, \<open>New\<close> (recovery by replaying the journal), \<open>Submit\<close> and
  the control-plane and read operations. The maps \<open>books\<close>, \<open>orders\<close> and \<open>halted\<close>
  are partial functions; Go's unspecified map iteration order is an argument of the
  operations that iterate. \<open>None\<close> is a panic.
\<close>

section \<open>Data\<close>

definition CmdPlaceLimit :: string where "CmdPlaceLimit = ''place_limit''"
definition CmdPlaceMarket :: string where "CmdPlaceMarket = ''place_market''"
definition CmdCancel :: string where "CmdCancel = ''cancel''"

datatype EventType = EvtOrderAccepted | EvtOrderRejected | EvtOrderCancelled | EvtTrade

record Command =
  cmd_Type :: string
  cmd_Symbol :: string
  cmd_OrderID :: string
  cmd_UserID :: int64
  cmd_Side :: Side
  cmd_Price :: int64
  cmd_Qty :: int64

record Event =
  ev_Type :: EventType
  ev_Seq :: uint64
  ev_Index :: nat
  ev_Symbol :: string
  ev_OrderID :: string
  ev_UserID :: int64
  ev_Side :: Side
  ev_Price :: int64
  ev_Qty :: int64
  ev_Reason :: string
  ev_MakerOrderID :: string
  ev_TakerOrderID :: string
  ev_MakerUserID :: int64
  ev_TakerUserID :: int64

record ownedOrder =
  own_userID :: int64
  own_side :: Side
  own_symbol :: string

record OpenOrder =
  oo_OrderID :: string
  oo_Symbol :: string
  oo_Side :: Side
  oo_Price :: int64
  oo_Quantity :: int64
  oo_Remaining :: int64

record Engine =
  eg_books :: "string \<rightharpoonup> OrderBook"
  eg_orders :: "string \<rightharpoonup> ownedOrder"
  eg_halted :: "string \<rightharpoonup> bool"

datatype engine_error = ErrUnknownSymbol | ErrJournal string | ErrContext | ErrReplay string

text \<open>A struct literal leaves the fields it does not name at their zero values.\<close>

definition zero_Event :: "EventType \<Rightarrow> Event" where
  "zero_Event t = \<lparr>ev_Type = t, ev_Seq = 0, ev_Index = 0, ev_Symbol = [], ev_OrderID = [],
     ev_UserID = 0, ev_Side = Buy, ev_Price = 0, ev_Qty = 0, ev_Reason = [],
     ev_MakerOrderID = [], ev_TakerOrderID = [], ev_MakerUserID = 0, ev_TakerUserID = 0\<rparr>"

definition zero_owned :: ownedOrder where
  "zero_owned = \<lparr>own_userID = 0, own_side = Buy, own_symbol = []\<rparr>"

definition ob_error_msg :: "ob_error \<Rightarrow> string" where
  "ob_error_msg e = (case e of ErrDuplicateID \<Rightarrow> ''orderbook: duplicate order id''
     | ErrNotFound \<Rightarrow> ''orderbook: order not found'' | ErrInvalid \<Rightarrow> ''orderbook: invalid order'')"

definition unknown_symbol_msg :: string where
  "unknown_symbol_msg = ''engine: unknown symbol''"

section \<open>Applying one command\<close>

definition reject :: "uint64 \<Rightarrow> Command \<Rightarrow> string \<Rightarrow> Event" where
  "reject seq cmd reason = (zero_Event EvtOrderRejected)
     \<lparr>ev_Seq := seq, ev_Index := 0, ev_Symbol := cmd_Symbol cmd, ev_OrderID := cmd_OrderID cmd,
      ev_UserID := cmd_UserID cmd, ev_Reason := reason\<rparr>"

definition accepted :: "uint64 \<Rightarrow> Command \<Rightarrow> Event" where
  "accepted seq cmd = (zero_Event EvtOrderAccepted)
     \<lparr>ev_Seq := seq, ev_Index := 0, ev_Symbol := cmd_Symbol cmd, ev_OrderID := cmd_OrderID cmd,
      ev_UserID := cmd_UserID cmd, ev_Side := cmd_Side cmd, ev_Price := cmd_Price cmd, ev_Qty := cmd_Qty cmd\<rparr>"

definition trade_event :: "uint64 \<Rightarrow> Command \<Rightarrow> nat \<Rightarrow> ownedOrder \<Rightarrow> Trade \<Rightarrow> Event" where
  "trade_event seq cmd i maker tr = (zero_Event EvtTrade)
     \<lparr>ev_Seq := seq, ev_Index := i, ev_Symbol := cmd_Symbol cmd, ev_Side := cmd_Side cmd,
      ev_Price := tr_Price tr, ev_Qty := tr_Quantity tr,
      ev_MakerOrderID := tr_MakerOrderID tr, ev_TakerOrderID := tr_TakerOrderID tr,
      ev_MakerUserID := own_userID maker, ev_TakerUserID := cmd_UserID cmd\<rparr>"

text \<open>The loop over the trades: an event each, and a consumed maker leaves \<open>orders\<close>.\<close>

fun trade_events :: "uint64 \<Rightarrow> Command \<Rightarrow> OrderBook \<Rightarrow> Trade list \<Rightarrow> Event list \<Rightarrow>
    (string \<rightharpoonup> ownedOrder) \<Rightarrow> Event list \<times> (string \<rightharpoonup> ownedOrder)" where
  "trade_events seq cmd ob [] events ords = (events, ords)"
| "trade_events seq cmd ob (tr # trs) events ords =
     (let maker = (case ords (tr_MakerOrderID tr) of None \<Rightarrow> zero_owned | Some w \<Rightarrow> w);
          events = events @ [trade_event seq cmd (length events) maker tr];
          ords = (if Order_lookup (tr_MakerOrderID tr) ob = None
                  then ords(tr_MakerOrderID tr := None) else ords)
      in trade_events seq cmd ob trs events ords)"

definition set_book :: "string \<Rightarrow> OrderBook \<Rightarrow> Engine \<Rightarrow> Engine" where
  "set_book s ob e = e\<lparr>eg_books := (eg_books e)(s \<mapsto> ob)\<rparr>"

definition apply_place :: "uint64 \<Rightarrow> Command \<Rightarrow> OrderBook \<Rightarrow> Engine \<Rightarrow> (Engine \<times> Event list) option" where
  "apply_place seq cmd ob e =
     (case (if cmd_Type cmd = CmdPlaceLimit
            then PlaceLimit (cmd_OrderID cmd) (cmd_Side cmd) (cmd_Price cmd) (cmd_Qty cmd) ob
            else PlaceMarket (cmd_OrderID cmd) (cmd_Side cmd) (cmd_Qty cmd) ob) of
        None \<Rightarrow> None
      | Some (ob, Inl err) \<Rightarrow> Some (set_book (cmd_Symbol cmd) ob e, [reject seq cmd (ob_error_msg err)])
      | Some (ob, Inr trades) \<Rightarrow>
          let (events, ords) = trade_events seq cmd ob trades [accepted seq cmd] (eg_orders e);
              ords = (if Order_lookup (cmd_OrderID cmd) ob \<noteq> None
                      then ords(cmd_OrderID cmd \<mapsto> \<lparr>own_userID = cmd_UserID cmd,
                             own_side = cmd_Side cmd, own_symbol = cmd_Symbol cmd\<rparr>)
                      else ords)
          in Some ((set_book (cmd_Symbol cmd) ob e)\<lparr>eg_orders := ords\<rparr>, events))"

definition cancelled :: "uint64 \<Rightarrow> Command \<Rightarrow> Order \<Rightarrow> ownedOrder option \<Rightarrow> Event" where
  "cancelled seq cmd c owner =
     (let ev = (zero_Event EvtOrderCancelled)
            \<lparr>ev_Seq := seq, ev_Index := 0, ev_Symbol := cmd_Symbol cmd, ev_OrderID := cmd_OrderID cmd,
             ev_Side := ord_Side c, ev_Price := ord_Price c, ev_Qty := ord_Remaining c\<rparr>
      in case owner of None \<Rightarrow> ev | Some w \<Rightarrow> ev\<lparr>ev_UserID := own_userID w\<rparr>)"

definition apply_cancel :: "uint64 \<Rightarrow> Command \<Rightarrow> OrderBook \<Rightarrow> Engine \<Rightarrow> (Engine \<times> Event list) option" where
  "apply_cancel seq cmd ob e =
     (let owner = eg_orders e (cmd_OrderID cmd)
      in if cmd_UserID cmd \<noteq> 0 \<and> owner \<noteq> None \<and> own_userID (the owner) \<noteq> cmd_UserID cmd
         then Some (e, [reject seq cmd ''not order owner''])
         else (case Cancel (cmd_OrderID cmd) ob of
                 None \<Rightarrow> None
               | Some (ob, Inl err) \<Rightarrow> Some (set_book (cmd_Symbol cmd) ob e, [reject seq cmd (ob_error_msg err)])
               | Some (ob, Inr c) \<Rightarrow>
                   Some ((set_book (cmd_Symbol cmd) ob e)\<lparr>eg_orders := (eg_orders e)(cmd_OrderID cmd := None)\<rparr>,
                         [cancelled seq cmd c owner])))"

definition apply_cmd :: "uint64 \<Rightarrow> Command \<Rightarrow> Engine \<Rightarrow> (Engine \<times> Event list) option" where
  "apply_cmd seq cmd e =
     (case eg_books e (cmd_Symbol cmd) of
        None \<Rightarrow> Some (e, [reject seq cmd unknown_symbol_msg])
      | Some ob \<Rightarrow>
          if cmd_Type cmd = CmdPlaceLimit \<or> cmd_Type cmd = CmdPlaceMarket then apply_place seq cmd ob e
          else if cmd_Type cmd = CmdCancel then apply_cancel seq cmd ob e
          else Some (e, [reject seq cmd ''unknown command type'']))"

section \<open>The loop, recovery, and the control plane\<close>

definition Halt :: "string \<Rightarrow> Engine \<Rightarrow> Engine" where
  "Halt symbol e = e\<lparr>eg_halted := (eg_halted e)(symbol \<mapsto> True)\<rparr>"

definition Resume :: "string \<Rightarrow> Engine \<Rightarrow> Engine" where
  "Resume symbol e = e\<lparr>eg_halted := (eg_halted e)(symbol := None)\<rparr>"

definition IsHalted :: "string \<Rightarrow> Engine \<Rightarrow> bool" where
  "IsHalted symbol e = (case eg_halted e symbol of None \<Rightarrow> False | Some b \<Rightarrow> b)"

definition halted_event :: "Command \<Rightarrow> Event" where
  "halted_event cmd = (zero_Event EvtOrderRejected)
     \<lparr>ev_Symbol := cmd_Symbol cmd, ev_OrderID := cmd_OrderID cmd, ev_UserID := cmd_UserID cmd,
      ev_Reason := ''trading halted''\<rparr>"

text \<open>
  One iteration of \<open>Run\<close> on a received request. \<open>app_j\<close> is the journal's
  \<open>Append\<close> on its state \<open>'j\<close>. The result is the new engine and journal, the batches
  handed to the sink, and the reply.
\<close>

definition Run_step :: "(Command \<Rightarrow> 'j \<Rightarrow> 'j \<times> (string + uint64)) \<Rightarrow> Command \<Rightarrow> Engine \<times> 'j \<Rightarrow>
    ((Engine \<times> 'j) \<times> Event list list \<times> (engine_error + Event list)) option" where
  "Run_step app_j cmd ej =
     (let (e, j) = ej
      in if cmd_Type cmd \<noteq> CmdCancel \<and> IsHalted (cmd_Symbol cmd) e
         then Some ((e, j), [], Inr [halted_event cmd])
         else (case app_j cmd j of
                 (j, Inl err) \<Rightarrow> Some ((e, j), [], Inl (ErrJournal err))
               | (j, Inr seq) \<Rightarrow>
                   (case apply_cmd seq cmd e of
                      None \<Rightarrow> None
                    | Some (e, events) \<Rightarrow>
                        Some ((e, j), (if length events > 0 then [events] else []), Inr events))))"

text \<open>
  \<open>New\<close>: the books of the symbols, then every journaled command applied in order, its
  events dropped. \<open>replay\<close> is the journal's \<open>Replay\<close> applied to the callback.
\<close>

definition empty_engine :: "string list \<Rightarrow> Engine" where
  "empty_engine symbols = \<lparr>eg_books = foldl (\<lambda>m s. m(s \<mapsto> New_book s)) Map.empty symbols,
     eg_orders = Map.empty, eg_halted = Map.empty\<rparr>"

type_synonym 's replay_fn = "uint64 \<Rightarrow> Command \<Rightarrow> 's \<Rightarrow> (string + 's) option"

definition New_engine ::
  "string list \<Rightarrow> (Engine replay_fn \<Rightarrow> Engine \<Rightarrow> (string + Engine) option) \<Rightarrow> (engine_error + Engine) option" where
  "New_engine symbols replay =
     (case replay (\<lambda>seq cmd e. map_option (\<lambda>(e, _). Inr e) (apply_cmd seq cmd e)) (empty_engine symbols) of
        None \<Rightarrow> None
      | Some (Inl err) \<Rightarrow> Some (Inl (ErrReplay err))
      | Some (Inr e) \<Rightarrow> Some (Inr e))"

section \<open>Reads\<close>

definition Depth_engine :: "string \<Rightarrow> int \<Rightarrow> Engine \<Rightarrow> (engine_error + PriceLevel list \<times> PriceLevel list) option" where
  "Depth_engine symbol levels e =
     (case eg_books e symbol of
        None \<Rightarrow> Some (Inl ErrUnknownSymbol)
      | Some ob \<Rightarrow> map_option Inr (Depth_book levels ob))"

text \<open>
  \<open>ids\<close> is the order in which the iteration over \<open>orders\<close> visits its keys. An entry
  whose symbol has no book is a method call on a nil book: the lookup panics.
\<close>

fun OpenOrders :: "int64 \<Rightarrow> string list \<Rightarrow> Engine \<Rightarrow> OpenOrder list option" where
  "OpenOrders userID [] e = Some []"
| "OpenOrders userID (oid # ids) e =
     (case eg_orders e oid of
        None \<Rightarrow> OpenOrders userID ids e
      | Some owner \<Rightarrow>
          if own_userID owner \<noteq> userID then OpenOrders userID ids e
          else (case eg_books e (own_symbol owner) of
                  None \<Rightarrow> None
                | Some ob \<Rightarrow>
                    (case Order_lookup oid ob of
                       None \<Rightarrow> OpenOrders userID ids e
                     | Some ord \<Rightarrow>
                         map_option (Cons \<lparr>oo_OrderID = oid, oo_Symbol = own_symbol owner,
                           oo_Side = own_side owner, oo_Price = ord_Price ord,
                           oo_Quantity = ord_Quantity ord, oo_Remaining = ord_Remaining ord\<rparr>)
                           (OpenOrders userID ids e))))"

definition Symbols :: "string list \<Rightarrow> Engine \<Rightarrow> string list" where
  "Symbols keys e = sort keys"

section \<open>What one command does\<close>

definition cmd_ok :: "Command \<Rightarrow> bool" where
  "cmd_ok c \<longleftrightarrow> in_int64 (cmd_Price c) \<and> in_int64 (cmd_Qty c) \<and> in_int64 (cmd_UserID c)"

definition engine_inv :: "Engine \<Rightarrow> bool" where
  "engine_inv e \<longleftrightarrow> (\<forall>s ob. eg_books e s = Some ob \<longrightarrow> book_inv ob)
     \<and> (\<forall>k w. eg_orders e k = Some w \<longrightarrow> eg_books e (own_symbol w) \<noteq> None)"

text \<open>Events are numbered by their position in the batch of their command.\<close>

definition tagged :: "uint64 \<Rightarrow> Event list \<Rightarrow> bool" where
  "tagged seq evs \<longleftrightarrow> map (\<lambda>v. (ev_Seq v, ev_Index v)) evs = map (\<lambda>i. (seq, i)) [0..<length evs]"

definition maker_of :: "(string \<rightharpoonup> ownedOrder) \<Rightarrow> Trade \<Rightarrow> ownedOrder" where
  "maker_of ords tr = (case ords (tr_MakerOrderID tr) of None \<Rightarrow> zero_owned | Some w \<Rightarrow> w)"

fun trade_batch :: "uint64 \<Rightarrow> Command \<Rightarrow> nat \<Rightarrow> (string \<rightharpoonup> ownedOrder) \<Rightarrow> Trade list \<Rightarrow> Event list" where
  "trade_batch seq cmd i ords [] = []"
| "trade_batch seq cmd i ords (tr # trs) =
     trade_event seq cmd i (maker_of ords tr) tr # trade_batch seq cmd (Suc i) ords trs"

definition drop_consumed :: "OrderBook \<Rightarrow> Trade list \<Rightarrow> (string \<rightharpoonup> ownedOrder) \<Rightarrow> (string \<rightharpoonup> ownedOrder)" where
  "drop_consumed ob trs ords =
     (\<lambda>k. if k \<in> tr_MakerOrderID ` set trs \<and> Order_lookup k ob = None then None else ords k)"

lemma trade_batch_cong:
  "(\<And>tr. tr \<in> set trs \<Longrightarrow> ords (tr_MakerOrderID tr) = ords' (tr_MakerOrderID tr)) \<Longrightarrow>
     trade_batch seq cmd i ords trs = trade_batch seq cmd i ords' trs"
  by (induction trs arbitrary: i) (simp_all add: maker_of_def)

text \<open>The loop over the trades, in closed form: each maker trades at most once per command.\<close>

lemma trade_events_eq:
  assumes "distinct (map tr_MakerOrderID trs)"
  shows "trade_events seq cmd ob trs evs ords
    = (evs @ trade_batch seq cmd (length evs) ords trs, drop_consumed ob trs ords)"
  using assms
proof (induction trs arbitrary: evs ords)
  case Nil
  then show ?case by (simp add: drop_consumed_def)
next
  case (Cons tr trs)
  let ?ords = "if Order_lookup (tr_MakerOrderID tr) ob = None then ords(tr_MakerOrderID tr := None) else ords"
  have "trade_batch seq cmd i ?ords trs = trade_batch seq cmd i ords trs" for i
  proof (rule trade_batch_cong)
    fix x assume "x \<in> set trs"
    then have "tr_MakerOrderID x \<noteq> tr_MakerOrderID tr" using Cons.prems by (metis distinct.simps(2) image_eqI list.simps(9) set_map)
    then show "?ords (tr_MakerOrderID x) = ords (tr_MakerOrderID x)" by simp
  qed
  moreover have "drop_consumed ob trs ?ords = drop_consumed ob (tr # trs) ords"
    by (auto simp: drop_consumed_def fun_eq_iff)
  ultimately show ?case using Cons by (simp add: maker_of_def)
qed

lemma trade_batch_tags:
  "map (\<lambda>v. (ev_Seq v, ev_Index v)) (trade_batch seq cmd i ords trs) = map (\<lambda>i. (seq, i)) [i..<i + length trs]"
  by (induction trs arbitrary: i) (simp_all add: trade_event_def zero_Event_def upt_rec)

lemma length_trade_batch [simp]: "length (trade_batch seq cmd i ords trs) = length trs"
  by (induction trs arbitrary: i) simp_all

lemma tagged_accept: "tagged seq (accepted seq cmd # trade_batch seq cmd (Suc 0) ords trs)"
  by (simp add: tagged_def trade_batch_tags accepted_def zero_Event_def upt_rec)

lemma tagged_single: "ev_Seq v = seq \<Longrightarrow> ev_Index v = 0 \<Longrightarrow> tagged seq [v]"
  by (simp add: tagged_def)

text \<open>The two outcomes of placing an order, for both order types.\<close>

definition place_limit_price :: "Command \<Rightarrow> int64" where
  "place_limit_price cmd = (if cmd_Type cmd = CmdPlaceLimit then cmd_Price cmd else 0)"

lemma apply_place_cases:
  assumes inv: "book_inv ob" and ok: "cmd_ok cmd"
  obtains
    (rejected) err where "apply_place seq cmd ob e = Some (set_book (cmd_Symbol cmd) ob e, [reject seq cmd (ob_error_msg err)])"
  | (placed) ob' ts where
      "placed (cmd_OrderID cmd) (cmd_Side cmd) (place_limit_price cmd) (cmd_Qty cmd)
         (\<lambda>k. Order_lookup k ob) (\<lambda>k. Order_lookup k ob') ts"
      "book_inv ob'"
      "apply_place seq cmd ob e = Some ((set_book (cmd_Symbol cmd) ob' e)\<lparr>eg_orders :=
         (if Order_lookup (cmd_OrderID cmd) ob' \<noteq> None
          then (drop_consumed ob' ts (eg_orders e))(cmd_OrderID cmd \<mapsto> \<lparr>own_userID = cmd_UserID cmd,
             own_side = cmd_Side cmd, own_symbol = cmd_Symbol cmd\<rparr>)
          else drop_consumed ob' ts (eg_orders e))\<rparr>,
         accepted seq cmd # trade_batch seq cmd (Suc 0) (eg_orders e) ts)"
proof -
  let ?r = "if cmd_Type cmd = CmdPlaceLimit
     then PlaceLimit (cmd_OrderID cmd) (cmd_Side cmd) (cmd_Price cmd) (cmd_Qty cmd) ob
     else PlaceMarket (cmd_OrderID cmd) (cmd_Side cmd) (cmd_Qty cmd) ob"
  have i64: "in_int64 (cmd_Price cmd)" "in_int64 (cmd_Qty cmd)" using ok by (simp_all add: cmd_ok_def)
  obtain ob' res where r: "?r = Some (ob', res)" "book_inv ob'"
    using ob.limit_total [OF inv i64] ob.market_total [OF inv i64(2)] by (metis (no_types))
  show thesis
  proof (cases res)
    case (Inl err)
    with r have "ob' = ob" using ob.limit_err [OF inv] ob.market_err [OF inv] by (auto split: if_splits)
    with Inl r show thesis by (intro rejected [of err]) (simp add: apply_place_def)
  next
    case (Inr ts)
    have pl: "placed (cmd_OrderID cmd) (cmd_Side cmd) (place_limit_price cmd) (cmd_Qty cmd)
         (\<lambda>k. Order_lookup k ob) (\<lambda>k. Order_lookup k ob') ts"
      using r(1) Inr ob.limit_ok [OF inv i64] ob.market_ok [OF inv i64(2)]
      by (auto simp: place_limit_price_def split: if_splits)
    then have "distinct (map tr_MakerOrderID ts)" by (simp add: placed_def)
    from trade_events_eq [OF this, of seq cmd ob' "[accepted seq cmd]" "eg_orders e"] pl r Inr
    show thesis by (intro placed [of ob' ts]) (simp_all add: apply_place_def)
  qed
qed

lemma set_book_sel [simp]:
  "eg_books (set_book s ob e) = (eg_books e)(s \<mapsto> ob)" "eg_orders (set_book s ob e) = eg_orders e"
  "eg_halted (set_book s ob e) = eg_halted e"
  by (simp_all add: set_book_def)

lemma set_book_same: "eg_books e s = Some ob \<Longrightarrow> set_book s ob e = e"
  by (simp add: set_book_def fun_upd_idem)

lemma apply_cancel_cases:
  assumes inv: "book_inv ob" and bk: "eg_books e (cmd_Symbol cmd) = Some ob"
  obtains
    (refused) reason where "apply_cancel seq cmd ob e = Some (e, [reject seq cmd reason])"
      "reason = ''not order owner'' \<or> Order_lookup (cmd_OrderID cmd) ob = None"
  | (removed) ob' c where "Order_lookup (cmd_OrderID cmd) ob = Some c" "book_inv ob'"
      "\<And>k. Order_lookup k ob' = (if k = cmd_OrderID cmd then None else Order_lookup k ob)"
      "apply_cancel seq cmd ob e = Some ((set_book (cmd_Symbol cmd) ob' e)
         \<lparr>eg_orders := (eg_orders e)(cmd_OrderID cmd := None)\<rparr>,
         [cancelled seq cmd c (eg_orders e (cmd_OrderID cmd))])"
      "cmd_UserID cmd = 0 \<or> (\<forall>w. eg_orders e (cmd_OrderID cmd) = Some w \<longrightarrow> own_userID w = cmd_UserID cmd)"
proof (cases "cmd_UserID cmd \<noteq> 0 \<and> eg_orders e (cmd_OrderID cmd) \<noteq> None
    \<and> own_userID (the (eg_orders e (cmd_OrderID cmd))) \<noteq> cmd_UserID cmd")
  case True
  then show thesis by (intro refused [of "''not order owner''"]) (simp_all add: apply_cancel_def)
next
  case False
  obtain ob' res where r: "Cancel (cmd_OrderID cmd) ob = Some (ob', res)" "book_inv ob'"
    using ob.cancel_total [OF inv] by blast
  show thesis
  proof (cases res)
    case (Inl err)
    with r(1) ob.cancel_err [OF inv] have "ob' = ob" "Order_lookup (cmd_OrderID cmd) ob = None" by auto
    with False Inl r(1) set_book_same [OF bk] show thesis
      by (intro refused [of "ob_error_msg err"]) (auto simp: apply_cancel_def Let_def)
  next
    case (Inr c)
    with r(1) ob.cancel_ok [OF inv] have
      "Order_lookup (cmd_OrderID cmd) ob = Some c"
      "\<And>k. Order_lookup k ob' = (if k = cmd_OrderID cmd then None else Order_lookup k ob)" by auto
    with False Inr r show thesis by (intro removed [of c ob']) (auto simp: apply_cancel_def Let_def)
  qed
qed

lemma engine_invD:
  "engine_inv e \<Longrightarrow> eg_books e s = Some ob \<Longrightarrow> book_inv ob"
  "engine_inv e \<Longrightarrow> eg_orders e k = Some w \<Longrightarrow> eg_books e (own_symbol w) \<noteq> None"
  by (auto simp: engine_inv_def)

lemma tagged_reject [simp]: "tagged seq [reject seq cmd r]"
  by (simp add: tagged_single reject_def zero_Event_def)

lemma tagged_cancelled [simp]: "tagged seq [cancelled seq cmd c w]"
  by (intro tagged_single) (simp_all add: cancelled_def zero_Event_def Let_def split: option.split)

text \<open>Every command is applied: no panic, the invariant is kept, and the events are numbered.\<close>

lemma apply_total:
  assumes inv: "engine_inv e" and ok: "cmd_ok cmd"
  shows "\<exists>e' evs. apply_cmd seq cmd e = Some (e', evs) \<and> engine_inv e' \<and> dom (eg_books e') = dom (eg_books e)
    \<and> eg_halted e' = eg_halted e \<and> evs \<noteq> [] \<and> tagged seq evs"
proof (cases "eg_books e (cmd_Symbol cmd)")
  case None
  with inv show ?thesis by (simp add: apply_cmd_def)
next
  case (Some ob)
  note bi = engine_invD(1) [OF inv Some]
  have keep: "engine_inv ((set_book (cmd_Symbol cmd) ob' e)\<lparr>eg_orders := ords\<rparr>)"
    if "book_inv ob'" "\<And>k w. ords k = Some w \<Longrightarrow> eg_orders e k = Some w \<or> own_symbol w = cmd_Symbol cmd" for ob' ords
    using that inv Some by (fastforce simp: engine_inv_def)
  have dm: "insert (cmd_Symbol cmd) (dom (eg_books e)) = dom (eg_books e)" using Some by auto
  consider (place) "cmd_Type cmd = CmdPlaceLimit \<or> cmd_Type cmd = CmdPlaceMarket"
    | (cancel) "cmd_Type cmd = CmdCancel" "\<not> (cmd_Type cmd = CmdPlaceLimit \<or> cmd_Type cmd = CmdPlaceMarket)"
    | (other) "\<not> (cmd_Type cmd = CmdPlaceLimit \<or> cmd_Type cmd = CmdPlaceMarket)" "cmd_Type cmd \<noteq> CmdCancel" by blast
  then show ?thesis
  proof cases
    case place
    then have ap: "apply_cmd seq cmd e = apply_place seq cmd ob e" using Some by (simp add: apply_cmd_def)
    show ?thesis
      using bi ok
    proof (cases rule: apply_place_cases [of ob cmd seq e])
      case (rejected err)
      then show ?thesis using inv set_book_same [OF Some] by (simp add: ap)
    next
      case (placed ob' ts)
      have "engine_inv ((set_book (cmd_Symbol cmd) ob' e)\<lparr>eg_orders :=
         (if Order_lookup (cmd_OrderID cmd) ob' \<noteq> None
          then (drop_consumed ob' ts (eg_orders e))(cmd_OrderID cmd \<mapsto> \<lparr>own_userID = cmd_UserID cmd,
             own_side = cmd_Side cmd, own_symbol = cmd_Symbol cmd\<rparr>)
          else drop_consumed ob' ts (eg_orders e))\<rparr>)"
        by (rule keep [OF placed(2)]) (auto simp: drop_consumed_def split: if_splits)
      with placed show ?thesis by (simp add: ap dm tagged_accept)
    qed
  next
    case cancel
    then have ap: "apply_cmd seq cmd e = apply_cancel seq cmd ob e" using Some by (auto simp: apply_cmd_def)
    show ?thesis
      using bi Some
    proof (cases rule: apply_cancel_cases [of ob e cmd seq])
      case (refused reason)
      then show ?thesis using inv by (simp add: ap)
    next
      case (removed ob' c)
      have "engine_inv ((set_book (cmd_Symbol cmd) ob' e)\<lparr>eg_orders := (eg_orders e)(cmd_OrderID cmd := None)\<rparr>)"
        by (rule keep [OF removed(2)]) (auto split: if_splits)
      with removed show ?thesis by (simp add: ap dm)
    qed
  next
    case other
    then show ?thesis using Some inv by (simp add: apply_cmd_def)
  qed
qed

lemma apply_inv:
  assumes "engine_inv e" "cmd_ok cmd" "apply_cmd seq cmd e = Some (e', evs)"
  shows "engine_inv e'" "dom (eg_books e') = dom (eg_books e)" "tagged seq evs" "evs \<noteq> []"
  using apply_total [OF assms(1,2), of seq] assms(3) by auto

section \<open>The attribution map is exactly the set of resting orders\<close>

text \<open>
  \<open>orders\<close> is keyed by order id alone, across symbols. It is exact as long as an id that
  rests in one symbol is not reused in another one.
\<close>

definition orders_exact :: "Engine \<Rightarrow> bool" where
  "orders_exact e \<longleftrightarrow>
     (\<forall>k w. eg_orders e k = Some w \<longrightarrow> (\<exists>ob x. eg_books e (own_symbol w) = Some ob
        \<and> Order_lookup k ob = Some x \<and> ord_Side x = own_side w))
     \<and> (\<forall>s ob k. eg_books e s = Some ob \<and> Order_lookup k ob \<noteq> None \<longrightarrow>
          (\<exists>w. eg_orders e k = Some w \<and> own_symbol w = s))"

definition fresh_id :: "Command \<Rightarrow> Engine \<Rightarrow> bool" where
  "fresh_id cmd e \<longleftrightarrow> cmd_Type cmd = CmdCancel \<or>
     (\<forall>s ob. eg_books e s = Some ob \<and> s \<noteq> cmd_Symbol cmd \<longrightarrow> Order_lookup (cmd_OrderID cmd) ob = None)"

lemma orders_exactD1:
  assumes "orders_exact e" "eg_orders e k = Some w"
  obtains ob x where "eg_books e (own_symbol w) = Some ob" "Order_lookup k ob = Some x" "ord_Side x = own_side w"
  using assms unfolding orders_exact_def by blast

lemma orders_exactD2:
  assumes "orders_exact e" "eg_books e s = Some ob" "Order_lookup k ob = Some x"
  obtains w where "eg_orders e k = Some w" "own_symbol w = s" "own_side w = ord_Side x"
proof -
  obtain w where w: "eg_orders e k = Some w" "own_symbol w = s"
    using assms unfolding orders_exact_def by blast
  obtain b y where "eg_books e (own_symbol w) = Some b" "Order_lookup k b = Some y" "ord_Side y = own_side w"
    by (rule orders_exactD1 [OF assms(1) w(1)])
  with w assms(2,3) show thesis by (intro that [OF w]) simp
qed

text \<open>How a lookup changes across a placed order: nothing new but the taker, sides are kept.\<close>

lemma placed_lookup:
  assumes pl: "placed oid s p q lk lk' ts" and k: "k \<noteq> oid" and pos: "\<And>x. lk k = Some x \<Longrightarrow> 0 < ord_Remaining x"
  shows "lk' k = Some y \<Longrightarrow> \<exists>x. lk k = Some x \<and> ord_Side x = ord_Side y"
    and "lk k = Some x \<Longrightarrow> lk' k = None \<Longrightarrow> k \<in> tr_MakerOrderID ` set ts"
    and "lk k = Some x \<Longrightarrow> lk' k \<noteq> None \<Longrightarrow> \<exists>y. lk' k = Some y \<and> ord_Side y = ord_Side x"
proof -
  have af: "lk' k = after_fill (filled k ts) (lk k)" using pl k by (simp add: placed_def)
  show "lk' k = Some y \<Longrightarrow> \<exists>x. lk k = Some x \<and> ord_Side x = ord_Side y"
    using af by (cases "lk k") (auto split: if_splits)
  show "lk k = Some x \<Longrightarrow> lk' k \<noteq> None \<Longrightarrow> \<exists>y. lk' k = Some y \<and> ord_Side y = ord_Side x"
    using af by (auto split: if_splits)
  show "lk k = Some x \<Longrightarrow> lk' k = None \<Longrightarrow> k \<in> tr_MakerOrderID ` set ts"
    using placed_unfilled [OF pl k _ pos] by auto
qed

lemma lookup_pos: "book_inv ob \<Longrightarrow> Order_lookup k ob = Some x \<Longrightarrow> 0 < ord_Remaining x"
  using ob.look_wf [of ob k x] by (simp add: order_wf_def)

lemma orders_exact_place:
  assumes inv: "engine_inv e" and ex: "orders_exact e" and bk: "eg_books e sym' = Some ob"
    and fr: "\<And>s b. eg_books e s = Some b \<Longrightarrow> s \<noteq> sym' \<Longrightarrow> Order_lookup oid b = None"
    and pl: "placed oid sd p q (\<lambda>k. Order_lookup k ob) (\<lambda>k. Order_lookup k ob') ts"
    and w: "own_side wo = sd" "own_symbol wo = sym'"
  shows "orders_exact ((set_book sym' ob' e)\<lparr>eg_orders :=
     (if Order_lookup oid ob' \<noteq> None then (drop_consumed ob' ts (eg_orders e))(oid \<mapsto> wo)
      else drop_consumed ob' ts (eg_orders e))\<rparr>)" (is "orders_exact ?e'")
proof -
  note pos = lookup_pos [OF engine_invD(1) [OF inv bk]]
  have none: "Order_lookup oid ob = None" using pl by (simp add: placed_def)
  have noid: "eg_orders e oid = None"
  proof (cases "eg_orders e oid")
    case (Some w)
    with orders_exactD1 [OF ex Some] fr none bk show ?thesis by (metis option.distinct(1) option.inject)
  qed
  have side': "ord_Side x = sd" if "Order_lookup oid ob' = Some x" for x
    using pl that by (auto simp: placed_def rested_def split: if_splits)
  have o': "eg_orders ?e' k = (if k = oid then (if Order_lookup oid ob' = None then None else Some wo)
      else if k \<in> tr_MakerOrderID ` set ts \<and> Order_lookup k ob' = None then None else eg_orders e k)" for k
    using noid by (auto simp: drop_consumed_def)
  have b': "eg_books ?e' s = (if s = sym' then Some ob' else eg_books e s)" for s by simp
  have 1: "\<exists>b x. eg_books ?e' (own_symbol v) = Some b \<and> Order_lookup k b = Some x \<and> ord_Side x = own_side v"
    if "eg_orders ?e' k = Some v" for k v
  proof (cases "k = oid")
    case True
    then show ?thesis using that w side' unfolding o' b' by (auto split: if_splits)
  next
    case False
    then have v: "eg_orders e k = Some v" "\<not> (k \<in> tr_MakerOrderID ` set ts \<and> Order_lookup k ob' = None)"
      using that unfolding o' by (auto split: if_splits)
    from orders_exactD1 [OF ex v(1)] obtain b x where b: "eg_books e (own_symbol v) = Some b"
      "Order_lookup k b = Some x" "ord_Side x = own_side v" .
    show ?thesis
    proof (cases "own_symbol v = sym'")
      case True
      with b bk have lk: "Order_lookup k ob = Some x" by simp
      with placed_lookup(2,3) [OF pl False, of x] pos v(2) b(3) True show ?thesis unfolding b' by fastforce
    qed (use b in \<open>simp\<close>)
  qed
  have 2: "\<exists>v. eg_orders ?e' k = Some v \<and> own_symbol v = s"
    if bs: "eg_books ?e' s = Some b" "Order_lookup k b = Some x" for s b k x
  proof (cases "k = oid")
    case True
    then show ?thesis using bs w fr [of s b] none unfolding o' b' by (auto split: if_splits)
  next
    case False
    have "\<exists>y. Order_lookup k (if s = sym' then ob else b) = Some y"
      using bs placed_lookup(1) [OF pl False, of x] pos unfolding b' by (auto split: if_splits)
    moreover have "eg_books e s = Some (if s = sym' then ob else b)" using bs bk unfolding b' by (auto split: if_splits)
    ultimately obtain v where v: "eg_orders e k = Some v" "own_symbol v = s" using orders_exactD2 [OF ex] by metis
    have "Order_lookup k ob' \<noteq> None \<or> k \<notin> tr_MakerOrderID ` set ts"
    proof (cases "s = sym'")
      case True
      with bs show ?thesis unfolding b' by auto
    next
      case other: False
      have "Order_lookup k ob = None"
      proof (cases "Order_lookup k ob")
        case (Some z)
        from orders_exactD2 [OF ex bk Some] v other show ?thesis by auto
      qed
      then have "k \<notin> tr_MakerOrderID ` set ts" using placed_maker [OF pl] by (metis (no_types, lifting) imageE option.distinct(1))
      then show ?thesis ..
    qed
    with v False show ?thesis unfolding o' by auto
  qed
  show ?thesis
    unfolding orders_exact_def
  proof (intro conjI allI impI, erule 1)
    fix s b k
    assume "eg_books ?e' s = Some b \<and> Order_lookup k b \<noteq> None"
    then obtain x where "eg_books ?e' s = Some b" "Order_lookup k b = Some x" by blast
    then show "\<exists>v. eg_orders ?e' k = Some v \<and> own_symbol v = s" by (rule 2)
  qed
qed

lemma orders_exact_cancel:
  assumes ex: "orders_exact e" and bk: "eg_books e s0 = Some ob" and live: "Order_lookup oid ob = Some x0"
    and lk: "\<And>k. Order_lookup k ob' = (if k = oid then None else Order_lookup k ob)"
  shows "orders_exact ((set_book s0 ob' e)\<lparr>eg_orders := (eg_orders e)(oid := None)\<rparr>)" (is "orders_exact ?e'")
proof -
  obtain w0 where w0: "eg_orders e oid = Some w0" "own_symbol w0 = s0" by (rule orders_exactD2 [OF ex bk live])
  have 1: "\<exists>b x. eg_books ?e' (own_symbol v) = Some b \<and> Order_lookup k b = Some x \<and> ord_Side x = own_side v"
    if "eg_orders ?e' k = Some v" for k v
  proof -
    have k: "k \<noteq> oid" "eg_orders e k = Some v" using that by (auto split: if_splits)
    from orders_exactD1 [OF ex k(2)] obtain b x where "eg_books e (own_symbol v) = Some b"
      "Order_lookup k b = Some x" "ord_Side x = own_side v" .
    with bk lk k(1) show ?thesis by (cases "own_symbol v = s0") auto
  qed
  have 2: "\<exists>v. eg_orders ?e' k = Some v \<and> own_symbol v = s"
    if bs: "eg_books ?e' s = Some b" "Order_lookup k b = Some x" for s b k x
  proof -
    obtain b0 where b0: "eg_books e s = Some b0" "Order_lookup k b0 = Some x" "s = s0 \<Longrightarrow> k \<noteq> oid"
      using bs bk lk by (cases "s = s0") (auto split: if_splits)
    obtain v where "eg_orders e k = Some v" "own_symbol v = s" by (rule orders_exactD2 [OF ex b0(1,2)])
    with b0(3) w0 show ?thesis by (cases "k = oid") auto
  qed
  show ?thesis
    unfolding orders_exact_def
  proof (intro conjI allI impI, erule 1)
    fix s b k
    assume "eg_books ?e' s = Some b \<and> Order_lookup k b \<noteq> None"
    then obtain x where "eg_books ?e' s = Some b" "Order_lookup k b = Some x" by blast
    then show "\<exists>v. eg_orders ?e' k = Some v \<and> own_symbol v = s" by (rule 2)
  qed
qed

lemma apply_exact:
  assumes inv: "engine_inv e" and ok: "cmd_ok cmd" and ex: "orders_exact e" and fr: "fresh_id cmd e"
    and ap: "apply_cmd seq cmd e = Some (e', evs)"
  shows "orders_exact e'"
proof (cases "eg_books e (cmd_Symbol cmd)")
  case None
  with ex ap show ?thesis by (simp add: apply_cmd_def)
next
  case (Some ob)
  note bi = engine_invD(1) [OF inv Some]
  consider (place) "cmd_Type cmd = CmdPlaceLimit \<or> cmd_Type cmd = CmdPlaceMarket"
    | (cancel) "cmd_Type cmd = CmdCancel" "\<not> (cmd_Type cmd = CmdPlaceLimit \<or> cmd_Type cmd = CmdPlaceMarket)"
    | (other) "\<not> (cmd_Type cmd = CmdPlaceLimit \<or> cmd_Type cmd = CmdPlaceMarket)" "cmd_Type cmd \<noteq> CmdCancel" by blast
  then show ?thesis
  proof cases
    case place
    then have ap': "apply_place seq cmd ob e = Some (e', evs)" using Some ap by (simp add: apply_cmd_def)
    have fr': "\<And>s b. eg_books e s = Some b \<Longrightarrow> s \<noteq> cmd_Symbol cmd \<Longrightarrow> Order_lookup (cmd_OrderID cmd) b = None"
      using fr place by (auto simp: fresh_id_def CmdPlaceLimit_def CmdPlaceMarket_def CmdCancel_def)
    show ?thesis
      using bi ok
    proof (cases rule: apply_place_cases [of ob cmd seq e])
      case (rejected err)
      then show ?thesis using ex ap' set_book_same [OF Some] by simp
    next
      case (placed ob' ts)
      from orders_exact_place [OF inv ex Some fr' placed(1)] placed(3) ap' show ?thesis by simp
    qed
  next
    case cancel
    then have ap': "apply_cancel seq cmd ob e = Some (e', evs)" using Some ap by (auto simp: apply_cmd_def)
    show ?thesis
      using bi Some
    proof (cases rule: apply_cancel_cases [of ob e cmd seq])
      case (refused reason)
      then show ?thesis using ex ap' by simp
    next
      case (removed ob' c)
      from orders_exact_cancel [OF ex Some removed(1,3)] removed(4) ap' show ?thesis by simp
    qed
  next
    case other
    then show ?thesis using Some ap ex by (simp add: apply_cmd_def)
  qed
qed

text \<open>Recovery ignores which symbols are halted, and so does applying a command.\<close>

lemma apply_halted:
  "apply_cmd seq cmd (e\<lparr>eg_halted := h\<rparr>) = map_option (\<lambda>(e', evs). (e'\<lparr>eg_halted := h\<rparr>, evs)) (apply_cmd seq cmd e)"
  by (auto simp: apply_cmd_def apply_place_def apply_cancel_def Let_def set_book_def
      split: option.split sum.split prod.split)

lemma empty_engine_books: "eg_books (empty_engine symbols) s = (if s \<in> set symbols then Some (New_book s) else None)"
proof -
  have "foldl (\<lambda>m s. m(s \<mapsto> New_book s)) m symbols s = (if s \<in> set symbols then Some (New_book s) else m s)" for m
    by (induction symbols arbitrary: m) auto
  then show ?thesis by (simp add: empty_engine_def)
qed

lemma empty_engine_inv: "engine_inv (empty_engine symbols)" "orders_exact (empty_engine symbols)"
proof -
  have "eg_orders (empty_engine symbols) = Map.empty" by (simp add: empty_engine_def)
  moreover have "Order_lookup k (New_book s) = None" for k s by (simp add: Order_lookup_def New_book_def)
  ultimately show "engine_inv (empty_engine symbols)" "orders_exact (empty_engine symbols)"
    using New_book_inv by (auto simp: engine_inv_def orders_exact_def empty_engine_books split: if_splits)
qed

end
