(* ===== verification/Journal.thy ===== *)
theory Journal
  imports Engine
begin

text \<open>
  The journal of \<open>services/matching-engine/engine/journal.go\<close> and recovery. The locale
  \<open>journal\<close> is the contract of the \<open>Journal\<close> interface; inside it the recovery theorem and
  the numbering of the events are proved once. \<open>MemJournal\<close> and the fault-free
  \<open>FileJournal\<close> are interpreted in it; the file journal under write and sync errors is modelled
  beside it.
\<close>

section \<open>The journal contract and recovery\<close>

text \<open>\<open>Replay\<close> on the list of logged commands: sequence numbers by position, from 1.\<close>

fun replay_list :: "'s replay_fn \<Rightarrow> nat \<Rightarrow> Command list \<Rightarrow> 's \<Rightarrow> (string + 's) option" where
  "replay_list fn i [] s = Some (Inr s)"
| "replay_list fn i (c # cs) s =
     (case fn (wrap_u64 (int i)) c s of
        None \<Rightarrow> None
      | Some (Inl err) \<Rightarrow> Some (Inl err)
      | Some (Inr s) \<Rightarrow> replay_list fn (Suc i) cs s)"

lemma replay_list_append:
  "replay_list fn i (xs @ ys) s = (case replay_list fn i xs s of
     None \<Rightarrow> None | Some (Inl err) \<Rightarrow> Some (Inl err)
   | Some (Inr s) \<Rightarrow> replay_list fn (i + length xs) ys s)"
  by (induction xs arbitrary: i s) (auto split: option.split sum.split)

text \<open>What arrives at the engine: commands from \<open>Submit\<close> and control-plane calls.\<close>

datatype request = Cmd Command | HaltReq string | ResumeReq string

fun serve :: "(Command \<Rightarrow> 'j \<Rightarrow> 'j \<times> (string + uint64)) \<Rightarrow> request \<Rightarrow> Engine \<times> 'j \<Rightarrow>
    ((Engine \<times> 'j) \<times> Event list list) option" where
  "serve app_j (Cmd c) ej = map_option (\<lambda>(ej, sunk, reply). (ej, sunk)) (Run_step app_j c ej)"
| "serve app_j (HaltReq s) ej = Some ((Halt s (fst ej), snd ej), [])"
| "serve app_j (ResumeReq s) ej = Some ((Resume s (fst ej), snd ej), [])"

fun serve_all :: "(Command \<Rightarrow> 'j \<Rightarrow> 'j \<times> (string + uint64)) \<Rightarrow> request list \<Rightarrow> Engine \<times> 'j \<Rightarrow>
    ((Engine \<times> 'j) \<times> Event list list) option" where
  "serve_all app_j [] ej = Some (ej, [])"
| "serve_all app_j (r # rs) ej = Option.bind (serve app_j r ej) (\<lambda>(ej, sunk).
     map_option (\<lambda>(ej, sunk'). (ej, sunk @ sunk')) (serve_all app_j rs ej))"

fun request_ok :: "(Command \<Rightarrow> bool) \<Rightarrow> request \<Rightarrow> bool" where
  "request_ok P (Cmd c) \<longleftrightarrow> P c"
| "request_ok P (HaltReq s) \<longleftrightarrow> True"
| "request_ok P (ResumeReq s) \<longleftrightarrow> True"

locale journal =
  fixes jinv :: "'j \<Rightarrow> bool"
    and log_of :: "'j \<Rightarrow> Command list"
    and app_j :: "Command \<Rightarrow> 'j \<Rightarrow> 'j \<times> (string + uint64)"
    and replay :: "'j \<Rightarrow> Engine replay_fn \<Rightarrow> Engine \<Rightarrow> (string + Engine) option"
    and storable :: "Command \<Rightarrow> bool"
  assumes append_ok: "jinv j \<Longrightarrow> storable c \<Longrightarrow> \<exists>j'. app_j c j = (j', Inr (wrap_u64 (int (length (log_of j) + 1))))
      \<and> jinv j' \<and> log_of j' = log_of j @ [c]"
    and replay_log: "jinv j \<Longrightarrow> replay j fn e = replay_list fn 1 (log_of j) e"
begin

text \<open>The engine is what replaying its journal gives, up to the halted symbols.\<close>

definition synced :: "string list \<Rightarrow> Engine \<times> 'j \<Rightarrow> bool" where
  "synced symbols ej \<longleftrightarrow> (case ej of (e, j) \<Rightarrow> jinv j \<and> engine_inv e
     \<and> list_all cmd_ok (log_of j)
     \<and> replay_list (\<lambda>seq cmd e. map_option (\<lambda>(e, _). Inr e) (apply_cmd seq cmd e)) 1 (log_of j) (empty_engine symbols)
         = Some (Inr (e\<lparr>eg_halted := Map.empty\<rparr>)))"

lemma synced_init: "jinv j \<Longrightarrow> log_of j = [] \<Longrightarrow> synced symbols (empty_engine symbols, j)"
proof -
  have "(empty_engine symbols)\<lparr>eg_halted := Map.empty\<rparr> = empty_engine symbols" by (simp add: empty_engine_def)
  then show "jinv j \<Longrightarrow> log_of j = [] \<Longrightarrow> synced symbols (empty_engine symbols, j)"
    by (simp add: synced_def empty_engine_inv)
qed

lemma engine_inv_halted [simp]: "engine_inv (e\<lparr>eg_halted := h\<rparr>) = engine_inv e"
  by (simp add: engine_inv_def)

lemma synced_control:
  "synced symbols (e, j) \<Longrightarrow> synced symbols (Halt s e, j)"
  "synced symbols (e, j) \<Longrightarrow> synced symbols (Resume s e, j)"
  by (simp_all add: synced_def Halt_def Resume_def)

text \<open>
  One served command: either it was refused by admission control or it is the next entry of
  the log, applied and handed to the sink.
\<close>

lemma Run_step_synced:
  assumes "synced symbols (e, j)" "cmd_ok c" "storable c"
  obtains (halted) "cmd_Type c \<noteq> CmdCancel" "IsHalted (cmd_Symbol c) e"
      "Run_step app_j c (e, j) = Some ((e, j), [], Inr [halted_event c])"
  | (applied) e' j' evs where "apply_cmd (wrap_u64 (int (length (log_of j) + 1))) c e = Some (e', evs)"
      "log_of j' = log_of j @ [c]" "synced symbols (e', j')" "tagged (wrap_u64 (int (length (log_of j) + 1))) evs"
      "Run_step app_j c (e, j) = Some ((e', j'), [evs], Inr evs)"
proof (cases "cmd_Type c \<noteq> CmdCancel \<and> IsHalted (cmd_Symbol c) e")
  case True
  then show thesis by (intro halted) (simp_all add: Run_step_def)
next
  case False
  let ?seq = "wrap_u64 (int (length (log_of j) + 1))"
  have s: "jinv j" "engine_inv e" "list_all cmd_ok (log_of j)"
    "replay_list (\<lambda>seq cmd e. map_option (\<lambda>(e, _). Inr e) (apply_cmd seq cmd e)) 1 (log_of j) (empty_engine symbols)
       = Some (Inr (e\<lparr>eg_halted := Map.empty\<rparr>))"
    using assms(1) by (simp_all add: synced_def)
  obtain j' where j': "app_j c j = (j', Inr ?seq)" "jinv j'" "log_of j' = log_of j @ [c]"
    using append_ok [OF s(1) assms(3)] by blast
  obtain e' evs where a: "apply_cmd ?seq c e = Some (e', evs)" "engine_inv e'" "evs \<noteq> []" "tagged ?seq evs"
    using apply_total [OF s(2) assms(2), of ?seq] by blast
  have "synced symbols (e', j')"
    using s j' a assms(2) by (simp add: synced_def replay_list_append apply_halted)
  then show thesis using False j' a by (intro applied [of e' evs j']) (auto simp: Run_step_def)
qed

lemma serve_all_synced:
  assumes "synced symbols ej" "list_all (request_ok (\<lambda>c. cmd_ok c \<and> storable c)) rs"
  shows "\<exists>ej' sunk. serve_all app_j rs ej = Some (ej', sunk) \<and> synced symbols ej'"
  using assms
proof (induction rs arbitrary: ej)
  case (Cons r rs)
  obtain e j where ej: "ej = (e, j)" by (cases ej)
  have "\<exists>ej1 sunk. serve app_j r ej = Some (ej1, sunk) \<and> synced symbols ej1"
  proof (cases r)
    case (Cmd c)
    with Cons.prems have "cmd_ok c" "storable c" by simp_all
    with Cons.prems(1) [unfolded ej] show ?thesis
      using Cons.prems(1) by (cases rule: Run_step_synced) (auto simp: Cmd ej)
  qed (use Cons.prems(1) synced_control in \<open>auto simp: ej\<close>)
  then obtain ej1 sunk where 1: "serve app_j r ej = Some (ej1, sunk)" "synced symbols ej1" by blast
  with Cons.IH [OF 1(2)] Cons.prems(2) show ?case by auto
qed simp

theorem recovery:
  assumes "jinv j" "log_of j = []" "list_all (request_ok (\<lambda>c. cmd_ok c \<and> storable c)) rs"
  shows "\<exists>e' j' sunk. serve_all app_j rs (empty_engine symbols, j) = Some ((e', j'), sunk)
    \<and> New_engine symbols (replay j') = Some (Inr (e'\<lparr>eg_halted := Map.empty\<rparr>))"
proof -
  from serve_all_synced [OF synced_init [OF assms(1,2)] assms(3)] obtain e' j' sunk where
    "serve_all app_j rs (empty_engine symbols, j) = Some ((e', j'), sunk)" "synced symbols (e', j')"
    by fastforce
  then show ?thesis by (auto simp: New_engine_def replay_log synced_def)
qed

text \<open>
  The batches handed to the sink are numbered by consecutive log positions.
\<close>

lemma serve_all_batches:
  assumes "synced symbols ej" "list_all (request_ok (\<lambda>c. cmd_ok c \<and> storable c)) rs"
    and "serve_all app_j rs ej = Some (ej', sunk)"
  shows "length (log_of (snd ej')) = length (log_of (snd ej)) + length sunk
    \<and> (\<forall>i < length sunk. tagged (wrap_u64 (int (length (log_of (snd ej)) + 1 + i))) (sunk ! i))"
  using assms
proof (induction rs arbitrary: ej sunk)
  case (Cons r rs)
  obtain e j where ej: "ej = (e, j)" by (cases ej)
  from Cons.prems(3) obtain ej1 s1 s2 where 1: "serve app_j r ej = Some (ej1, s1)"
    "serve_all app_j rs ej1 = Some (ej', s2)" "sunk = s1 @ s2"
    by (auto simp: bind_eq_Some_conv)
  have st: "synced symbols ej1 \<and> ((log_of (snd ej1) = log_of j \<and> s1 = []) \<or>
      (\<exists>evs c. s1 = [evs] \<and> log_of (snd ej1) = log_of j @ [c] \<and> tagged (wrap_u64 (int (length (log_of j) + 1))) evs))"
  proof (cases r)
    case (Cmd c)
    with Cons.prems have "synced symbols (e, j)" "cmd_ok c" "storable c" by (simp_all add: ej)
    then show ?thesis
    proof (cases rule: Run_step_synced)
      case halted
      then show ?thesis using 1(1) Cons.prems(1) by (auto simp: Cmd ej)
    next
      case (applied e' j' evs)
      then show ?thesis using 1(1) by (auto simp: Cmd ej)
    qed
  qed (use Cons.prems(1) 1(1) synced_control in \<open>auto simp: ej\<close>)
  then have "synced symbols ej1" ..
  note ih = Cons.IH [OF this _ 1(2)]
  show ?case
    using st ih Cons.prems(2) 1(3)
    by (auto simp: ej nth_Cons add.assoc split: nat.split)
qed simp

end

section \<open>The in-memory journal\<close>

record MemJournal =
  mj_cmds :: "Command list"

definition MemJournal_Append :: "Command \<Rightarrow> MemJournal \<Rightarrow> MemJournal \<times> (string + uint64)" where
  "MemJournal_Append cmd j =
     (let j = j\<lparr>mj_cmds := mj_cmds j @ [cmd]\<rparr> in (j, Inr (wrap_u64 (int (length (mj_cmds j))))))"

definition MemJournal_Replay :: "MemJournal \<Rightarrow> 's replay_fn \<Rightarrow> 's \<Rightarrow> (string + 's) option" where
  "MemJournal_Replay j fn s = replay_list fn 1 (mj_cmds j) s"

interpretation mj: journal "\<lambda>_. True" mj_cmds MemJournal_Append MemJournal_Replay "\<lambda>_. True"
  by unfold_locales (simp_all add: MemJournal_Append_def MemJournal_Replay_def)

section \<open>The file journal\<close>

lemma strings_Cut_shorter: "s \<noteq> [] \<Longrightarrow> strings_Cut s sep = (b, a, f) \<Longrightarrow> length a < length s"
proof (induction s arbitrary: b)
  case (Cons c s)
  then show ?case by (cases "s = []") (auto split: if_splits prod.splits)
qed simp

text \<open>
  One JSON record per line. \<open>mar\<close> and \<open>unm\<close> are \<open>MarshalCommand\<close> and
  \<open>UnmarshalCommand\<close>, that is \<open>json.Marshal\<close> and \<open>json.Unmarshal\<close>. The outcome of
  the file operations of one \<open>Append\<close> is an argument: a failing \<open>Write\<close> may have
  written a prefix, and a failing \<open>Sync\<close> comes after the whole record was written.
\<close>

record FileJournal =
  fj_file :: string
  fj_next :: uint64

datatype append_io = IoOk | IoWriteErr nat string | IoSyncErr string

definition FileJournal_Append ::
  "(Command \<Rightarrow> string + string) \<Rightarrow> append_io \<Rightarrow> Command \<Rightarrow> FileJournal \<Rightarrow> FileJournal \<times> (string + uint64)" where
  "FileJournal_Append mar io cmd j =
     (case mar cmd of
        Inl err \<Rightarrow> (j, Inl err)
      | Inr b \<Rightarrow>
          (case io of
             IoWriteErr n err \<Rightarrow> (j\<lparr>fj_file := fj_file j @ take n (b @ [CHR 0x0A])\<rparr>, Inl err)
           | IoSyncErr err \<Rightarrow> (j\<lparr>fj_file := fj_file j @ (b @ [CHR 0x0A])\<rparr>, Inl err)
           | IoOk \<Rightarrow> (let j = j\<lparr>fj_file := fj_file j @ (b @ [CHR 0x0A])\<rparr>; seq = fj_next j
                    in (j\<lparr>fj_next := wrap_u64 (fj_next j + 1)\<rparr>, Inr seq))))"

text \<open>
  \<open>bufio.Scanner\<close> with \<open>ScanLines\<close>: lines without their newline and one trailing
  carriage return; a last line without newline counts; a line that does not fit the buffer of
  \<open>1<<20\<close> bytes together with its newline ends the scan with an error.
\<close>

definition max_token :: nat where "max_token = 1048576"

definition drop_cr :: "string \<Rightarrow> string" where
  "drop_cr l = (if l \<noteq> [] \<and> last l = CHR 0x0D then butlast l else l)"

function Replay_lines :: "(string \<Rightarrow> string + Command) \<Rightarrow> 's replay_fn \<Rightarrow> nat \<Rightarrow> string \<Rightarrow> 's \<Rightarrow> (string + 's) option" where
  "Replay_lines unm fn i fl s =
     (if fl = [] then Some (Inr s)
      else let (line, tl, more) = strings_Cut fl (CHR 0x0A)
           in if length line \<ge> max_token then Some (Inl ''bufio.Scanner: token too long'')
              else (case unm (drop_cr line) of
                      Inl err \<Rightarrow> Some (Inl (''journal: corrupt record '' @ fmt_d (wrap_u64 (int (Suc i))) @ '': '' @ err))
                    | Inr cmd \<Rightarrow>
                        (case fn (wrap_u64 (int (Suc i))) cmd s of
                           None \<Rightarrow> None
                         | Some (Inl err) \<Rightarrow> Some (Inl err)
                         | Some (Inr s) \<Rightarrow> if more then Replay_lines unm fn (Suc i) tl s else Some (Inr s))))"
  by pat_completeness auto

termination
  by (relation "measure (\<lambda>(unm, fn, i, fl, s). length fl)") (auto dest: strings_Cut_shorter [OF _ sym])

declare Replay_lines.simps [simp del]

definition FileJournal_Replay :: "(string \<Rightarrow> string + Command) \<Rightarrow> FileJournal \<Rightarrow> 's replay_fn \<Rightarrow> 's \<Rightarrow> (string + 's) option" where
  "FileJournal_Replay unm j fn s = Replay_lines unm fn 0 (fj_file j) s"

text \<open>Opening counts the records to resume the sequence; a corrupt record is an error.\<close>

definition OpenFileJournal :: "(string \<Rightarrow> string + Command) \<Rightarrow> string \<Rightarrow> (string + FileJournal) option" where
  "OpenFileJournal unm fl =
     (let j = \<lparr>fj_file = fl, fj_next = 1\<rparr>
      in map_option (map_sum (\<lambda>err. err) (\<lambda>n. j\<lparr>fj_next := n\<rparr>))
           (FileJournal_Replay unm j (\<lambda>seq _ _. Some (Inr (wrap_u64 (seq + 1)))) (fj_next j)))"

text \<open>
  A command that survives the journal: its record decodes to it again, is one line, and fits
  the scanner's buffer.
\<close>

definition record_ok :: "(Command \<Rightarrow> string + string) \<Rightarrow> (string \<Rightarrow> string + Command) \<Rightarrow> Command \<Rightarrow> bool" where
  "record_ok mar unm c \<longleftrightarrow> (case mar c of Inl _ \<Rightarrow> False
     | Inr b \<Rightarrow> unm b = Inr c \<and> CHR 0x0A \<notin> set b \<and> drop_cr b = b \<and> length b < max_token)"

definition record_of :: "(Command \<Rightarrow> string + string) \<Rightarrow> Command \<Rightarrow> string" where
  "record_of mar c = (case mar c of Inl _ \<Rightarrow> [] | Inr b \<Rightarrow> b @ [CHR 0x0A])"

definition fj_log :: "(string \<Rightarrow> string + Command) \<Rightarrow> FileJournal \<Rightarrow> Command list" where
  "fj_log unm j = (case FileJournal_Replay unm j (\<lambda>_ c cs. Some (Inr (cs @ [c]))) [] of
     Some (Inr cs) \<Rightarrow> cs | _ \<Rightarrow> [])"

definition fj_inv :: "(Command \<Rightarrow> string + string) \<Rightarrow> (string \<Rightarrow> string + Command) \<Rightarrow> FileJournal \<Rightarrow> bool" where
  "fj_inv mar unm j \<longleftrightarrow> (\<exists>cs. list_all (record_ok mar unm) cs \<and> fj_file j = concat (map (record_of mar) cs)
     \<and> fj_next j = wrap_u64 (int (length cs + 1)))"

lemma Replay_records:
  assumes "list_all (record_ok mar unm) cs"
  shows "Replay_lines unm fn i (concat (map (record_of mar) cs)) s = replay_list fn (Suc i) cs s"
  using assms
proof (induction cs arbitrary: i s)
  case Nil
  then show ?case by (simp add: Replay_lines.simps)
next
  case (Cons c cs)
  obtain b where b: "mar c = Inr b" "unm b = Inr c" "CHR 0x0A \<notin> set b" "drop_cr b = b" "length b < max_token"
    using Cons.prems by (auto simp: record_ok_def split: sum.splits)
  have cut: "strings_Cut (b @ CHR 0x0A # concat (map (record_of mar) cs)) (CHR 0x0A)
      = (b, concat (map (record_of mar) cs), True)"
    by (rule strings_Cut_found [OF b(3)])
  have "Replay_lines unm fn i (concat (map (record_of mar) (c # cs))) s
      = (case fn (wrap_u64 (int (Suc i))) c s of None \<Rightarrow> None | Some (Inl err) \<Rightarrow> Some (Inl err)
         | Some (Inr s) \<Rightarrow> Replay_lines unm fn (Suc i) (concat (map (record_of mar) cs)) s)"
    using b cut by (subst Replay_lines.simps) (simp add: record_of_def not_le split: option.split sum.split)
  also have "\<dots> = replay_list fn (Suc i) (c # cs) s"
    using Cons by (auto split: option.split sum.split)
  finally show ?case .
qed

lemma replay_list_collect:
  "replay_list (\<lambda>_ c cs. Some (Inr (cs @ [c]))) i cs acc = Some (Inr (acc @ cs))"
  by (induction cs arbitrary: i acc) simp_all

lemma replay_list_count:
  "replay_list (\<lambda>seq _ _. Some (Inr (wrap_u64 (seq + 1)))) (Suc i) cs (wrap_u64 (int (i + 1)))
    = Some (Inr (wrap_u64 (int (i + length cs + 1))))"
proof (induction cs arbitrary: i)
  case (Cons c cs)
  have "wrap_u64 (wrap_u64 (int (Suc i)) + 1) = wrap_u64 (int (Suc i + 1))"
    by (simp add: wrap_u64_def mod_simps add.commute)
  with Cons [of "Suc i"] show ?case by (simp del: of_nat_Suc of_nat_add)
qed simp

lemma fj_log_records:
  "list_all (record_ok mar unm) cs \<Longrightarrow> fj_log unm \<lparr>fj_file = concat (map (record_of mar) cs), fj_next = n\<rparr> = cs"
  by (simp add: fj_log_def FileJournal_Replay_def Replay_records replay_list_collect)

lemma fj_invE:
  assumes "fj_inv mar unm j"
  obtains "list_all (record_ok mar unm) (fj_log unm j)"
    "j = \<lparr>fj_file = concat (map (record_of mar) (fj_log unm j)), fj_next = wrap_u64 (int (length (fj_log unm j) + 1))\<rparr>"
proof -
  obtain cs where cs: "list_all (record_ok mar unm) cs" "fj_file j = concat (map (record_of mar) cs)"
    "fj_next j = wrap_u64 (int (length cs + 1))"
    using assms by (auto simp: fj_inv_def)
  then have j: "j = \<lparr>fj_file = concat (map (record_of mar) cs), fj_next = wrap_u64 (int (length cs + 1))\<rparr>" by simp
  have "fj_log unm j = cs" unfolding j by (rule fj_log_records [OF cs(1)])
  with cs j show thesis by (intro that) simp_all
qed

interpretation fj: journal "fj_inv mar unm" "fj_log unm" "FileJournal_Append mar IoOk" "FileJournal_Replay unm" "record_ok mar unm"
  for mar unm
proof unfold_locales
  fix j c
  assume inv: "fj_inv mar unm j" and c: "record_ok mar unm c"
  let ?cs = "fj_log unm j"
  from inv have cs: "list_all (record_ok mar unm) ?cs"
    "j = \<lparr>fj_file = concat (map (record_of mar) ?cs), fj_next = wrap_u64 (int (length ?cs + 1))\<rparr>"
    by (auto elim: fj_invE)
  obtain b where b: "mar c = Inr b" using c by (auto simp: record_ok_def split: sum.splits)
  let ?j' = "\<lparr>fj_file = concat (map (record_of mar) (?cs @ [c])), fj_next = wrap_u64 (int (length (?cs @ [c]) + 1))\<rparr>"
  have nx: "wrap_u64 (wrap_u64 (int (length ?cs + 1)) + 1) = wrap_u64 (int (length (?cs @ [c]) + 1))"
    by (simp add: wrap_u64_def mod_simps add.commute)
  have app: "FileJournal_Append mar IoOk c j = (?j', Inr (wrap_u64 (int (length ?cs + 1))))"
    by (subst cs(2)) (simp add: FileJournal_Append_def b record_of_def nx [simplified])
  have all: "list_all (record_ok mar unm) (?cs @ [c])" using cs(1) c by simp
  then have "fj_inv mar unm ?j'" unfolding fj_inv_def by (intro exI [of _ "?cs @ [c]"]) simp
  with app fj_log_records [OF all] show "\<exists>j'. FileJournal_Append mar IoOk c j = (j', Inr (wrap_u64 (int (length ?cs + 1))))
      \<and> fj_inv mar unm j' \<and> fj_log unm j' = ?cs @ [c]" by blast
next
  fix j fn e
  assume "fj_inv mar unm j"
  then have cs: "list_all (record_ok mar unm) (fj_log unm j)"
    "fj_file j = concat (map (record_of mar) (fj_log unm j))"
    by (auto elim: fj_invE) (metis FileJournal.select_convs(1) fj_invE)
  show "FileJournal_Replay unm j fn e = replay_list fn 1 (fj_log unm j) e"
    unfolding FileJournal_Replay_def cs(2) by (simp add: Replay_records [OF cs(1)])
qed

end
