(* ===== verification/EngineLoop.thy ===== *)
theory EngineLoop
  imports Journal
begin

text \<open>
  \<open>Submit\<close> and the loop of \<open>Run\<close> as a step relation over the command channel, its
  invariants, and the properties of the engine and the journal.
\<close>

section \<open>Submit and the engine loop, interleaved\<close>

text \<open>
  The goroutines around the command channel: any number of callers in \<open>Submit\<close>, and the
  one loop in \<open>Run\<close>. A call is identified by a number; \<open>sy_queue\<close> is the buffered channel
  \<open>cmdCh\<close>, \<open>sy_replies\<close> holds the replies sent on the per-call channels and
  \<open>sy_result\<close> what the calls have returned. \<open>sy_served\<close> records the history of requests
  the loop has received. Each rule is one atomic communication.
\<close>

definition cmdCh_cap :: nat where "cmdCh_cap = 1024"

record sys =
  sy_state :: "Engine \<times> MemJournal"
  sy_queue :: "(nat \<times> Command) list"
  sy_replies :: "nat \<rightharpoonup> engine_error + Event list"
  sy_result :: "nat \<rightharpoonup> engine_error + Event list"
  sy_served :: "(nat \<times> Command) list"
  sy_calls :: nat
  sy_running :: bool

definition sys_init :: "string list \<Rightarrow> sys" where
  "sys_init symbols = \<lparr>sy_state = (empty_engine symbols, \<lparr>mj_cmds = []\<rparr>), sy_queue = [],
     sy_replies = Map.empty, sy_result = Map.empty, sy_served = [], sy_calls = 0, sy_running = True\<rparr>"

inductive sys_step :: "sys \<Rightarrow> sys \<Rightarrow> bool" where
  Submit_send: "length (sy_queue s) < cmdCh_cap \<Longrightarrow> cmd_ok cmd \<Longrightarrow>
    sys_step s (s\<lparr>sy_queue := sy_queue s @ [(sy_calls s, cmd)], sy_calls := Suc (sy_calls s)\<rparr>)"
| Submit_give_up: "sys_step s (s\<lparr>sy_result := (sy_result s)(sy_calls s \<mapsto> Inl ErrContext), sy_calls := Suc (sy_calls s)\<rparr>)"
| Run_request: "sy_running s \<Longrightarrow> sy_queue s = (n, cmd) # q \<Longrightarrow>
    Run_step MemJournal_Append cmd (sy_state s) = Some (st, sunk, reply) \<Longrightarrow>
    sys_step s (s\<lparr>sy_state := st, sy_queue := q, sy_replies := (sy_replies s)(n \<mapsto> reply),
      sy_served := sy_served s @ [(n, cmd)]\<rparr>)"
| Submit_reply: "sy_replies s n = Some r \<Longrightarrow> sy_result s n = None \<Longrightarrow>
    sys_step s (s\<lparr>sy_result := (sy_result s)(n \<mapsto> r)\<rparr>)"
| Submit_ctx_done: "n < sy_calls s \<Longrightarrow> sy_result s n = None \<Longrightarrow>
    sys_step s (s\<lparr>sy_result := (sy_result s)(n \<mapsto> Inl ErrContext)\<rparr>)"
| Run_ctx_done: "sys_step s (s\<lparr>sy_running := False\<rparr>)"
| Control_halt: "sys_step s (s\<lparr>sy_state := (Halt sym' (fst (sy_state s)), snd (sy_state s))\<rparr>)"
| Control_resume: "sys_step s (s\<lparr>sy_state := (Resume sym' (fst (sy_state s)), snd (sy_state s))\<rparr>)"

inductive sys_reach :: "string list \<Rightarrow> sys \<Rightarrow> bool" for symbols where
  reach_init: "sys_reach symbols (sys_init symbols)"
| reach_step: "sys_reach symbols s \<Longrightarrow> sys_step s s' \<Longrightarrow> sys_reach symbols s'"

inductive_cases sys_stepE: "sys_step s s'"

definition sys_inv :: "string list \<Rightarrow> sys \<Rightarrow> bool" where
  "sys_inv symbols s \<longleftrightarrow> mj.synced symbols (sy_state s)
     \<and> list_all (\<lambda>(n, c). cmd_ok c) (sy_queue s)
     \<and> sorted_wrt (<) (map fst (sy_served s @ sy_queue s))
     \<and> (\<forall>n \<in> set (map fst (sy_served s @ sy_queue s)). n < sy_calls s)
     \<and> dom (sy_replies s) = fst ` set (sy_served s)
     \<and> (\<forall>n r. sy_result s n = Some r \<longrightarrow> n < sy_calls s \<and> (r = Inl ErrContext \<or> sy_replies s n = Some r))
     \<and> subseq (mj_cmds (snd (sy_state s))) (map snd (sy_served s))"

lemma sys_init_inv: "sys_inv symbols (sys_init symbols)"
  by (simp add: sys_inv_def sys_init_def mj.synced_init)

lemma sys_step_inv:
  assumes "sys_inv symbols s" "sys_step s s'"
  shows "sys_inv symbols s'"
  using assms(2)
proof cases
  case (Run_request n cmd q st sunk reply)
  obtain e j where ej: "sy_state s = (e, j)" by (cases "sy_state s")
  have ok: "cmd_ok cmd" and sy: "mj.synced symbols (e, j)"
    using assms(1) Run_request(3) by (auto simp: sys_inv_def ej)
  have "mj.synced symbols st \<and> (mj_cmds (snd st) = mj_cmds j \<or> mj_cmds (snd st) = mj_cmds j @ [cmd])"
    using sy ok TrueI
  proof (cases rule: mj.Run_step_synced)
    case halted
    with Run_request(4) sy show ?thesis by (auto simp: ej)
  next
    case (applied e' j' evs)
    with Run_request(4) show ?thesis by (auto simp: ej)
  qed
  moreover have "n \<notin> fst ` set (sy_served s)"
    using assms(1) Run_request(3) by (force simp: sys_inv_def sorted_wrt_append)
  then have "sy_replies s n = None" using assms(1) by (auto simp: sys_inv_def)
  then have "sy_result s n = Some r \<Longrightarrow> r = Inl ErrContext" for r
    using assms(1) by (fastforce simp: sys_inv_def)
  ultimately show ?thesis
    using assms(1) Run_request(3) unfolding Run_request(1)
    by (auto simp: sys_inv_def ej dom_def intro: subseq_order.order_trans)
next
  case (Submit_reply n r)
  then have "n \<in> fst ` set (sy_served s)" using assms(1) by (auto simp: sys_inv_def)
  then have "n < sy_calls s" using assms(1) by (auto simp: sys_inv_def)
  with Submit_reply assms(1) show ?thesis by (auto simp: sys_inv_def)
next
  case (Control_halt sym')
  with assms(1) mj.synced_control(1) [of symbols "fst (sy_state s)" "snd (sy_state s)" sym'] show ?thesis
    by (simp add: sys_inv_def)
next
  case (Control_resume sym')
  with assms(1) mj.synced_control(2) [of symbols "fst (sy_state s)" "snd (sy_state s)" sym'] show ?thesis
    by (simp add: sys_inv_def)
qed (use assms(1) in \<open>auto simp: sys_inv_def sorted_wrt_append nth_append less_Suc_eq\<close>)

lemma sys_reach_inv: "sys_reach symbols s \<Longrightarrow> sys_inv symbols s"
  by (induction rule: sys_reach.induct) (auto intro: sys_init_inv sys_step_inv)

lemma sys_not_stuck:
  assumes "sys_inv symbols s" "sy_running s" "sy_queue s \<noteq> []"
  shows "\<exists>s'. sys_step s s' \<and> length (sy_served s') = Suc (length (sy_served s))"
proof -
  obtain n cmd q where q: "sy_queue s = (n, cmd) # q" using assms(3) by (cases "sy_queue s") auto
  obtain e j where ej: "sy_state s = (e, j)" by (cases "sy_state s")
  have "mj.synced symbols (e, j)" "cmd_ok cmd" using assms(1) q by (auto simp: sys_inv_def ej)
  then obtain st sunk reply where "Run_step MemJournal_Append cmd (sy_state s) = Some (st, sunk, reply)"
    using TrueI by (cases rule: mj.Run_step_synced) (auto simp: ej)
  from Run_request [OF assms(2) q this] show ?thesis by force
qed

section \<open>Properties of the engine\<close>

lemma reopen_synced:
  assumes "fj.synced mar unm symbols (e, j)"
  shows "OpenFileJournal unm (fj_file j) = Some (Inr j) \<and> New_engine symbols (FileJournal_Replay unm j) = Some (Inr (e\<lparr>eg_halted := Map.empty\<rparr>))"
proof
  have jv: "fj_inv mar unm j" using assms by (simp add: fj.synced_def)
  then show "OpenFileJournal unm (fj_file j) = Some (Inr j)"
  proof (rule fj_invE)
    let ?cs = "fj_log unm j"
    assume a: "list_all (record_ok mar unm) ?cs"
      "j = \<lparr>fj_file = concat (map (record_of mar) ?cs), fj_next = wrap_u64 (int (length ?cs + 1))\<rparr>"
    have "replay_list (\<lambda>seq _ _. Some (Inr (wrap_u64 (seq + 1)))) 1 ?cs 1 = Some (Inr (wrap_u64 (int (length ?cs + 1))))"
      using replay_list_count [of 0 ?cs] by (simp add: wrap_u64_def)
    then show ?thesis
      by (subst (1 2) a(2)) (simp add: OpenFileJournal_def FileJournal_Replay_def Replay_records [OF a(1)])
  qed
  show "New_engine symbols (FileJournal_Replay unm j) = Some (Inr (e\<lparr>eg_halted := Map.empty\<rparr>))"
    using assms by (simp add: New_engine_def fj.replay_log [OF jv] fj.synced_def)
qed

lemma empty_file_synced: "fj.synced mar unm symbols (empty_engine symbols, \<lparr>fj_file = [], fj_next = 1\<rparr>)"
proof (rule fj.synced_init)
  show "fj_inv mar unm \<lparr>fj_file = [], fj_next = 1\<rparr>" "fj_log unm \<lparr>fj_file = [], fj_next = 1\<rparr> = []"
    using fj_log_records [of mar unm "[]" 1]
    by (auto simp: fj_inv_def wrap_u64_def intro: exI [of _ "[]"])
qed


definition demo_place :: "string \<Rightarrow> string \<Rightarrow> int64 \<Rightarrow> Side \<Rightarrow> int64 \<Rightarrow> int64 \<Rightarrow> Command" where
  "demo_place symbol oid user side price qty = \<lparr>cmd_Type = CmdPlaceLimit, cmd_Symbol = symbol, cmd_OrderID = oid,
     cmd_UserID = user, cmd_Side = side, cmd_Price = price, cmd_Qty = qty\<rparr>"

definition demo_cancel :: "string \<Rightarrow> string \<Rightarrow> int64 \<Rightarrow> Command" where
  "demo_cancel symbol oid user = \<lparr>cmd_Type = CmdCancel, cmd_Symbol = symbol, cmd_OrderID = oid,
     cmd_UserID = user, cmd_Side = Buy, cmd_Price = 0, cmd_Qty = 0\<rparr>"

definition demo_ask :: Command where "demo_ask = demo_place ''BTC-USDT'' ''s1'' 1 Sell 100 5"
definition demo_bid :: Command where "demo_bid = demo_place ''BTC-USDT'' ''b1'' 2 Buy 101 3"

text \<open>Two records suffice to instantiate the JSON codec on these commands.\<close>

definition demo_mar :: "Command \<Rightarrow> string + string" where
  "demo_mar c = Inr (if cmd_OrderID c = ''s1'' then ''{ask}'' else ''{bid}'')"

definition demo_unm :: "string \<Rightarrow> string + Command" where
  "demo_unm s = (if s = ''{ask}'' then Inr demo_ask else if s = ''{bid}'' then Inr demo_bid else Inl ''syntax error'')"

lemma demo_requests:
  "list_all (request_ok (\<lambda>c. cmd_ok c \<and> record_ok demo_mar demo_unm c)) [Cmd demo_ask, HaltReq ''ETH-USDT'', Cmd demo_bid]"
  by (simp add: record_ok_def demo_mar_def demo_unm_def demo_ask_def demo_bid_def demo_place_def
      cmd_ok_def in_int64_def drop_cr_def max_token_def)


text \<open>Applying a command never panics and always answers. On a well-formed engine every command
  with machine-integer fields returns at least one event, keeps the engine well formed and the
  set of symbols, and numbers its events by journal sequence and position.\<close>

theorem apply_never_panics:
  assumes "engine_inv e" "cmd_ok cmd"
  shows "\<exists>e' evs. apply_cmd seq cmd e = Some (e', evs) \<and> engine_inv e' \<and> dom (eg_books e') = dom (eg_books e)
    \<and> evs \<noteq> [] \<and> map (\<lambda>v. (ev_Seq v, ev_Index v)) evs = map (\<lambda>i. (seq, i)) [0..<length evs]"
  using apply_total [OF assms, of seq] by (auto simp: tagged_def)

theorem apply_never_panics_witness:
  "\<exists>e' evs. apply_cmd 1 demo_ask (empty_engine [''BTC-USDT'']) = Some (e', evs) \<and> evs \<noteq> []"
proof -
  have "cmd_ok demo_ask" by code_simp
  from apply_never_panics [OF empty_engine_inv(1) this] show ?thesis by blast
qed

text \<open>C21: Events are uniquely identified. Whatever is served from an empty journal, no two events
  handed to the sink share their (Seq, Index) key, as long as the journal has fewer than
  \<open>2^64\<close> records.\<close>

lemma distinct_keys:
  assumes "\<forall>i < length sunk. tagged (wrap_u64 (int (n + 1 + i))) (sunk ! i)" "n + length sunk < 2 ^ 64"
  shows "distinct (concat (map (map (\<lambda>v. (ev_Seq v, ev_Index v))) sunk))
    \<and> (\<forall>k \<in> set (concat (map (map (\<lambda>v. (ev_Seq v, ev_Index v))) sunk)). int n < fst k)"
  using assms
proof (induction sunk arbitrary: n)
  case (Cons b sunk)
  have w: "wrap_u64 (int (n + 1)) = int (n + 1)" using Cons.prems(2) by (simp add: wrap_u64_def)
  have "tagged (wrap_u64 (int (n + 1))) b" using Cons.prems(1) by (auto dest: spec [of _ 0])
  then have b: "map (\<lambda>v. (ev_Seq v, ev_Index v)) b = map (\<lambda>i. (int (n + 1), i)) [0..<length b]"
    by (simp only: tagged_def w)
  have "\<forall>i < length sunk. tagged (wrap_u64 (int (Suc n + 1 + i))) (sunk ! i)"
    using Cons.prems(1) by (auto dest: spec [of _ "Suc _"])
  with Cons.IH [of "Suc n"] Cons.prems(2) have ih: "distinct (concat (map (map (\<lambda>v. (ev_Seq v, ev_Index v))) sunk))"
    "\<forall>k \<in> set (concat (map (map (\<lambda>v. (ev_Seq v, ev_Index v))) sunk)). int (Suc n) < fst k" by simp_all
  have "distinct (map (\<lambda>i. (int (n + 1), i)) [0..<length b])" by (simp add: distinct_map inj_on_def)
  with ih show ?case unfolding list.map concat.simps b by fastforce
qed simp

theorem event_keys_unique:
  assumes "list_all (request_ok cmd_ok) rs"
    and "serve_all MemJournal_Append rs (empty_engine symbols, \<lparr>mj_cmds = []\<rparr>) = Some ((e, j), sunk)"
    and "length (mj_cmds j) < 2 ^ 64"
  shows "distinct (concat (map (map (\<lambda>v. (ev_Seq v, ev_Index v))) sunk))"
proof -
  have "mj.synced symbols (empty_engine symbols, \<lparr>mj_cmds = []\<rparr>)" by (rule mj.synced_init) simp_all
  from mj.serve_all_batches [OF this _ assms(2)] assms(1,3) distinct_keys [of sunk 0] show ?thesis by simp
qed

theorem event_keys_unique_witness:
  "distinct (concat (map (map (\<lambda>v. (ev_Seq v, ev_Index v)))
     (snd (the (serve_all MemJournal_Append [Cmd demo_ask, Cmd demo_bid] (empty_engine [''BTC-USDT''], \<lparr>mj_cmds = []\<rparr>))))))"
proof -
  let ?r = "serve_all MemJournal_Append [Cmd demo_ask, Cmd demo_bid] (empty_engine [''BTC-USDT''], \<lparr>mj_cmds = []\<rparr>)"
  have ok: "list_all (request_ok cmd_ok) [Cmd demo_ask, Cmd demo_bid]" by code_simp
  have "?r \<noteq> None" by code_simp
  then obtain e j sunk where r: "?r = Some ((e, j), sunk)" by auto
  have "map_option (\<lambda>r. length (mj_cmds (snd (fst r)))) ?r = Some 2" by code_simp
  then have "length (mj_cmds j) < 2 ^ 64" unfolding r by simp
  from event_keys_unique [OF ok r this] show ?thesis unfolding r by simp
qed

text \<open>The attribution map is exactly the set of resting orders, through every command whose
  order id does not already rest under another symbol: every entry names a resting order of that
  symbol and side, and every resting order has its entry.\<close>

theorem orders_exact_kept:
  assumes "engine_inv e" "orders_exact e" "cmd_ok cmd" "fresh_id cmd e" "apply_cmd seq cmd e = Some (e', evs)"
  shows "orders_exact e' \<and> engine_inv e'"
  using apply_exact [OF assms(1,3,2,4,5)] apply_inv(1) [OF assms(1,3,5)] by simp

theorem orders_exact_kept_witness:
  "orders_exact (fst (the (apply_cmd 1 demo_ask (empty_engine [''BTC-USDT'']))))
   \<and> eg_orders (fst (the (apply_cmd 1 demo_ask (empty_engine [''BTC-USDT''])))) ''s1'' \<noteq> None"
proof
  have ok: "cmd_ok demo_ask" by code_simp
  have fr: "fresh_id demo_ask (empty_engine [''BTC-USDT''])"
    by (auto simp: fresh_id_def empty_engine_books demo_ask_def demo_place_def split: if_splits)
  obtain e' evs where "apply_cmd 1 demo_ask (empty_engine [''BTC-USDT'']) = Some (e', evs)"
    using apply_total [OF empty_engine_inv(1) ok] by blast
  with orders_exact_kept [OF empty_engine_inv ok fr this]
  show "orders_exact (fst (the (apply_cmd 1 demo_ask (empty_engine [''BTC-USDT'']))))" by simp
  show "eg_orders (fst (the (apply_cmd 1 demo_ask (empty_engine [''BTC-USDT''])))) ''s1'' \<noteq> None" by code_simp
qed

text \<open>C22: Trades are attributed to the right users. Every trade event names, as its maker, the
  user recorded for that resting order, which rests under the same symbol on the other side, and,
  as its taker, the user of the command.\<close>

lemma trade_batch_set:
  "v \<in> set (trade_batch seq cmd i ords trs) \<Longrightarrow>
     \<exists>j tr. tr \<in> set trs \<and> v = trade_event seq cmd j (maker_of ords tr) tr"
  by (induction trs arbitrary: i) fastforce+


text \<open>An engine with one resting order of user 1.\<close>

definition demo_engine :: Engine where
  "demo_engine = fst (the (apply_cmd 1 demo_ask (empty_engine [''BTC-USDT'', ''ETH-USDT''])))"

lemma demo_engine_inv: "engine_inv demo_engine" "orders_exact demo_engine"
proof -
  have ok: "cmd_ok demo_ask" by code_simp
  have fr: "fresh_id demo_ask (empty_engine [''BTC-USDT'', ''ETH-USDT''])"
    by (auto simp: fresh_id_def empty_engine_books demo_ask_def demo_place_def Order_lookup_def New_book_def split: if_splits)
  obtain e' evs where a: "apply_cmd 1 demo_ask (empty_engine [''BTC-USDT'', ''ETH-USDT'']) = Some (e', evs)"
    using apply_total [OF empty_engine_inv(1) ok] by blast
  show "engine_inv demo_engine" "orders_exact demo_engine"
    using apply_inv(1) [OF empty_engine_inv(1) ok a] apply_exact [OF empty_engine_inv(1) ok empty_engine_inv(2) fr a]
    by (simp_all add: demo_engine_def a)
qed


text \<open>A halted symbol takes no new orders. Any command but a cancel for a halted symbol is
  answered by a single rejection; neither the engine nor the journal changes and the sink sees
  nothing. A cancel for a halted symbol is served as if the symbol were not halted.\<close>

theorem halted_symbol:
  "cmd_Type cmd \<noteq> CmdCancel \<Longrightarrow>
     Run_step app_j cmd (Halt (cmd_Symbol cmd) e, j)
       = Some ((Halt (cmd_Symbol cmd) e, j), [], Inr [halted_event cmd])
     \<and> (\<forall>c. cmd_Type c = CmdCancel \<longrightarrow>
         Run_step app_j c (Halt (cmd_Symbol c) e, j)
           = map_option (\<lambda>((e', j'), rest). ((e'\<lparr>eg_halted := eg_halted (Halt (cmd_Symbol c) e)\<rparr>, j'), rest))
               (Run_step app_j c (Resume (cmd_Symbol c) e, j)))"
proof (intro conjI allI impI)
  show "cmd_Type cmd \<noteq> CmdCancel \<Longrightarrow> Run_step app_j cmd (Halt (cmd_Symbol cmd) e, j)
      = Some ((Halt (cmd_Symbol cmd) e, j), [], Inr [halted_event cmd])"
    by (simp add: Run_step_def IsHalted_def Halt_def)
  fix c :: Command
  assume "cmd_Type c = CmdCancel"
  moreover have "Halt (cmd_Symbol c) e = (Resume (cmd_Symbol c) e)\<lparr>eg_halted := eg_halted (Halt (cmd_Symbol c) e)\<rparr>"
    by (simp add: Halt_def Resume_def)
  ultimately show "Run_step app_j c (Halt (cmd_Symbol c) e, j)
           = map_option (\<lambda>((e', j'), rest). ((e'\<lparr>eg_halted := eg_halted (Halt (cmd_Symbol c) e)\<rparr>, j'), rest))
               (Run_step app_j c (Resume (cmd_Symbol c) e, j))"
    by (auto simp: Run_step_def Halt_def Resume_def split: prod.split sum.split option.split)
       (auto simp: apply_halted)
qed

theorem halted_symbol_witness:
  "Run_step MemJournal_Append demo_bid (Halt ''BTC-USDT'' demo_engine, \<lparr>mj_cmds = []\<rparr>)
    = Some ((Halt ''BTC-USDT'' demo_engine, \<lparr>mj_cmds = []\<rparr>), [], Inr [halted_event demo_bid])"
proof -
  have "cmd_Type demo_bid \<noteq> CmdCancel" "cmd_Symbol demo_bid = ''BTC-USDT''" by code_simp+
  with halted_symbol [of demo_bid MemJournal_Append demo_engine "\<lparr>mj_cmds = []\<rparr>"] show ?thesis by simp
qed



text \<open>The attribution map is keyed by order id alone. When user 2 places an order under the id of
  user 1's resting order on another symbol, the entry of user 1 is overwritten, and user 2's cancel
  of that id on user 1's symbol succeeds: the owner check compares with the wrong order.\<close>

theorem cross_symbol_cancel:
  "(case apply_cmd 2 (demo_place ''ETH-USDT'' ''s1'' 2 Sell 50 1) demo_engine of None \<Rightarrow> None
    | Some (e, _) \<Rightarrow> map_option (\<lambda>(_, evs). map (\<lambda>v. (ev_Type v, ev_OrderID v, ev_UserID v, ev_Qty v)) evs)
        (apply_cmd 3 (demo_cancel ''BTC-USDT'' ''s1'' 2) e))
   = Some [(EvtOrderCancelled, ''s1'', 2, 5)]
   \<and> map_option own_userID (eg_orders demo_engine ''s1'') = Some 1"
  by code_simp

text \<open>A failing \<open>Sync\<close> breaks the numbering of the file journal. The record is already in
  the file when the error is returned and the sequence is not advanced: the caller is told that
  the command failed, and the next command gets a sequence number that replay gives to the
  failed one.\<close>

theorem sync_error_renumbers:
  assumes inv: "fj_inv mar unm j" and c: "record_ok mar unm c1" "record_ok mar unm c2"
  shows "\<exists>j1 j2. FileJournal_Append mar (IoSyncErr err) c1 j = (j1, Inl err)
    \<and> FileJournal_Append mar IoOk c2 j1 = (j2, Inr (wrap_u64 (int (length (fj_log unm j) + 1))))
    \<and> fj_log unm j2 = fj_log unm j @ [c1, c2]"
  using inv
proof (rule fj_invE)
  let ?cs = "fj_log unm j"
  assume a: "list_all (record_ok mar unm) ?cs"
    "j = \<lparr>fj_file = concat (map (record_of mar) ?cs), fj_next = wrap_u64 (int (length ?cs + 1))\<rparr>"
  obtain b1 b2 where b: "mar c1 = Inr b1" "mar c2 = Inr b2"
    using c by (auto simp: record_ok_def split: sum.splits)
  have "list_all (record_ok mar unm) (?cs @ [c1, c2])" using a(1) c by simp
  from fj_log_records [OF this] show ?thesis
    by (subst (1) a(2)) (simp add: FileJournal_Append_def b record_of_def Let_def)
qed

theorem sync_error_renumbers_witness:
  "\<exists>j1 j2. FileJournal_Append demo_mar (IoSyncErr ''EIO'') demo_ask \<lparr>fj_file = [], fj_next = 1\<rparr> = (j1, Inl ''EIO'')
    \<and> FileJournal_Append demo_mar IoOk demo_bid j1 = (j2, Inr 1) \<and> fj_log demo_unm j2 = [demo_ask, demo_bid]"
proof -
  have j0: "fj_inv demo_mar demo_unm \<lparr>fj_file = [], fj_next = 1\<rparr>" "fj_log demo_unm \<lparr>fj_file = [], fj_next = 1\<rparr> = []"
    using fj_log_records [of demo_mar demo_unm "[]" 1]
    by (auto simp: fj_inv_def wrap_u64_def intro: exI [of _ "[]"])
  have "record_ok demo_mar demo_unm demo_ask" "record_ok demo_mar demo_unm demo_bid" using demo_requests by simp_all
  from sync_error_renumbers [OF j0(1) this, of "''EIO''"] show ?thesis by (simp add: j0 wrap_u64_def)
qed

lemma trade_events_sub: "snd (trade_events seq cmd ob trs evs ords) k = Some w \<Longrightarrow> ords k = Some w"
proof (induction trs arbitrary: evs ords)
  case (Cons tr trs)
  from Cons.IH [OF Cons.prems [unfolded trade_events.simps Let_def]] show ?case by (simp split: if_splits)
qed simp

lemma apply_orders_dom:
  assumes "apply_cmd seq cmd e = Some (e', evs)"
  shows "dom (eg_orders e') \<subseteq> insert (cmd_OrderID cmd) (dom (eg_orders e))"
proof -
  have te: "eg_orders e k = Some w" if "trade_events seq cmd ob trs es (eg_orders e) = (vs, ords)" "ords k = Some w"
    for ob trs es vs ords k w
    using trade_events_sub [of seq cmd ob trs es "eg_orders e" k w] that by simp
  show ?thesis
    using assms
    by (auto simp: apply_cmd_def apply_place_def apply_cancel_def Let_def
        split: option.splits sum.splits prod.splits if_splits dest: te)
qed

definition open_row :: "Engine \<Rightarrow> int64 \<Rightarrow> OpenOrder \<Rightarrow> bool" where
  "open_row e userID r \<longleftrightarrow> (\<exists>w ob x. eg_orders e (oo_OrderID r) = Some w \<and> own_userID w = userID
         \<and> eg_books e (oo_Symbol r) = Some ob \<and> Order_lookup (oo_OrderID r) ob = Some x
         \<and> r = \<lparr>oo_OrderID = ord_ID x, oo_Symbol = own_symbol w, oo_Side = ord_Side x, oo_Price = ord_Price x,
               oo_Quantity = ord_Quantity x, oo_Remaining = ord_Remaining x\<rparr>)"

text \<open>The open-orders view. Whatever order the map is iterated in, the view of a user succeeds and
  consists exactly of that user's resting orders, with their symbol, side, price, quantity and
  remainder.\<close>

theorem OpenOrders_exact:
  assumes inv: "engine_inv e" and ex: "orders_exact e" and ids: "set ids = dom (eg_orders e)"
  shows "\<exists>rows. OpenOrders userID ids e = Some rows
    \<and> (\<forall>r. r \<in> set rows \<longleftrightarrow> open_row e userID r)"
proof -
  let ?row = "\<lambda>r k. \<exists>w ob x. eg_orders e k = Some w \<and> own_userID w = userID
         \<and> eg_books e (own_symbol w) = Some ob \<and> Order_lookup k ob = Some x
         \<and> r = \<lparr>oo_OrderID = k, oo_Symbol = own_symbol w, oo_Side = own_side w, oo_Price = ord_Price x,
               oo_Quantity = ord_Quantity x, oo_Remaining = ord_Remaining x\<rparr>"
  have "\<exists>rows. OpenOrders userID ids e = Some rows \<and> (\<forall>r. r \<in> set rows \<longleftrightarrow> (\<exists>k \<in> set ids. ?row r k))" for ids
  proof (induction ids)
    case (Cons k ids)
    show ?case
    proof (cases "eg_orders e k")
      case None
      with Cons show ?thesis by simp
    next
      case (Some w)
      from orders_exactD1 [OF ex Some] obtain ob x where "eg_books e (own_symbol w) = Some ob"
        "Order_lookup k ob = Some x" "ord_Side x = own_side w" .
      with Cons Some show ?thesis by (cases "own_userID w = userID") auto
    qed
  qed simp
  from this [of ids] obtain rows where rows: "OpenOrders userID ids e = Some rows"
    "\<And>r. r \<in> set rows \<longleftrightarrow> (\<exists>k \<in> dom (eg_orders e). ?row r k)" by (auto simp: ids)
  have sd: "own_side w = ord_Side x"
    if "eg_orders e k = Some w" "eg_books e (own_symbol w) = Some ob" "Order_lookup k ob = Some x" for k w ob x
    by (rule orders_exactD1 [OF ex that(1)]) (use that in simp)
  have "r \<in> set rows \<longleftrightarrow> open_row e userID r" for r
  proof
    assume "r \<in> set rows"
    then obtain k w ob x where r: "eg_orders e k = Some w" "own_userID w = userID"
      "eg_books e (own_symbol w) = Some ob" "Order_lookup k ob = Some x"
      "r = \<lparr>oo_OrderID = k, oo_Symbol = own_symbol w, oo_Side = own_side w, oo_Price = ord_Price x,
               oo_Quantity = ord_Quantity x, oo_Remaining = ord_Remaining x\<rparr>" using rows(2) by blast
    have "ord_ID x = k" using ob.look_wf [OF engine_invD(1) [OF inv r(3)] r(4)] by simp
    moreover have "own_side w = ord_Side x" by (rule sd [OF r(1,3,4)])
    ultimately show "open_row e userID r" using r by (auto simp: open_row_def)
  next
    assume "open_row e userID r"
    then obtain w ob x where r: "eg_orders e (ord_ID x) = Some w" "own_userID w = userID"
      "eg_books e (own_symbol w) = Some ob" "Order_lookup (ord_ID x) ob = Some x"
      "r = \<lparr>oo_OrderID = ord_ID x, oo_Symbol = own_symbol w, oo_Side = ord_Side x, oo_Price = ord_Price x,
               oo_Quantity = ord_Quantity x, oo_Remaining = ord_Remaining x\<rparr>" by (auto simp: open_row_def)
    have "own_side w = ord_Side x" by (rule sd [OF r(1,3,4)])
    with r have "?row r (ord_ID x)" by simp
    with r(1) show "r \<in> set rows" unfolding rows(2) by (intro bexI [of _ "ord_ID x"]) auto
  qed
  with rows(1) show ?thesis by blast
qed

theorem OpenOrders_exact_witness:
  "\<exists>rows. OpenOrders 1 [''s1''] demo_engine = Some rows \<and> map oo_OrderID rows = [''s1''] \<and> set [''s1''] = dom (eg_orders demo_engine)"
proof -
  have ok: "cmd_ok demo_ask" by code_simp
  obtain e' evs where a: "apply_cmd 1 demo_ask (empty_engine [''BTC-USDT'', ''ETH-USDT'']) = Some (e', evs)"
    using apply_total [OF empty_engine_inv(1) ok] by blast
  have "dom (eg_orders demo_engine) \<subseteq> {''s1''}"
    using apply_orders_dom [OF a] unfolding demo_engine_def a by (simp add: empty_engine_def demo_ask_def demo_place_def)
  moreover have "eg_orders demo_engine ''s1'' \<noteq> None" by code_simp
  ultimately have d: "set [''s1''] = dom (eg_orders demo_engine)" by auto
  have "map_option (map oo_OrderID) (OpenOrders 1 [''s1''] demo_engine) = Some [''s1'']" by code_simp
  with OpenOrders_exact [OF demo_engine_inv d, of 1] d show ?thesis by auto
qed


text \<open>Two callers in flight: the first one's request is served, the second one waits.\<close>

lemma demo_run: "\<exists>st sunk evs. Run_step MemJournal_Append demo_ask (sy_state (sys_init [''BTC-USDT''])) = Some (st, sunk, Inr evs)
   \<and> mj_cmds (snd st) = [demo_ask]"
proof -
  have "mj.synced [''BTC-USDT''] (empty_engine [''BTC-USDT''], \<lparr>mj_cmds = []\<rparr>)" by (rule mj.synced_init) simp_all
  moreover have "cmd_ok demo_ask" by code_simp
  ultimately show ?thesis
    using TrueI by (cases rule: mj.Run_step_synced) (auto simp: sys_init_def IsHalted_def empty_engine_def)
qed

lemma demo_reach:
  "\<exists>s. sys_reach [''BTC-USDT''] s \<and> sy_queue s = [(1, demo_bid)] \<and> map fst (sy_served s) = [0] \<and> sy_running s
     \<and> sy_calls s = 2 \<and> mj_cmds (snd (sy_state s)) = [demo_ask] \<and> sy_result s = Map.empty"
proof -
  let ?s0 = "sys_init [''BTC-USDT'']"
  let ?s1 = "?s0\<lparr>sy_queue := sy_queue ?s0 @ [(sy_calls ?s0, demo_ask)], sy_calls := Suc (sy_calls ?s0)\<rparr>"
  let ?s2 = "?s1\<lparr>sy_queue := sy_queue ?s1 @ [(sy_calls ?s1, demo_bid)], sy_calls := Suc (sy_calls ?s1)\<rparr>"
  have ok: "cmd_ok demo_ask" "cmd_ok demo_bid" by code_simp+
  have "sys_step ?s0 ?s1" by (rule Submit_send) (simp_all add: ok sys_init_def cmdCh_cap_def)
  moreover have "sys_step ?s1 ?s2" by (rule Submit_send) (simp_all add: ok sys_init_def cmdCh_cap_def)
  ultimately have r2: "sys_reach [''BTC-USDT''] ?s2" by (meson reach_init reach_step)
  obtain st sunk evs where run: "Run_step MemJournal_Append demo_ask (sy_state ?s0) = Some (st, sunk, Inr evs)"
    "mj_cmds (snd st) = [demo_ask]" using demo_run by blast
  have "sys_step ?s2 (?s2\<lparr>sy_state := st, sy_queue := [(1, demo_bid)], sy_replies := (sy_replies ?s2)(0 \<mapsto> Inr evs),
      sy_served := sy_served ?s2 @ [(0, demo_ask)]\<rparr>)" (is "sys_step _ ?s3")
    using run(1) by (intro Run_request) (simp_all add: sys_init_def)
  from reach_step [OF r2 this] show ?thesis using run(2) by (intro exI [of _ ?s3]) (simp add: sys_init_def)
qed


text \<open>A context error from \<open>Submit\<close> says nothing about the command. Both are reachable: a call
  that returned the context error and whose command is in the journal, and one whose command was
  never sent.\<close>

theorem submit_ctx_error_ambiguous:
  "(\<exists>s. sys_reach [''BTC-USDT''] s \<and> sy_result s 0 = Some (Inl ErrContext) \<and> mj_cmds (snd (sy_state s)) = [demo_ask]
      \<and> 0 \<in> fst ` set (sy_served s))
   \<and> (\<exists>s. sys_reach [''BTC-USDT''] s \<and> sy_result s 0 = Some (Inl ErrContext) \<and> mj_cmds (snd (sy_state s)) = []
      \<and> 0 \<notin> fst ` set (sy_served s @ sy_queue s))"
proof
  obtain s where s: "sys_reach [''BTC-USDT''] s" "map fst (sy_served s) = [0]" "sy_calls s = 2"
    "mj_cmds (snd (sy_state s)) = [demo_ask]" "sy_result s = Map.empty"
    by (rule exE [OF demo_reach]) (elim conjE, rule that)
  have "sys_step s (s\<lparr>sy_result := (sy_result s)(0 \<mapsto> Inl ErrContext)\<rparr>)" (is "sys_step _ ?s'")
    using s by (intro Submit_ctx_done) simp_all
  from reach_step [OF s(1) this] s show "\<exists>s. sys_reach [''BTC-USDT''] s \<and> sy_result s 0 = Some (Inl ErrContext)
      \<and> mj_cmds (snd (sy_state s)) = [demo_ask] \<and> 0 \<in> fst ` set (sy_served s)"
    by (intro exI [of _ ?s']) (simp flip: set_map)
next
  let ?s0 = "sys_init [''BTC-USDT'']"
  have "sys_step ?s0 (?s0\<lparr>sy_result := (sy_result ?s0)(sy_calls ?s0 \<mapsto> Inl ErrContext), sy_calls := Suc (sy_calls ?s0)\<rparr>)"
    (is "sys_step _ ?s1") by (rule Submit_give_up)
  from reach_step [OF reach_init this] show "\<exists>s. sys_reach [''BTC-USDT''] s \<and> sy_result s 0 = Some (Inl ErrContext)
      \<and> mj_cmds (snd (sy_state s)) = [] \<and> 0 \<notin> fst ` set (sy_served s @ sy_queue s)"
    by (intro exI [of _ ?s1]) (simp add: sys_init_def)
qed

end
