(* ===== verification/Ledger.thy ===== *)
theory Ledger
  imports EngineLoop
begin

text \<open>
  The double-entry ledger of \<open>services/ledger-service/ledger/ledger.go\<close> over the tables of
  \<open>infra/db/0001_ledger.sql\<close> and \<open>0003_ledger_constraints.sql\<close>. The database is a record
  of tables; constraints (foreign keys, uniqueness, the range of \<open>bigint\<close>) and transactions
  with rollback are written out, and identity sequences are not rolled back. \<open>db_sched\<close> is the
  outcome of the coming round trips to the database: a statement may fail without effect, or take
  effect although the client sees an error. Transactions are executed one after the other.
\<close>

section \<open>Tables\<close>

record account_row =
  ac_id :: int64
  ac_user :: "int64 option"
  ac_asset :: string
  ac_kind :: string
  ac_balance :: int64

record tx_row =
  tx_id :: int64
  tx_kind :: string
  tx_key :: string

record entry_row =
  en_tx :: int64
  en_account :: int64
  en_asset :: string
  en_amount :: int64

datatype db_io = DbOk | DbFail | DbAckLost

record ledger_db =
  db_users :: "int64 list"
  db_assets :: "string list"
  db_accounts :: "account_row list"
  db_txs :: "tx_row list"
  db_entries :: "entry_row list"
  db_next_account :: int64
  db_next_tx :: int64
  db_sched :: "db_io list"

record Entry =
  le_AccountID :: int64
  le_Asset :: string
  le_Amount :: int64

record AccountBalance =
  ab_Asset :: string
  ab_Kind :: string
  ab_Balance :: int64

datatype ledger_error = ErrUnbalanced | ErrInsufficientFunds | ErrBadSymbol | ErrNotTrade | ErrQuoteOverflow
  | ErrNoRows | ErrDb | ErrInvariant nat

definition KindMain :: string where "KindMain = ''main''"
definition KindLocked :: string where "KindLocked = ''locked''"
definition KindSystem :: string where "KindSystem = ''system''"

definition next_io :: "ledger_db \<Rightarrow> db_io \<times> ledger_db" where
  "next_io db = (case db_sched db of [] \<Rightarrow> (DbOk, db) | io # ios \<Rightarrow> (io, db\<lparr>db_sched := ios\<rparr>))"

text \<open>A single statement outside a transaction is its own transaction.\<close>

definition autocommit :: "(ledger_db \<Rightarrow> ledger_db \<times> (ledger_error + 'a)) \<Rightarrow> ledger_db \<Rightarrow> ledger_db \<times> (ledger_error + 'a)" where
  "autocommit stmt db =
     (case next_io db of
        (DbOk, db) \<Rightarrow> stmt db
      | (DbFail, db) \<Rightarrow> (db, Inl ErrDb)
      | (DbAckLost, db) \<Rightarrow> (fst (stmt db), Inl ErrDb))"

definition find_account :: "int64 option \<Rightarrow> string \<Rightarrow> string \<Rightarrow> ledger_db \<Rightarrow> account_row option" where
  "find_account user asset kind db =
     find (\<lambda>r. ac_user r = user \<and> ac_asset r = asset \<and> ac_kind r = kind) (db_accounts db)"

text \<open>
  \<open>INSERT INTO accounts ... ON CONFLICT ... DO UPDATE ... RETURNING id\<close>: an existing row is
  returned; a new row must satisfy the foreign keys and the check on \<open>kind\<close>. The identity value
  is drawn in every case.
\<close>

definition upsert_account :: "int64 option \<Rightarrow> string \<Rightarrow> string \<Rightarrow> ledger_db \<Rightarrow> ledger_db \<times> (ledger_error + int64)" where
  "upsert_account user asset kind db =
     (let aid = db_next_account db;
          db = db\<lparr>db_next_account := aid + 1\<rparr>
      in if kind \<notin> {KindMain, KindLocked, KindSystem} then (db, Inl ErrDb)
         else (case find_account user asset kind db of
                 Some r \<Rightarrow> (db, Inr (ac_id r))
               | None \<Rightarrow>
                   if (case user of None \<Rightarrow> False | Some u \<Rightarrow> u \<notin> set (db_users db)) \<or> asset \<notin> set (db_assets db)
                   then (db, Inl ErrDb)
                   else (db\<lparr>db_accounts := db_accounts db @ [\<lparr>ac_id = aid, ac_user = user,
                           ac_asset = asset, ac_kind = kind, ac_balance = 0\<rparr>]\<rparr>, Inr aid)))"

section \<open>Accounts and balances\<close>

definition UserAccount :: "int64 \<Rightarrow> string \<Rightarrow> string \<Rightarrow> ledger_db \<Rightarrow> ledger_db \<times> (ledger_error + int64)" where
  "UserAccount userID asset kind = autocommit (upsert_account (Some userID) asset kind)"

definition SystemAccount :: "string \<Rightarrow> ledger_db \<Rightarrow> ledger_db \<times> (ledger_error + int64)" where
  "SystemAccount asset = autocommit (upsert_account None asset KindSystem)"

definition Balance :: "int64 \<Rightarrow> ledger_db \<Rightarrow> ledger_db \<times> (ledger_error + int64)" where
  "Balance accountID = autocommit (\<lambda>db.
     (db, case find (\<lambda>r. ac_id r = accountID) (db_accounts db) of
            None \<Rightarrow> Inl ErrNoRows | Some r \<Rightarrow> Inr (ac_balance r)))"

section \<open>Posting\<close>

text \<open>The check before the transaction: the sums of the entries per asset, in \<open>int64\<close>.\<close>

definition asset_sum :: "string \<Rightarrow> Entry list \<Rightarrow> int64" where
  "asset_sum asset es = foldl (\<lambda>s e. if le_Asset e = asset then i64_add s (le_Amount e) else s) 0 es"

definition sums_zero :: "Entry list \<Rightarrow> bool" where
  "sums_zero es \<longleftrightarrow> (\<forall>e \<in> set es. asset_sum (le_Asset e) es = 0)"

text \<open>
  \<open>INSERT INTO transactions ... ON CONFLICT (idempotency_key) DO NOTHING RETURNING id\<close>:
  no row when the key is taken.
\<close>

definition insert_tx :: "string \<Rightarrow> string \<Rightarrow> ledger_db \<Rightarrow> ledger_db \<times> int64 option" where
  "insert_tx kind key db =
     (let txID = db_next_tx db;
          db = db\<lparr>db_next_tx := txID + 1\<rparr>
      in if key \<in> set (map tx_key (db_txs db)) then (db, None)
         else (db\<lparr>db_txs := db_txs db @ [\<lparr>tx_id = txID, tx_kind = kind, tx_key = key\<rparr>]\<rparr>, Some txID))"

definition insert_entry :: "int64 \<Rightarrow> Entry \<Rightarrow> ledger_db \<Rightarrow> ledger_db \<times> (ledger_error + unit)" where
  "insert_entry txID e db =
     (if le_AccountID e \<notin> set (map ac_id (db_accounts db)) \<or> le_Asset e \<notin> set (db_assets db)
      then (db, Inl ErrDb)
      else (db\<lparr>db_entries := db_entries db @ [\<lparr>en_tx = txID, en_account = le_AccountID e,
               en_asset = le_Asset e, en_amount = le_Amount e\<rparr>]\<rparr>, Inr ()))"

text \<open>
  The guarded \<open>UPDATE\<close>: the number of rows it affects, or the error of a sum outside
  \<open>bigint\<close>.
\<close>

definition update_balance :: "int64 \<Rightarrow> int64 \<Rightarrow> ledger_db \<Rightarrow> ledger_db \<times> (ledger_error + nat)" where
  "update_balance amount aid db =
     (case find (\<lambda>r. ac_id r = aid) (db_accounts db) of
        None \<Rightarrow> (db, Inr 0)
      | Some r \<Rightarrow>
          if \<not> in_int64 (ac_balance r + amount) then (db, Inl ErrDb)
          else if ac_kind r = KindSystem \<or> ac_balance r + amount \<ge> 0
          then (db\<lparr>db_accounts := map (\<lambda>r. if ac_id r = aid then r\<lparr>ac_balance := ac_balance r + amount\<rparr> else r)
                     (db_accounts db)\<rparr>, Inr 1)
          else (db, Inr 0))"

fun post_entries :: "int64 \<Rightarrow> Entry list \<Rightarrow> ledger_db \<Rightarrow> ledger_db \<times> (ledger_error + unit)" where
  "post_entries txID [] db = (db, Inr ())"
| "post_entries txID (e # es) db =
     (case next_io db of
        (DbOk, db) \<Rightarrow>
          (case insert_entry txID e db of
             (db, Inl err) \<Rightarrow> (db, Inl err)
           | (db, Inr _) \<Rightarrow>
               (case next_io db of
                  (DbOk, db) \<Rightarrow>
                    (case update_balance (le_Amount e) (le_AccountID e) db of
                       (db, Inl err) \<Rightarrow> (db, Inl err)
                     | (db, Inr n) \<Rightarrow> if n = 0 then (db, Inl ErrInsufficientFunds) else post_entries txID es db)
                | (_, db) \<Rightarrow> (db, Inl ErrDb)))
      | (_, db) \<Rightarrow> (db, Inl ErrDb))"

text \<open>Rolling back restores the tables but not the sequences.\<close>

definition rollback :: "ledger_db \<Rightarrow> ledger_db \<Rightarrow> ledger_db" where
  "rollback db0 db = db\<lparr>db_users := db_users db0, db_assets := db_assets db0, db_accounts := db_accounts db0,
     db_txs := db_txs db0, db_entries := db_entries db0\<rparr>"

definition commit :: "ledger_db \<Rightarrow> ledger_db \<Rightarrow> ledger_db \<times> (ledger_error + unit)" where
  "commit db0 db =
     (case next_io db of
        (DbOk, db) \<Rightarrow> (db, Inr ())
      | (DbFail, db) \<Rightarrow> (rollback db0 db, Inl ErrDb)
      | (DbAckLost, db) \<Rightarrow> (db, Inl ErrDb))"

definition Post :: "string \<Rightarrow> string \<Rightarrow> Entry list \<Rightarrow> ledger_db \<Rightarrow> ledger_db \<times> (ledger_error + unit)" where
  "Post kind idempotencyKey entries db =
     (if \<not> sums_zero entries then (db, Inl ErrUnbalanced)
      else (case next_io db of
        (DbOk, db0) \<Rightarrow>
          (case next_io db0 of
             (DbOk, db) \<Rightarrow>
               (case insert_tx kind idempotencyKey db of
                  (db, None) \<Rightarrow> (rollback db0 db, Inr ())
                | (db, Some txID) \<Rightarrow>
                    (case post_entries txID entries db of
                       (db, Inl err) \<Rightarrow> (rollback db0 db, Inl err)
                     | (db, Inr _) \<Rightarrow> commit db0 db))
           | (_, db) \<Rightarrow> (rollback db0 db, Inl ErrDb))
      | (_, db) \<Rightarrow> (db, Inl ErrDb)))"

section \<open>The movements\<close>

definition mk_entry :: "int64 \<Rightarrow> string \<Rightarrow> int64 \<Rightarrow> Entry" where
  "mk_entry aid asset amount = \<lparr>le_AccountID = aid, le_Asset = asset, le_Amount = amount\<rparr>"

definition Deposit :: "int64 \<Rightarrow> string \<Rightarrow> int64 \<Rightarrow> string \<Rightarrow> ledger_db \<Rightarrow> ledger_db \<times> (ledger_error + unit)" where
  "Deposit userID asset amount idempotencyKey db =
     (if amount \<le> 0 then (db, Inl ErrUnbalanced)
      else (case SystemAccount asset db of
        (db, Inl err) \<Rightarrow> (db, Inl err)
      | (db, Inr sys_id) \<Rightarrow>
          (case UserAccount userID asset KindMain db of
             (db, Inl err) \<Rightarrow> (db, Inl err)
           | (db, Inr main_id) \<Rightarrow>
               Post ''deposit'' idempotencyKey
                 [mk_entry sys_id asset (i64_neg amount), mk_entry main_id asset amount] db)))"

definition transfer :: "string \<Rightarrow> string \<Rightarrow> int64 \<Rightarrow> string \<Rightarrow> string \<Rightarrow> string \<Rightarrow> int64 \<Rightarrow> ledger_db \<Rightarrow> ledger_db \<times> (ledger_error + unit)" where
  "transfer kind key userID asset fromKind toKind amount db =
     (if amount \<le> 0 then (db, Inl ErrUnbalanced)
      else (case UserAccount userID asset fromKind db of
        (db, Inl err) \<Rightarrow> (db, Inl err)
      | (db, Inr from_id) \<Rightarrow>
          (case UserAccount userID asset toKind db of
             (db, Inl err) \<Rightarrow> (db, Inl err)
           | (db, Inr to_id) \<Rightarrow>
               Post kind key [mk_entry from_id asset (i64_neg amount), mk_entry to_id asset amount] db)))"

definition Lock :: "int64 \<Rightarrow> string \<Rightarrow> int64 \<Rightarrow> string \<Rightarrow> ledger_db \<Rightarrow> ledger_db \<times> (ledger_error + unit)" where
  "Lock userID asset amount idempotencyKey = transfer ''lock'' idempotencyKey userID asset KindMain KindLocked amount"

definition Unlock :: "int64 \<Rightarrow> string \<Rightarrow> int64 \<Rightarrow> string \<Rightarrow> ledger_db \<Rightarrow> ledger_db \<times> (ledger_error + unit)" where
  "Unlock userID asset amount idempotencyKey = transfer ''unlock'' idempotencyKey userID asset KindLocked KindMain amount"

definition SettleWithdrawal :: "int64 \<Rightarrow> string \<Rightarrow> int64 \<Rightarrow> string \<Rightarrow> ledger_db \<Rightarrow> ledger_db \<times> (ledger_error + unit)" where
  "SettleWithdrawal userID asset amount idempotencyKey db =
     (if amount \<le> 0 then (db, Inl ErrUnbalanced)
      else (case UserAccount userID asset KindLocked db of
        (db, Inl err) \<Rightarrow> (db, Inl err)
      | (db, Inr locked) \<Rightarrow>
          (case SystemAccount asset db of
             (db, Inl err) \<Rightarrow> (db, Inl err)
           | (db, Inr sys_id) \<Rightarrow>
               Post ''withdrawal'' idempotencyKey
                 [mk_entry locked asset (i64_neg amount), mk_entry sys_id asset amount] db)))"

definition trade_key :: "uint64 \<Rightarrow> nat \<Rightarrow> string" where
  "trade_key seq index = ''trade-'' @ fmt_d seq @ ''-'' @ fmt_d (int index)"

definition SettleTrade :: "Event \<Rightarrow> ledger_db \<Rightarrow> ledger_db \<times> (ledger_error + unit)" where
  "SettleTrade ev db =
     (if ev_Type ev \<noteq> EvtTrade then (db, Inl ErrNotTrade)
      else let (base, quote, ok) = strings_Cut (ev_Symbol ev) (CHR ''-'')
      in if \<not> ok \<or> base = [] \<or> quote = [] then (db, Inl ErrBadSymbol)
      else let quoteAmt = i64_mul (ev_Price ev) (ev_Qty ev)
      in if ev_Price ev \<noteq> 0 \<and> i64_div quoteAmt (ev_Price ev) \<noteq> ev_Qty ev then (db, Inl ErrQuoteOverflow)
      else let (buyer, seller) = (if ev_Side ev = Sell then (ev_MakerUserID ev, ev_TakerUserID ev)
                                  else (ev_TakerUserID ev, ev_MakerUserID ev))
      in case UserAccount buyer quote KindLocked db of
           (db, Inl err) \<Rightarrow> (db, Inl err)
         | (db, Inr buyerLockedQuote) \<Rightarrow>
      (case UserAccount buyer base KindMain db of
           (db, Inl err) \<Rightarrow> (db, Inl err)
         | (db, Inr buyerMainBase) \<Rightarrow>
      (case UserAccount seller base KindLocked db of
           (db, Inl err) \<Rightarrow> (db, Inl err)
         | (db, Inr sellerLockedBase) \<Rightarrow>
      (case UserAccount seller quote KindMain db of
           (db, Inl err) \<Rightarrow> (db, Inl err)
         | (db, Inr sellerMainQuote) \<Rightarrow>
             Post ''trade'' (trade_key (ev_Seq ev) (ev_Index ev))
               [mk_entry buyerLockedQuote quote (i64_neg quoteAmt), mk_entry sellerMainQuote quote quoteAmt,
                mk_entry sellerLockedBase base (i64_neg (ev_Qty ev)), mk_entry buyerMainBase base (ev_Qty ev)] db))))"

section \<open>Reports\<close>

text \<open>\<open>ORDER BY asset, kind\<close>.\<close>

definition UserBalances :: "int64 \<Rightarrow> ledger_db \<Rightarrow> ledger_db \<times> (ledger_error + AccountBalance list)" where
  "UserBalances userID = autocommit (\<lambda>db. (db, Inr
     (map (\<lambda>r. \<lparr>ab_Asset = ac_asset r, ab_Kind = ac_kind r, ab_Balance = ac_balance r\<rparr>)
       (sort_key (\<lambda>r. [ac_asset r, ac_kind r]) (filter (\<lambda>r. ac_user r = Some userID) (db_accounts db))))))"

text \<open>\<open>SUM\<close> over \<open>bigint\<close> is exact (\<open>numeric\<close>).\<close>

definition entry_sum :: "int64 \<Rightarrow> ledger_db \<Rightarrow> int" where
  "entry_sum aid db = (\<Sum>e \<leftarrow> filter (\<lambda>e. en_account e = aid) (db_entries db). en_amount e)"

definition tx_asset_sum :: "int64 \<Rightarrow> string \<Rightarrow> ledger_db \<Rightarrow> int" where
  "tx_asset_sum txID asset db = (\<Sum>e \<leftarrow> filter (\<lambda>e. en_tx e = txID \<and> en_asset e = asset) (db_entries db). en_amount e)"

definition unbalanced_transactions :: "ledger_db \<Rightarrow> (int64 \<times> string) list" where
  "unbalanced_transactions db = filter (\<lambda>(t, a). tx_asset_sum t a db \<noteq> 0)
     (remdups (map (\<lambda>e. (en_tx e, en_asset e)) (db_entries db)))"

definition drifted_accounts :: "ledger_db \<Rightarrow> account_row list" where
  "drifted_accounts db = filter (\<lambda>a. ac_balance a \<noteq> entry_sum (ac_id a) db) (db_accounts db)"

definition CheckInvariants :: "ledger_db \<Rightarrow> ledger_db \<times> (ledger_error + unit)" where
  "CheckInvariants db =
     (case autocommit (\<lambda>db. (db, Inr (length (unbalanced_transactions db)))) db of
        (db, Inl err) \<Rightarrow> (db, Inl err)
      | (db, Inr n) \<Rightarrow>
          if n \<noteq> 0 then (db, Inl (ErrInvariant n))
          else (case autocommit (\<lambda>db. (db, Inr (length (drifted_accounts db)))) db of
                  (db, Inl err) \<Rightarrow> (db, Inl err)
                | (db, Inr n) \<Rightarrow> if n \<noteq> 0 then (db, Inl (ErrInvariant n)) else (db, Inr ())))"

section \<open>Balances, keys and the invariant\<close>

type_synonym acct = "int64 option \<times> string \<times> string"

definition acct_of :: "account_row \<Rightarrow> acct" where
  "acct_of r = (ac_user r, ac_asset r, ac_kind r)"

definition bal :: "ledger_db \<Rightarrow> acct \<Rightarrow> int" where
  "bal db a = (\<Sum>r \<leftarrow> filter (\<lambda>r. acct_of r = a) (db_accounts db). ac_balance r)"

definition posted :: "ledger_db \<Rightarrow> string set" where
  "posted db = set (map tx_key (db_txs db))"

definition owns :: "ledger_db \<Rightarrow> int64 \<Rightarrow> acct \<Rightarrow> bool" where
  "owns db aid a \<longleftrightarrow> (\<exists>r \<in> set (db_accounts db). ac_id r = aid \<and> acct_of r = a)"

definition row_ok :: "account_row \<Rightarrow> bool" where
  "row_ok r \<longleftrightarrow> (ac_user r = None \<longleftrightarrow> ac_kind r = KindSystem) \<and> in_int64 (ac_balance r)
     \<and> (ac_kind r \<noteq> KindSystem \<longrightarrow> 0 \<le> ac_balance r)"

text \<open>What holds of the tables at every moment, also inside a posting.\<close>

definition table_inv :: "ledger_db \<Rightarrow> bool" where
  "table_inv db \<longleftrightarrow> distinct (map ac_id (db_accounts db)) \<and> distinct (map acct_of (db_accounts db))
     \<and> (\<forall>r \<in> set (db_accounts db). ac_id r < db_next_account db \<and> row_ok r \<and> ac_balance r = entry_sum (ac_id r) db
          \<and> ac_asset r \<in> set (db_assets db))
     \<and> (\<forall>e \<in> set (db_entries db). en_tx e < db_next_tx db
          \<and> (\<exists>r \<in> set (db_accounts db). ac_id r = en_account e \<and> ac_asset r = en_asset e))
     \<and> distinct (map tx_key (db_txs db))"

text \<open>Between postings every transaction also nets to zero in every asset.\<close>

definition ledger_inv :: "ledger_db \<Rightarrow> bool" where
  "ledger_inv db \<longleftrightarrow> table_inv db \<and> (\<forall>t a. tx_asset_sum t a db = 0)"

definition same_tables :: "ledger_db \<Rightarrow> ledger_db \<Rightarrow> bool" where
  "same_tables db db' \<longleftrightarrow> db_users db' = db_users db \<and> db_assets db' = db_assets db
     \<and> db_accounts db' = db_accounts db \<and> db_txs db' = db_txs db \<and> db_entries db' = db_entries db
     \<and> db_next_account db \<le> db_next_account db' \<and> db_next_tx db \<le> db_next_tx db'"

lemma same_tables_refl [simp, intro]: "same_tables db db"
  by (simp add: same_tables_def)

lemma same_tables_trans [trans]: "same_tables a b \<Longrightarrow> same_tables b c \<Longrightarrow> same_tables a c"
  by (auto simp: same_tables_def)

lemma same_tables_facts:
  assumes "same_tables db db'"
  shows "bal db' = bal db" "posted db' = posted db" "owns db' = owns db"
    "entry_sum aid db' = entry_sum aid db" "tx_asset_sum t a db' = tx_asset_sum t a db"
  using assms by (auto simp: same_tables_def bal_def posted_def owns_def entry_sum_def tx_asset_sum_def fun_eq_iff)

lemma same_tables_inv:
  assumes "same_tables db db'"
  shows "table_inv db \<Longrightarrow> table_inv db'" "ledger_inv db \<Longrightarrow> ledger_inv db'"
proof -
  have "table_inv db'" if "table_inv db"
    using assms that by (fastforce simp: same_tables_def table_inv_def entry_sum_def)
  then show "table_inv db \<Longrightarrow> table_inv db'" "ledger_inv db \<Longrightarrow> ledger_inv db'"
    by (auto simp: ledger_inv_def same_tables_facts [OF assms])
qed

lemma next_io_same: "next_io db = (io, db') \<Longrightarrow> same_tables db db'"
  by (auto simp: next_io_def same_tables_def split: list.splits)

lemma next_io_ids:
  "next_io db = (io, db') \<Longrightarrow> db_next_tx db' = db_next_tx db \<and> db_next_account db' = db_next_account db"
  by (auto simp: next_io_def split: list.splits)

lemma bal_row:
  assumes "table_inv db" "r \<in> set (db_accounts db)"
  shows "bal db (acct_of r) = ac_balance r"
proof -
  have "filter (\<lambda>x. acct_of x = acct_of r) xs = [r]" if "distinct (map acct_of xs)" "r \<in> set xs" for xs
    using that
  proof (induction xs)
    case (Cons y ys)
    then show ?case by (cases "y = r") (auto simp: filter_empty_conv image_iff)
  qed simp
  with assms show ?thesis by (simp add: bal_def table_inv_def)
qed

lemma bal_absent: "(\<And>aid. \<not> owns db aid a) \<Longrightarrow> bal db a = 0"
  by (auto simp: bal_def owns_def filter_empty_conv)

lemma bal_nonneg:
  assumes "table_inv db" "k \<noteq> KindSystem"
  shows "0 \<le> bal db (u, a, k)"
  unfolding bal_def
proof (intro sum_list_nonneg)
  fix x assume "x \<in> set (map ac_balance (filter (\<lambda>r. acct_of r = (u, a, k)) (db_accounts db)))"
  with assms show "0 \<le> x" by (auto simp: table_inv_def row_ok_def acct_of_def)
qed

lemma owns_unique:
  assumes "table_inv db" "owns db aid a" "owns db aid' a'"
  shows "aid = aid' \<longleftrightarrow> a = a'"
  using assms unfolding table_inv_def owns_def
  by (metis (no_types, lifting) distinct_map inj_onD)

text \<open>What an account lookup does: it may add an empty account, and changes nothing else.\<close>

definition extends :: "ledger_db \<Rightarrow> ledger_db \<Rightarrow> bool" where
  "extends db db' \<longleftrightarrow> db_users db' = db_users db \<and> db_assets db' = db_assets db
     \<and> bal db' = bal db \<and> posted db' = posted db \<and> (\<forall>aid a. owns db aid a \<longrightarrow> owns db' aid a)"

lemma extends_refl [simp, intro]: "extends db db"
  by (simp add: extends_def)

lemma extends_trans [trans]: "extends a b \<Longrightarrow> extends b c \<Longrightarrow> extends a c"
  by (auto simp: extends_def)

lemma same_extends: "same_tables db db' \<Longrightarrow> extends db db'"
  using same_tables_facts [of db db'] by (simp add: extends_def) (simp add: same_tables_def)

lemma upsert_account_effect:
  assumes inv: "ledger_inv db" and k: "user = None \<longleftrightarrow> kind = KindSystem"
    and u: "upsert_account user asset kind db = (db', res)"
  shows "ledger_inv db' \<and> extends db db' \<and> (\<forall>aid. res = Inr aid \<longrightarrow> owns db' aid (user, asset, kind))"
proof -
  have ti: "table_inv db" using inv by (simp add: ledger_inv_def)
  let ?db1 = "db\<lparr>db_next_account := db_next_account db + 1\<rparr>"
  have st: "same_tables db ?db1" by (simp add: same_tables_def)
  note keep = same_tables_inv(2) [OF st inv] same_extends [OF st]
  let ?row = "\<lparr>ac_id = db_next_account db, ac_user = user, ac_asset = asset, ac_kind = kind, ac_balance = 0\<rparr>"
  let ?db2 = "?db1\<lparr>db_accounts := db_accounts db @ [?row]\<rparr>"
  show ?thesis
  proof (cases "find_account user asset kind db")
    case (Some r)
    then have r: "r \<in> set (db_accounts db)" "acct_of r = (user, asset, kind)"
      by (auto simp: find_account_def find_Some_iff acct_of_def)
    have "find_account user asset kind ?db1 = Some r" using Some by (simp add: find_account_def)
    then have "db' = ?db1 \<and> (res = Inr (ac_id r) \<or> (\<exists>e. res = Inl e))" using u by (auto simp: upsert_account_def Let_def split: if_splits)
    moreover have "owns ?db1 (ac_id r) (user, asset, kind)" using r by (auto simp: owns_def)
    ultimately show ?thesis using keep by auto
  next
    case None
    then have fresh: "(user, asset, kind) \<notin> acct_of ` set (db_accounts db)"
      by (auto simp: find_account_def find_None_iff acct_of_def)
    have "find_account user asset kind ?db1 = None" using None by (simp add: find_account_def)
    then consider "db' = ?db1" "\<exists>e. res = Inl e" | "db' = ?db2" "res = Inr (db_next_account db)" "kind \<in> {KindMain, KindLocked, KindSystem}"
        "asset \<in> set (db_assets db)"
      using u by (auto simp: upsert_account_def Let_def split: if_splits)
    then show ?thesis
    proof cases
      case 1
      then show ?thesis using keep by auto
    next
      case 2
      have unused: "db_next_account db \<notin> en_account ` set (db_entries db)" "db_next_account db \<notin> ac_id ` set (db_accounts db)"
        using ti by (fastforce simp: table_inv_def)+
      have es: "entry_sum aid ?db2 = entry_sum aid db" for aid by (simp add: entry_sum_def)
      have z: "entry_sum (db_next_account db) db = 0"
      proof -
        have "filter (\<lambda>e. en_account e = db_next_account db) (db_entries db) = []"
          using unused(1) by (force simp: filter_empty_conv)
        then show ?thesis by (simp add: entry_sum_def)
      qed
      have ok: "row_ok ?row" using k 2(3) by (auto simp: row_ok_def in_int64_def)
      have "table_inv ?db2"
        using ti fresh unused z ok 2(4)
        unfolding table_inv_def es by (fastforce simp: acct_of_def)
      moreover have "tx_asset_sum t a ?db2 = tx_asset_sum t a db" for t a by (simp add: tx_asset_sum_def)
      ultimately have "ledger_inv ?db2" using inv by (simp add: ledger_inv_def)
      moreover have "extends db ?db2" by (auto simp: extends_def bal_def posted_def owns_def fun_eq_iff)
      moreover have "owns ?db2 (db_next_account db) (user, asset, kind)" by (auto simp: owns_def acct_of_def)
      ultimately show ?thesis using 2 by simp
    qed
  qed
qed

lemma autocommit_effect:
  assumes "autocommit stmt db = (db', res)" "P db"
    and "\<And>a b. same_tables a b \<Longrightarrow> P a \<Longrightarrow> P b"
    and "\<And>a b r. P a \<Longrightarrow> stmt a = (b, r) \<Longrightarrow> Q a b \<and> (\<forall>x. r = Inr x \<longrightarrow> R b x)"
    and "\<And>a b. same_tables a b \<Longrightarrow> P a \<Longrightarrow> Q a b" "\<And>a b c. same_tables a b \<Longrightarrow> Q b c \<Longrightarrow> Q a c"
  shows "Q db db' \<and> (\<forall>x. res = Inr x \<longrightarrow> R db' x)"
proof -
  obtain io db1 where n: "next_io db = (io, db1)" by fastforce
  note st = next_io_same [OF n]
  have p1: "P db1" by (rule assms(3) [OF st assms(2)])
  obtain b r where s: "stmt db1 = (b, r)" by fastforce
  from assms(4) [OF p1 s] have q: "Q db1 b" "\<forall>x. r = Inr x \<longrightarrow> R b x" by simp_all
  show ?thesis
    using assms(1) n s q assms(5) [OF st assms(2)] assms(6) [OF st q(1)]
    by (cases io) (auto simp: autocommit_def)
qed

lemma account_lookup:
  assumes "ledger_inv db" "user = None \<longleftrightarrow> kind = KindSystem"
    and "autocommit (upsert_account user asset kind) db = (db', res)"
  shows "ledger_inv db'" "extends db db'" "\<And>aid. res = Inr aid \<Longrightarrow> owns db' aid (user, asset, kind)"
proof -
  have "(ledger_inv db' \<and> extends db db') \<and> (\<forall>aid. res = Inr aid \<longrightarrow> owns db' aid (user, asset, kind))"
    by (rule autocommit_effect [OF assms(3), where P = ledger_inv and Q = "\<lambda>a b. ledger_inv b \<and> extends a b"
          and R = "\<lambda>b aid. owns b aid (user, asset, kind)"])
      (use assms(1) upsert_account_effect [OF _ assms(2)] in
        \<open>auto dest: same_tables_inv same_extends intro: extends_trans\<close>)
  then show "ledger_inv db'" "extends db db'" "\<And>aid. res = Inr aid \<Longrightarrow> owns db' aid (user, asset, kind)" by auto
qed

end
