(* ===== verification/LedgerPost.thy ===== *)
theory LedgerPost
  imports Ledger
begin

text \<open>
  A posting in terms of balances: its effect on the view of the ledger (the posted idempotency keys
  and the balance of every account), and when it succeeds.
\<close>

section \<open>Posting, in terms of balances\<close>

type_synonym moves = "(acct \<times> int) list"

definition moved :: "moves \<Rightarrow> acct \<Rightarrow> int" where
  "moved ms a = (\<Sum>(b, x) \<leftarrow> ms. if b = a then x else 0)"

lemma moved_simps [simp]: "moved [] a = 0" "moved ((b, x) # ms) a = (if b = a then x else 0) + moved ms a"
  by (simp_all add: moved_def)

definition entries_for :: "ledger_db \<Rightarrow> Entry list \<Rightarrow> moves \<Rightarrow> bool" where
  "entries_for db es ms \<longleftrightarrow> list_all2 (\<lambda>e (a, x). owns db (le_AccountID e) a \<and> le_Asset e = fst (snd a) \<and> le_Amount e = x) es ms"

definition entry_of :: "int64 \<Rightarrow> Entry \<Rightarrow> entry_row" where
  "entry_of t e = \<lparr>en_tx = t, en_account = le_AccountID e, en_asset = le_Asset e, en_amount = le_Amount e\<rparr>"

text \<open>One leg: the entry is written and the balance of its account moves with it.\<close>

lemma post_leg:
  assumes inv: "table_inv db" and own: "owns db (le_AccountID e) a" "le_Asset e = fst (snd a)"
    and t: "t < db_next_tx db"
    and ie: "insert_entry t e db = (db1, Inr u)" and st: "same_tables db1 db2" "db_next_tx db2 = db_next_tx db1"
    and ub: "update_balance (le_Amount e) (le_AccountID e) db2 = (db3, Inr n)" "n \<noteq> 0"
  shows "table_inv db3 \<and> bal db3 = (\<lambda>b. bal db b + (if b = a then le_Amount e else 0))
    \<and> db_entries db3 = db_entries db @ [entry_of t e] \<and> db_txs db3 = db_txs db \<and> owns db3 = owns db
    \<and> db_users db3 = db_users db \<and> db_assets db3 = db_assets db \<and> db_next_tx db3 = db_next_tx db"
proof -
  have db1: "db1 = db\<lparr>db_entries := db_entries db @ [entry_of t e]\<rparr>"
    using ie by (auto simp: insert_entry_def entry_of_def split: if_splits)
  have tabs: "db_accounts db2 = db_accounts db" "db_entries db2 = db_entries db @ [entry_of t e]" "db_txs db2 = db_txs db"
    "db_users db2 = db_users db" "db_assets db2 = db_assets db" "db_next_account db \<le> db_next_account db2" "db_next_tx db2 = db_next_tx db"
    using st by (simp_all add: same_tables_def db1)
  obtain r where r: "r \<in> set (db_accounts db)" "ac_id r = le_AccountID e" "acct_of r = a" using own by (auto simp: owns_def)
  have uq: "r' = r" if "r' \<in> set (db_accounts db)" "ac_id r' = le_AccountID e" for r'
    using inv r(1,2) that unfolding table_inv_def distinct_map by (metis inj_onD)
  have "find (\<lambda>r. ac_id r = le_AccountID e) (db_accounts db) = Some r"
    using inv r(1,2) by (intro find_distinct_key) (auto simp: table_inv_def distinct_map)
  then have ok: "in_int64 (ac_balance r + le_Amount e)" "ac_kind r = KindSystem \<or> 0 \<le> ac_balance r + le_Amount e"
    and db3: "db3 = db2\<lparr>db_accounts := map (\<lambda>r. if ac_id r = le_AccountID e then r\<lparr>ac_balance := ac_balance r + le_Amount e\<rparr> else r)
                     (db_accounts db)\<rparr>"
    using ub by (auto simp: update_balance_def tabs split: if_splits)
  let ?f = "\<lambda>r. if ac_id r = le_AccountID e then r\<lparr>ac_balance := ac_balance r + le_Amount e\<rparr> else r"
  have f: "ac_id (?f x) = ac_id x" "acct_of (?f x) = acct_of x" "ac_kind (?f x) = ac_kind x" "ac_asset (?f x) = ac_asset x" for x
    by (simp_all add: acct_of_def)
  have ids: "map ac_id (map ?f (db_accounts db)) = map ac_id (db_accounts db)" "map acct_of (map ?f (db_accounts db)) = map acct_of (db_accounts db)"
    by (simp_all add: acct_of_def)
  have es: "entry_sum aid db3 = entry_sum aid db + (if aid = le_AccountID e then le_Amount e else 0)" for aid
    by (simp add: entry_sum_def db3 tabs entry_of_def)
  have rows: "ac_id x < db_next_account db3 \<and> row_ok x \<and> ac_balance x = entry_sum (ac_id x) db3 \<and> ac_asset x \<in> set (db_assets db3)"
    if x: "x \<in> set (db_accounts db3)" for x
  proof -
    obtain y where y: "y \<in> set (db_accounts db)" "x = ?f y" using x by (auto simp: db3)
    have yi: "ac_id y < db_next_account db" "row_ok y" "ac_balance y = entry_sum (ac_id y) db" "ac_asset y \<in> set (db_assets db)"
      using inv y(1) by (auto simp: table_inv_def)
    then have "row_ok (?f y)" using ok uq [OF y(1)] by (cases "ac_id y = le_AccountID e") (auto simp: row_ok_def)
    moreover have "db_next_account db3 = db_next_account db2" "db_assets db3 = db_assets db" by (simp_all add: db3 tabs)
    ultimately show ?thesis using yi y tabs(6) by (auto simp: es)
  qed
  have ents: "en_tx x < db_next_tx db3 \<and> (\<exists>r \<in> set (db_accounts db3). ac_id r = en_account x \<and> ac_asset r = en_asset x)"
    if x: "x \<in> set (db_entries db3)" for x
  proof -
    obtain y where "y \<in> set (db_accounts db)" "ac_id y = en_account x" "ac_asset y = en_asset x" and "en_tx x < db_next_tx db"
      using x inv r own(2) t by (auto simp: db3 tabs table_inv_def entry_of_def acct_of_def)
    moreover from this(1) have "?f y \<in> set (db_accounts db3)" by (simp add: db3)
    ultimately show ?thesis using f(1,4) [of y] by (intro conjI bexI [of _ "?f y"]) (simp_all add: db3 tabs)
  qed
  have acc3: "db_accounts db3 = map ?f (db_accounts db)" "db_txs db3 = db_txs db" by (simp_all add: db3 tabs)
  have "table_inv db3"
    unfolding table_inv_def
  proof (intro conjI ballI)
    show "distinct (map ac_id (db_accounts db3))" "distinct (map acct_of (db_accounts db3))" "distinct (map tx_key (db_txs db3))"
      using inv unfolding acc3 ids by (simp_all add: table_inv_def)
  qed (use rows ents in blast)+
  moreover have "bal db3 b = bal db b + (if b = a then le_Amount e else 0)" for b
  proof -
    have "(\<Sum>x \<leftarrow> filter (\<lambda>x. acct_of x = b) (map ?f xs). ac_balance x)
        = (\<Sum>x \<leftarrow> filter (\<lambda>x. acct_of x = b) xs. ac_balance x) + (if b = a \<and> r \<in> set xs then le_Amount e else 0)"
      if "set xs \<subseteq> set (db_accounts db)" "distinct xs" for xs
      using that
    proof (induction xs)
      case (Cons y ys)
      show ?case
      proof (cases "ac_id y = le_AccountID e")
        case True
        then have "y = r" using uq Cons.prems by simp
        with Cons r show ?thesis by (auto simp: f(2) acct_of_def)
      next
        case False
        with Cons r show ?thesis by (auto simp: acct_of_def)
      qed
    qed simp
    moreover have "distinct (db_accounts db)" using inv by (auto simp: table_inv_def distinct_map)
    ultimately show ?thesis using r(1) by (simp add: bal_def db3)
  qed
  moreover have "owns db3 = owns db"
    unfolding owns_def acc3 by (simp only: set_map bex_simps f)
  ultimately show ?thesis by (auto simp: db3 tabs)
qed

lemma post_entries_effect:
  assumes "table_inv db" "entries_for db es ms" "t < db_next_tx db" "post_entries t es db = (db', Inr u)"
  shows "table_inv db' \<and> bal db' = (\<lambda>a. bal db a + moved ms a)
    \<and> db_entries db' = db_entries db @ map (entry_of t) es \<and> db_txs db' = db_txs db \<and> owns db' = owns db
    \<and> db_users db' = db_users db \<and> db_assets db' = db_assets db \<and> db_next_tx db' = db_next_tx db"
  using assms
proof (induction es arbitrary: db ms)
  case Nil
  then show ?case by (simp add: entries_for_def)
next
  case (Cons e es)
  obtain a x ms' where ms: "ms = (a, x) # ms'" and own: "owns db (le_AccountID e) a" "le_Asset e = fst (snd a)" "le_Amount e = x"
    and rest: "entries_for db es ms'"
    using Cons.prems(2) by (auto simp: entries_for_def list_all2_Cons1)
  obtain io0 db0 where n0: "next_io db = (io0, db0)" by fastforce
  obtain db1 r1 where i: "insert_entry t e db0 = (db1, r1)" by fastforce
  obtain io1 db2 where n1: "next_io db1 = (io1, db2)" by fastforce
  obtain db3 r3 where u3: "update_balance (le_Amount e) (le_AccountID e) db2 = (db3, r3)" by fastforce
  have ok: "io0 = DbOk" "r1 = Inr ()" "io1 = DbOk" and "\<exists>n. r3 = Inr n \<and> n \<noteq> 0 \<and> post_entries t es db3 = (db', Inr u)"
    using Cons.prems(4) by (auto simp: n0 i n1 u3 split: db_io.splits sum.splits if_splits)
  then obtain n where n: "r3 = Inr n" "n \<noteq> 0" "post_entries t es db3 = (db', Inr u)" by blast
  note st0 = next_io_same [OF n0]
  note f0 = same_tables_facts [OF st0]
  have leg: "table_inv db3 \<and> bal db3 = (\<lambda>b. bal db0 b + (if b = a then le_Amount e else 0))
    \<and> db_entries db3 = db_entries db0 @ [entry_of t e] \<and> db_txs db3 = db_txs db0 \<and> owns db3 = owns db0
    \<and> db_users db3 = db_users db0 \<and> db_assets db3 = db_assets db0 \<and> db_next_tx db3 = db_next_tx db0"
    by (rule post_leg [OF same_tables_inv(1) [OF st0 Cons.prems(1)] _ own(2) _ i [unfolded ok(2)] next_io_same [OF n1] _ u3 [unfolded n(1)] n(2)])
      (use own(1) f0 Cons.prems(3) next_io_ids [OF n0] next_io_ids [OF n1] in auto)
  then have "entries_for db3 es ms'" using rest f0(3) by (simp add: entries_for_def)
  from Cons.IH [OF _ this _ n(3)] leg Cons.prems(3) next_io_ids [OF n0] st0 f0(1,3) own(3)
  show ?case by (auto simp: ms same_tables_def fun_eq_iff)
qed

text \<open>
  The effect of a posting for a list of moves under an idempotency key: nothing, or all of the
  moves and the key. The result tells which, except for an error after the commit.
\<close>

type_synonym lview = "string set \<times> (acct \<Rightarrow> int)"

definition view :: "ledger_db \<Rightarrow> lview" where
  "view db = (posted db, bal db)"

definition applied :: "string \<Rightarrow> moves \<Rightarrow> lview \<Rightarrow> lview \<Rightarrow> bool" where
  "applied key ms v v' \<longleftrightarrow> key \<notin> fst v \<and> fst v' = insert key (fst v) \<and> snd v' = (\<lambda>a. snd v a + moved ms a)"

definition post_effect :: "string \<Rightarrow> moves \<Rightarrow> lview \<Rightarrow> lview \<Rightarrow> ledger_error + unit \<Rightarrow> bool" where
  "post_effect key ms v v' res \<longleftrightarrow>
     (case res of
        Inr _ \<Rightarrow> if key \<in> fst v then v' = v else applied key ms v v'
      | Inl err \<Rightarrow> v' = v \<or> (err = ErrDb \<and> applied key ms v v'))"

lemma post_effect_extends:
  assumes "extends db db1" "post_effect key ms (view db1) (view db') res"
  shows "post_effect key ms (view db) (view db') res"
  using assms by (simp add: extends_def view_def)

lemma post_effect_error: "extends db db' \<Longrightarrow> post_effect key ms (view db) (view db') (Inl err)"
  by (simp add: post_effect_def extends_def view_def)

lemma asset_sum_wrap: "asset_sum a es = wrap64 (\<Sum>e \<leftarrow> filter (\<lambda>e. le_Asset e = a) es. le_Amount e)"
proof -
  have "foldl (\<lambda>s e. if le_Asset e = a then i64_add s (le_Amount e) else s) x es
      = wrap64 (x + (\<Sum>e \<leftarrow> filter (\<lambda>e. le_Asset e = a) es. le_Amount e))" if "in_int64 x" for x
    using that by (induction es arbitrary: x) (simp_all add: i64_defs wrap64_add_left add.assoc)
  from this [of 0] show ?thesis by (simp add: asset_sum_def in_int64_def)
qed

definition exact_balanced :: "Entry list \<Rightarrow> bool" where
  "exact_balanced es \<longleftrightarrow> (\<forall>a. (\<Sum>e \<leftarrow> filter (\<lambda>e. le_Asset e = a) es. le_Amount e) = 0)"

lemma exact_sums_zero: "exact_balanced es \<Longrightarrow> sums_zero es"
  by (simp add: exact_balanced_def sums_zero_def asset_sum_wrap in_int64_def)

lemma rollback_same:
  assumes "same_tables db0 db" "db_next_account db \<le> db_next_account db'" "db_next_tx db \<le> db_next_tx db'"
  shows "same_tables db0 (rollback db0 db')"
  using assms by (auto simp: rollback_def same_tables_def)

lemma post_entries_ids:
  "post_entries t es db = (db', res) \<Longrightarrow> db_next_tx db' = db_next_tx db \<and> db_next_account db' = db_next_account db"
proof (induction es arbitrary: db)
  case (Cons e es)
  have ie: "insert_entry t e a = (b, r) \<Longrightarrow> db_next_tx b = db_next_tx a \<and> db_next_account b = db_next_account a" for a b r
    by (auto simp: insert_entry_def split: if_splits)
  have ub: "update_balance x y a = (b, r) \<Longrightarrow> db_next_tx b = db_next_tx a \<and> db_next_account b = db_next_account a" for x y a b r
    by (auto simp: update_balance_def split: if_splits option.splits)
  show ?case
    using Cons.prems
    by (auto split: prod.splits db_io.splits sum.splits if_splits dest!: next_io_ids ie ub Cons.IH)
qed simp

lemma Post_effect:
  assumes inv: "ledger_inv db" and ef: "entries_for db es ms" and bl: "exact_balanced es"
    and p: "Post kind key es db = (db', res)"
  shows "ledger_inv db' \<and> post_effect key ms (view db) (view db') res"
proof -
  have noeff: "ledger_inv d \<and> view d = view db" if "same_tables db d" for d
    using same_tables_inv(2) [OF that inv] same_tables_facts [OF that] by (simp add: view_def)
  obtain io0 db0 where n0: "next_io db = (io0, db0)" by fastforce
  obtain io1 db1 where n1: "next_io db0 = (io1, db1)" by fastforce
  obtain db2 t where it: "insert_tx kind key db1 = (db2, t)" by fastforce
  have s0: "same_tables db db0" by (rule next_io_same [OF n0])
  have s1: "same_tables db0 db1" by (rule next_io_same [OF n1])
  have s01: "same_tables db db1" using s0 s1 by (rule same_tables_trans)
  have nx2: "db_next_tx db2 = db_next_tx db1 + 1" "db_next_account db2 = db_next_account db1"
    using it by (auto simp: insert_tx_def Let_def split: if_splits)
  have roll: "same_tables db (rollback db0 d)" if "db_next_account db1 \<le> db_next_account d" "db_next_tx db1 \<le> db_next_tx d" for d
    using s0 rollback_same [OF s1 that] by (rule same_tables_trans)

  consider (beg) "io0 \<noteq> DbOk" "db' = db0" "res = Inl ErrDb"
    | (ins) "io0 = DbOk" "io1 \<noteq> DbOk" "db' = rollback db0 db1" "res = Inl ErrDb"
    | (dup) "t = None" "db' = rollback db0 db2" "res = Inr ()"
    | (go) tid where "t = Some tid" "io0 = DbOk" "io1 = DbOk"
    using p exact_sums_zero [OF bl] by (cases io0; cases io1; cases t) (auto simp: Post_def n0 n1 it)
  then show ?thesis
  proof cases
    case beg
    from noeff [OF s0] show ?thesis unfolding beg post_effect_def by (simp add: view_def)
  next
    case ins
    then show ?thesis using noeff [OF roll] by (simp add: post_effect_def view_def)
  next
    case dup
    then have "key \<in> posted db1" using it by (auto simp: insert_tx_def Let_def posted_def split: if_splits)
    then have "key \<in> posted db" using same_tables_facts(2) [OF s01] by simp
    with dup show ?thesis using noeff [OF roll [of db2]] nx2 by (simp add: post_effect_def view_def)
  next
    case (go tid)
    then have fresh: "key \<notin> posted db1" and tid: "tid = db_next_tx db1"
      and db2: "db2 = db1\<lparr>db_next_tx := db_next_tx db1 + 1, db_txs := db_txs db1 @ [\<lparr>tx_id = tid, tx_kind = kind, tx_key = key\<rparr>]\<rparr>"
      using it by (auto simp: insert_tx_def Let_def posted_def split: if_splits)
    have ti1: "table_inv db1" using same_tables_inv(2) [OF s01 inv] by (simp add: ledger_inv_def)
    have es2: "entry_sum aid db2 = entry_sum aid db1" for aid by (simp add: entry_sum_def db2)
    have "en_tx e < db_next_tx db1" if "e \<in> set (db_entries db1)" for e using ti1 that by (auto simp: table_inv_def)
    then have "en_tx e < db_next_tx db1 + 1" if "e \<in> set (db_entries db1)" for e using that by fastforce
    then have ti2: "table_inv db2"
      using ti1 fresh unfolding table_inv_def es2 by (auto simp: db2 posted_def)
    have facts2: "bal db2 = bal db" "owns db2 = owns db" "posted db2 = insert key (posted db)"
      using same_tables_facts [OF s01] by (auto simp: db2 bal_def owns_def posted_def fun_eq_iff)
    have ef2: "entries_for db2 es ms" using ef facts2(2) by (simp add: entries_for_def)
    obtain db3 r where pe: "post_entries tid es db2 = (db3, r)" by fastforce
    note nx3 = post_entries_ids [OF pe]
    show ?thesis
    proof (cases r)
      case (Inl err)
      then have "db' = rollback db0 db3" "res = Inl err" using p exact_sums_zero [OF bl] go by (simp_all add: Post_def n0 n1 it pe)
      then show ?thesis using noeff [OF roll [of db3]] nx2 nx3 by (simp add: post_effect_def view_def)
    next
      case (Inr u)
      have eff: "table_inv db3" "bal db3 = (\<lambda>a. bal db2 a + moved ms a)" "db_entries db3 = db_entries db2 @ map (entry_of tid) es"
        "db_txs db3 = db_txs db2" "db_next_tx db3 = db_next_tx db2"
        using post_entries_effect [OF ti2 ef2 _ pe [unfolded Inr]] tid nx2 by auto
      have sums: "tx_asset_sum s a db3 = 0" for s a
      proof -
        have "tx_asset_sum s a db1 = 0" using same_tables_facts(5) [OF s01] inv by (simp add: ledger_inv_def)
        moreover have "(\<Sum>e \<leftarrow> filter (\<lambda>e. en_tx e = s \<and> en_asset e = a) (map (entry_of tid) es). en_amount e) = 0"
        proof (cases "s = tid")
          case True
          have "(\<Sum>e \<leftarrow> filter (\<lambda>e. en_tx e = tid \<and> en_asset e = a) (map (entry_of tid) es). en_amount e)
              = (\<Sum>e \<leftarrow> filter (\<lambda>e. le_Asset e = a) es. le_Amount e)"
            by (induction es) (simp_all add: entry_of_def)
          with True bl show ?thesis by (simp add: exact_balanced_def)
        next
          case False
          then have "filter (\<lambda>e. en_tx e = s \<and> en_asset e = a) (map (entry_of tid) es) = []"
            by (auto simp: filter_empty_conv entry_of_def)
          then show ?thesis by simp
        qed
        ultimately show ?thesis by (simp add: tx_asset_sum_def eff(3) db2)
      qed
      have li3: "ledger_inv db3" using eff(1) sums by (simp add: ledger_inv_def)
      have "key \<notin> posted db" using fresh same_tables_facts(2) [OF s01] by simp
      then have ap: "applied key ms (view db) (view d)" if "same_tables db3 d" for d
        using same_tables_facts [OF that] facts2 eff(2,4) by (simp add: applied_def posted_def view_def)
      obtain io4 db4 where n4: "next_io db3 = (io4, db4)" by fastforce
      note s4 = next_io_same [OF n4]
      have c: "(db', res) = commit db0 db3" using p exact_sums_zero [OF bl] go Inr by (simp add: Post_def n0 n1 it pe)
      have rb: "same_tables db (rollback db0 db4)" using roll [of db4] nx2 nx3 next_io_ids [OF n4] by simp
      have "key \<notin> posted db" by fact
      with c ap [OF s4] same_tables_inv(2) [OF s4 li3] noeff [OF rb] show ?thesis
        by (cases io4) (auto simp: commit_def n4 post_effect_def view_def)
    qed
  qed
qed

section \<open>When a posting succeeds\<close>

text \<open>Every leg, in order, leaves its account in range and a user account not negative.\<close>

fun moves_ok :: "(acct \<Rightarrow> int) \<Rightarrow> moves \<Rightarrow> bool" where
  "moves_ok b [] \<longleftrightarrow> True"
| "moves_ok b ((a, x) # ms) \<longleftrightarrow> in_int64 (b a + x) \<and> (snd (snd a) = KindSystem \<or> 0 \<le> b a + x)
     \<and> moves_ok (b(a := b a + x)) ms"

lemma next_io_ok [simp]: "db_sched db = [] \<Longrightarrow> next_io db = (DbOk, db)"
  by (simp add: next_io_def)

lemma insert_entry_known:
  assumes "table_inv db" "owns db (le_AccountID e) a" "le_Asset e = fst (snd a)"
  shows "insert_entry t e db = (db\<lparr>db_entries := db_entries db @ [entry_of t e]\<rparr>, Inr ())"
proof -
  obtain r where "r \<in> set (db_accounts db)" "ac_id r = le_AccountID e" "acct_of r = a" using assms(2) by (auto simp: owns_def)
  then have "le_AccountID e \<in> set (map ac_id (db_accounts db))" "le_Asset e \<in> set (db_assets db)"
    using assms(1,3) by (force simp: table_inv_def acct_of_def)+
  then show ?thesis by (simp add: insert_entry_def entry_of_def)
qed

lemma update_balance_known:
  assumes "table_inv db" "owns db aid a" "db_accounts db' = db_accounts db"
  shows "snd (update_balance x aid db') = (if \<not> in_int64 (bal db a + x) then Inl ErrDb
    else if snd (snd a) = KindSystem \<or> 0 \<le> bal db a + x then Inr 1 else Inr 0)"
proof -
  obtain r where r: "r \<in> set (db_accounts db)" "ac_id r = aid" "acct_of r = a" using assms(2) by (auto simp: owns_def)
  have "find (\<lambda>r. ac_id r = aid) (db_accounts db') = Some r"
    using assms(1,3) r(1,2) by (intro find_distinct_key) (auto simp: table_inv_def distinct_map)
  moreover have "bal db a = ac_balance r" using bal_row [OF assms(1) r(1)] r(3) by simp
  moreover have "snd (snd a) = ac_kind r" using r(3) by (auto simp: acct_of_def)
  ultimately show ?thesis by (simp add: update_balance_def)
qed

lemma post_entries_sched:
  "db_sched db = [] \<Longrightarrow> db_sched (fst (post_entries t es db)) = []"
proof (induction es arbitrary: db)
  case (Cons e es)
  have ie: "insert_entry t e a = (b, r) \<Longrightarrow> db_sched b = db_sched a" for a b r
    by (auto simp: insert_entry_def split: if_splits)
  have ub: "update_balance x y a = (b, r) \<Longrightarrow> db_sched b = db_sched a" for x y a b r
    by (auto simp: update_balance_def split: if_splits option.splits)
  obtain d1 r1 where i: "insert_entry t e db = (d1, r1)" by fastforce
  obtain d2 r2 where u: "update_balance (le_Amount e) (le_AccountID e) d1 = (d2, r2)" by fastforce
  have "db_sched d1 = []" "db_sched d2 = []" using ie [OF i] ub [OF u] Cons.prems by simp_all
  with Cons show ?case by (auto simp: i u split: sum.split)
qed simp

lemma post_entries_iff:
  assumes "table_inv db" "entries_for db es ms" "t < db_next_tx db" "db_sched db = []"
  shows "(\<exists>u. snd (post_entries t es db) = Inr u) \<longleftrightarrow> moves_ok (bal db) ms"
  using assms
proof (induction es arbitrary: db ms)
  case Nil
  then show ?case by (simp add: entries_for_def)
next
  case (Cons e es)
  obtain a x ms' where ms: "ms = (a, x) # ms'" and own: "owns db (le_AccountID e) a" "le_Asset e = fst (snd a)" "le_Amount e = x"
    and rest: "entries_for db es ms'"
    using Cons.prems(2) by (auto simp: entries_for_def list_all2_Cons1)
  let ?db1 = "db\<lparr>db_entries := db_entries db @ [entry_of t e]\<rparr>"
  note ie = insert_entry_known [OF Cons.prems(1) own(1,2), of t]
  obtain db3 r3 where u: "update_balance (le_Amount e) (le_AccountID e) ?db1 = (db3, r3)" by fastforce
  have r3: "r3 = (if \<not> in_int64 (bal db a + x) then Inl ErrDb
    else if snd (snd a) = KindSystem \<or> 0 \<le> bal db a + x then Inr 1 else Inr 0)"
    using update_balance_known [OF Cons.prems(1) own(1), of ?db1 x] u own(3) by simp
  have s3: "db_sched db3 = []" using u Cons.prems(4) by (auto simp: update_balance_def split: if_splits option.splits)
  show ?case
  proof (cases "in_int64 (bal db a + x) \<and> (snd (snd a) = KindSystem \<or> 0 \<le> bal db a + x)")
    case False
    then show ?thesis using Cons.prems(4) by (auto simp: ms ie u r3)
  next
    case True
    then have r31: "r3 = Inr 1" by (simp add: r3)
    have leg: "table_inv db3 \<and> bal db3 = (\<lambda>b. bal db b + (if b = a then le_Amount e else 0))
      \<and> db_entries db3 = db_entries db @ [entry_of t e] \<and> db_txs db3 = db_txs db \<and> owns db3 = owns db
      \<and> db_users db3 = db_users db \<and> db_assets db3 = db_assets db \<and> db_next_tx db3 = db_next_tx db"
      by (rule post_leg [OF Cons.prems(1) own(1,2) Cons.prems(3) ie same_tables_refl refl u [unfolded r31]]) simp
    then have "entries_for db3 es ms'" using rest by (simp add: entries_for_def)
    from Cons.IH [OF _ this _ s3] leg Cons.prems(3)
    have "(\<exists>u. snd (post_entries t es db3) = Inr u) \<longleftrightarrow> moves_ok (bal db3) ms'" by simp
    moreover have "bal db3 = (bal db)(a := bal db a + x)" using leg own(3) by (auto simp: fun_eq_iff)
    ultimately show ?thesis using True Cons.prems(4) by (simp add: ms ie u r31)
  qed
qed

lemma Post_iff:
  assumes inv: "ledger_inv db" and ef: "entries_for db es ms" and bl: "exact_balanced es" and sc: "db_sched db = []"
  shows "snd (Post kind key es db) = Inr () \<longleftrightarrow> key \<in> posted db \<or> moves_ok (bal db) ms"
proof -
  have ti: "table_inv db" using inv by (simp add: ledger_inv_def)
  let ?t = "db_next_tx db"
  let ?db2 = "db\<lparr>db_next_tx := ?t + 1, db_txs := db_txs db @ [\<lparr>tx_id = ?t, tx_kind = kind, tx_key = key\<rparr>]\<rparr>"
  show ?thesis
  proof (cases "key \<in> posted db")
    case True
    then show ?thesis using sc exact_sums_zero [OF bl] by (simp add: Post_def insert_tx_def posted_def)
  next
    case False
    have es2: "entry_sum aid ?db2 = entry_sum aid db" for aid by (simp add: entry_sum_def)
    have "en_tx e < ?t + 1" if "e \<in> set (db_entries db)" for e using ti that by (fastforce simp: table_inv_def)
    then have "table_inv ?db2" using ti False unfolding table_inv_def es2 by (auto simp: posted_def)
    moreover have "entries_for ?db2 es ms" using ef by (simp add: entries_for_def owns_def)
    moreover have "bal ?db2 = bal db" by (simp add: bal_def fun_eq_iff)
    ultimately have iff: "(\<exists>u. snd (post_entries ?t es ?db2) = Inr u) \<longleftrightarrow> moves_ok (bal db) ms"
      using post_entries_iff [of ?db2 es ms ?t] sc by simp
    obtain db3 r where pe: "post_entries ?t es ?db2 = (db3, r)" by fastforce
    have "db_sched db3 = []" using post_entries_sched [of ?db2 ?t es] sc pe by simp
    then show ?thesis
      using False iff pe sc exact_sums_zero [OF bl]
      by (cases r) (auto simp: Post_def insert_tx_def posted_def commit_def Let_def)
  qed
qed

end
