(* ===== verification/LedgerOps.thy ===== *)
theory LedgerOps
  imports LedgerPost
begin

text \<open>
  The movements of the ledger: the effect of each, the contract \<open>ledger_contract\<close> its clients rely
  on with its interpretation on the model, conservation of every asset, and the properties of the
  ledger.
\<close>

section \<open>The effect of every movement\<close>

definition deposit_moves :: "int64 \<Rightarrow> string \<Rightarrow> int64 \<Rightarrow> moves" where
  "deposit_moves u asset x = [((None, asset, KindSystem), - x), ((Some u, asset, KindMain), x)]"

definition transfer_moves :: "int64 \<Rightarrow> string \<Rightarrow> string \<Rightarrow> string \<Rightarrow> int64 \<Rightarrow> moves" where
  "transfer_moves u asset fromKind toKind x = [((Some u, asset, fromKind), - x), ((Some u, asset, toKind), x)]"

definition withdrawal_moves :: "int64 \<Rightarrow> string \<Rightarrow> int64 \<Rightarrow> moves" where
  "withdrawal_moves u asset x = [((Some u, asset, KindLocked), - x), ((None, asset, KindSystem), x)]"

definition trade_moves :: "int64 \<Rightarrow> int64 \<Rightarrow> string \<Rightarrow> string \<Rightarrow> int64 \<Rightarrow> int64 \<Rightarrow> moves" where
  "trade_moves buyer seller base quote quoteAmt qty =
     [((Some buyer, quote, KindLocked), - quoteAmt), ((Some seller, quote, KindMain), quoteAmt),
      ((Some seller, base, KindLocked), - qty), ((Some buyer, base, KindMain), qty)]"

lemma kinds [simp]: "KindMain \<noteq> KindSystem" "KindLocked \<noteq> KindSystem" "KindMain \<noteq> KindLocked"
  "KindSystem \<noteq> KindMain" "KindSystem \<noteq> KindLocked" "KindLocked \<noteq> KindMain"
  by (simp_all add: KindMain_def KindLocked_def KindSystem_def)

lemma i64_neg_exact: "in_int64 x \<Longrightarrow> 0 < x \<Longrightarrow> i64_neg x = - x"
  by (auto simp: i64_defs in_int64_def intro!: wrap64_id)

lemma exact_pair: "exact_balanced [mk_entry i a (- x), mk_entry j a x]"
  by (simp add: exact_balanced_def mk_entry_def)

lemma owns_extends: "extends db db' \<Longrightarrow> owns db aid a \<Longrightarrow> owns db' aid a"
  unfolding extends_def by blast

lemma UserAccount_effect:
  assumes "ledger_inv db" "kind \<noteq> KindSystem" "UserAccount u asset kind db = (db', res)"
  shows "ledger_inv db'" "extends db db'" "\<And>aid. res = Inr aid \<Longrightarrow> owns db' aid (Some u, asset, kind)"
  using account_lookup [of db "Some u" kind asset db' res] assms by (auto simp: UserAccount_def)

lemma SystemAccount_effect:
  assumes "ledger_inv db" "SystemAccount asset db = (db', res)"
  shows "ledger_inv db'" "extends db db'" "\<And>aid. res = Inr aid \<Longrightarrow> owns db' aid (None, asset, KindSystem)"
  using account_lookup [of db None KindSystem asset db' res] assms by (auto simp: SystemAccount_def)

text \<open>Two accounts, then a posting of two opposite legs.\<close>

lemma two_leg_effect:
  assumes e1: "ledger_inv db1" "extends db db1" "owns db1 i a1"
    and e2: "ledger_inv db2" "extends db1 db2" "owns db2 j a2"
    and as: "fst (snd a1) = asset" "fst (snd a2) = asset"
    and p: "Post kind key [mk_entry i asset (- x), mk_entry j asset x] db2 = (db', res)"
  shows "ledger_inv db' \<and> post_effect key [(a1, - x), (a2, x)] (view db) (view db') res"
proof -
  have "entries_for db2 [mk_entry i asset (- x), mk_entry j asset x] [(a1, - x), (a2, x)]"
    using e1(3) e2 as by (simp add: entries_for_def mk_entry_def owns_extends)
  from Post_effect [OF e2(1) this exact_pair p] show ?thesis
    using extends_trans [OF e1(2) e2(2)] by (auto intro: post_effect_extends)
qed

lemma transfer_effect:
  assumes inv: "ledger_inv db" and x: "in_int64 x" and k: "k1 \<noteq> KindSystem" "k2 \<noteq> KindSystem"
    and t: "transfer kind key u asset k1 k2 x db = (db', res)"
  shows "ledger_inv db' \<and> post_effect key (transfer_moves u asset k1 k2 x) (view db) (view db') res"
proof (cases "x \<le> 0")
  case True
  then show ?thesis using inv t by (auto simp: transfer_def post_effect_def)
next
  case False
  obtain db1 r1 where 1: "UserAccount u asset k1 db = (db1, r1)" by fastforce
  obtain db2 r2 where 2: "UserAccount u asset k2 db1 = (db2, r2)" by fastforce
  note e1 = UserAccount_effect [OF inv k(1) 1]
  note e2 = UserAccount_effect [OF e1(1) k(2) 2]
  show ?thesis
  proof (cases r1; cases r2)
    fix i j assume r: "r1 = Inr i" "r2 = Inr j"
    have "Post kind key [mk_entry i asset (- x), mk_entry j asset x] db2 = (db', res)"
      using t False r 1 2 i64_neg_exact [OF x] by (simp add: transfer_def)
    from two_leg_effect [OF e1(1,2) e1(3) [OF r(1)] e2(1,2) e2(3) [OF r(2)] _ _ this] show ?thesis
      by (simp add: transfer_moves_def)
  qed (use t False 1 2 e1 e2 in \<open>auto simp: transfer_def intro!: post_effect_error intro: extends_trans\<close>)
qed

lemma Lock_effect:
  assumes "ledger_inv db" "in_int64 x" "Lock u asset x key db = (db', res)"
  shows "ledger_inv db' \<and> post_effect key (transfer_moves u asset KindMain KindLocked x) (view db) (view db') res"
  by (rule transfer_effect [OF assms(1,2) _ _ assms(3) [unfolded Lock_def]]) simp_all

lemma Unlock_effect:
  assumes "ledger_inv db" "in_int64 x" "Unlock u asset x key db = (db', res)"
  shows "ledger_inv db' \<and> post_effect key (transfer_moves u asset KindLocked KindMain x) (view db) (view db') res"
  by (rule transfer_effect [OF assms(1,2) _ _ assms(3) [unfolded Unlock_def]]) simp_all

lemma Deposit_effect:
  assumes inv: "ledger_inv db" and x: "in_int64 x" and t: "Deposit u asset x key db = (db', res)"
  shows "ledger_inv db' \<and> post_effect key (deposit_moves u asset x) (view db) (view db') res"
proof (cases "x \<le> 0")
  case True
  then show ?thesis using inv t by (auto simp: Deposit_def post_effect_def)
next
  case False
  obtain db1 r1 where 1: "SystemAccount asset db = (db1, r1)" by fastforce
  obtain db2 r2 where 2: "UserAccount u asset KindMain db1 = (db2, r2)" by fastforce
  note e1 = SystemAccount_effect [OF inv 1]
  note e2 = UserAccount_effect [OF e1(1) kinds(1) 2]
  show ?thesis
  proof (cases r1; cases r2)
    fix i j assume r: "r1 = Inr i" "r2 = Inr j"
    have "Post ''deposit'' key [mk_entry i asset (- x), mk_entry j asset x] db2 = (db', res)"
      using t False r 1 2 i64_neg_exact [OF x] by (simp add: Deposit_def)
    from two_leg_effect [OF e1(1,2) e1(3) [OF r(1)] e2(1,2) e2(3) [OF r(2)] _ _ this] show ?thesis
      by (simp add: deposit_moves_def)
  qed (use t False 1 2 e1 e2 in \<open>auto simp: Deposit_def intro!: post_effect_error intro: extends_trans\<close>)
qed

lemma SettleWithdrawal_effect:
  assumes inv: "ledger_inv db" and x: "in_int64 x" and t: "SettleWithdrawal u asset x key db = (db', res)"
  shows "ledger_inv db' \<and> post_effect key (withdrawal_moves u asset x) (view db) (view db') res"
proof (cases "x \<le> 0")
  case True
  then show ?thesis using inv t by (auto simp: SettleWithdrawal_def post_effect_def)
next
  case False
  obtain db1 r1 where 1: "UserAccount u asset KindLocked db = (db1, r1)" by fastforce
  obtain db2 r2 where 2: "SystemAccount asset db1 = (db2, r2)" by fastforce
  note e1 = UserAccount_effect [OF inv kinds(2) 1]
  note e2 = SystemAccount_effect [OF e1(1) 2]
  show ?thesis
  proof (cases r1; cases r2)
    fix i j assume r: "r1 = Inr i" "r2 = Inr j"
    have "Post ''withdrawal'' key [mk_entry i asset (- x), mk_entry j asset x] db2 = (db', res)"
      using t False r 1 2 i64_neg_exact [OF x] by (simp add: SettleWithdrawal_def)
    from two_leg_effect [OF e1(1,2) e1(3) [OF r(1)] e2(1,2) e2(3) [OF r(2)] _ _ this] show ?thesis
      by (simp add: withdrawal_moves_def)
  qed (use t False 1 2 e1 e2 in \<open>auto simp: SettleWithdrawal_def intro!: post_effect_error intro: extends_trans\<close>)
qed

text \<open>The parties and legs of a trade event.\<close>

definition trade_buyer :: "Event \<Rightarrow> int64" where
  "trade_buyer ev = (if ev_Side ev = Sell then ev_MakerUserID ev else ev_TakerUserID ev)"

definition trade_seller :: "Event \<Rightarrow> int64" where
  "trade_seller ev = (if ev_Side ev = Sell then ev_TakerUserID ev else ev_MakerUserID ev)"

definition event_moves :: "Event \<Rightarrow> moves" where
  "event_moves ev = (let (base, quote, _) = strings_Cut (ev_Symbol ev) (CHR ''-'')
     in trade_moves (trade_buyer ev) (trade_seller ev) base quote (ev_Price ev * ev_Qty ev) (ev_Qty ev))"

lemma SettleTrade_effect:
  assumes inv: "ledger_inv db" and ev: "in_int64 (ev_Price ev)" "in_int64 (ev_Qty ev)" "0 < ev_Price ev" "0 < ev_Qty ev"
    and t: "SettleTrade ev db = (db', res)"
  shows "ledger_inv db' \<and> post_effect (trade_key (ev_Seq ev) (ev_Index ev)) (event_moves ev) (view db) (view db') res"
proof -
  obtain base quote ok where cut: "strings_Cut (ev_Symbol ev) (CHR ''-'') = (base, quote, ok)" by (metis prod_cases3)
  let ?b = "trade_buyer ev" and ?s = "trade_seller ev" and ?q = "i64_mul (ev_Price ev) (ev_Qty ev)"
  have same: "ledger_inv db \<and> post_effect key ms (view db) (view db) (Inl err)" for key ms err
    using inv by (simp add: post_effect_def)
  show ?thesis
  proof (cases "ev_Type ev \<noteq> EvtTrade \<or> \<not> ok \<or> base = [] \<or> quote = [] \<or> i64_div ?q (ev_Price ev) \<noteq> ev_Qty ev")
    case True
    then have "db' = db \<and> (\<exists>err. res = Inl err)" using t ev(3) by (auto simp: SettleTrade_def cut Let_def split: if_splits)
    then show ?thesis using same by auto
  next
    case False
    obtain db1 r1 where 1: "UserAccount ?b quote KindLocked db = (db1, r1)" by fastforce
    obtain db2 r2 where 2: "UserAccount ?b base KindMain db1 = (db2, r2)" by fastforce
    obtain db3 r3 where 3: "UserAccount ?s base KindLocked db2 = (db3, r3)" by fastforce
    obtain db4 r4 where 4: "UserAccount ?s quote KindMain db3 = (db4, r4)" by fastforce
    note e1 = UserAccount_effect [OF inv kinds(2) 1]
    note e2 = UserAccount_effect [OF e1(1) kinds(1) 2]
    note e3 = UserAccount_effect [OF e2(1) kinds(2) 3]
    note e4 = UserAccount_effect [OF e3(1) kinds(1) 4]
    note x2 = extends_trans [OF e1(2) e2(2)] note x3 = extends_trans [OF x2 e3(2)] note x4 = extends_trans [OF x3 e4(2)]
    have bs: "(if ev_Side ev = Sell then (ev_MakerUserID ev, ev_TakerUserID ev) else (ev_TakerUserID ev, ev_MakerUserID ev)) = (?b, ?s)"
      by (simp add: trade_buyer_def trade_seller_def)
    have exact: "?q = ev_Price ev * ev_Qty ev" "in_int64 (ev_Price ev * ev_Qty ev)"
      using False pos_mul_guard_iff [of "ev_Price ev" "ev_Qty ev"] ev by (auto simp: i64_mul_def)
    have run: "SettleTrade ev db = (case r1 of Inl err \<Rightarrow> (db1, Inl err) | Inr i1 \<Rightarrow>
        (case r2 of Inl err \<Rightarrow> (db2, Inl err) | Inr i2 \<Rightarrow> (case r3 of Inl err \<Rightarrow> (db3, Inl err) | Inr i3 \<Rightarrow>
        (case r4 of Inl err \<Rightarrow> (db4, Inl err) | Inr i4 \<Rightarrow>
           Post ''trade'' (trade_key (ev_Seq ev) (ev_Index ev))
             [mk_entry i1 quote (i64_neg ?q), mk_entry i4 quote ?q, mk_entry i3 base (i64_neg (ev_Qty ev)), mk_entry i2 base (ev_Qty ev)] db4))))"
      using False ev(3) 1 2 3 4 unfolding SettleTrade_def cut bs Let_def by (auto split: sum.split)
    show ?thesis
    proof (cases "\<exists>i1 i2 i3 i4. r1 = Inr i1 \<and> r2 = Inr i2 \<and> r3 = Inr i3 \<and> r4 = Inr i4")
      case False
      then have "\<exists>err. res = Inl err" and "db' \<in> {db1, db2, db3, db4}" using t run by (auto split: sum.splits)
      then show ?thesis using e1(1,2) e2(1) e3(1) e4(1) x2 x3 x4 by (auto intro!: post_effect_error)
    next
      case True
      then obtain i1 i2 i3 i4 where r: "r1 = Inr i1" "r2 = Inr i2" "r3 = Inr i3" "r4 = Inr i4" by blast
      let ?es = "[mk_entry i1 quote (- ?q), mk_entry i4 quote ?q, mk_entry i3 base (- ev_Qty ev), mk_entry i2 base (ev_Qty ev)]"
      have "0 < ?q" using exact ev(3,4) by simp
      then have p: "Post ''trade'' (trade_key (ev_Seq ev) (ev_Index ev)) ?es db4 = (db', res)"
        using t run r i64_neg_exact [OF ev(2,4)] i64_neg_exact [of ?q] exact by simp
      have o: "owns db4 i1 (Some ?b, quote, KindLocked)" "owns db4 i2 (Some ?b, base, KindMain)"
        "owns db4 i3 (Some ?s, base, KindLocked)" "owns db4 i4 (Some ?s, quote, KindMain)"
        using owns_extends [OF e4(2) owns_extends [OF e3(2) owns_extends [OF e2(2) e1(3) [OF r(1)]]]]
          owns_extends [OF e4(2) owns_extends [OF e3(2) e2(3) [OF r(2)]]] owns_extends [OF e4(2) e3(3) [OF r(3)]] e4(3) [OF r(4)]
        by simp_all
      have ef: "entries_for db4 ?es (event_moves ev)"
        using o exact by (simp add: entries_for_def event_moves_def cut trade_moves_def mk_entry_def)
      have "exact_balanced ?es" by (simp add: exact_balanced_def mk_entry_def)
      from Post_effect [OF e4(1) ef this p] x4 show ?thesis by (auto intro: post_effect_extends)
    qed
  qed
qed

section \<open>The contract of the ledger\<close>

locale ledger_contract =
  fixes linv :: "'d \<Rightarrow> bool"
    and lview :: "'d \<Rightarrow> lview"
    and lock :: "int64 \<Rightarrow> string \<Rightarrow> int64 \<Rightarrow> string \<Rightarrow> 'd \<Rightarrow> 'd \<times> (ledger_error + unit)"
    and unlock :: "int64 \<Rightarrow> string \<Rightarrow> int64 \<Rightarrow> string \<Rightarrow> 'd \<Rightarrow> 'd \<times> (ledger_error + unit)"
    and deposit :: "int64 \<Rightarrow> string \<Rightarrow> int64 \<Rightarrow> string \<Rightarrow> 'd \<Rightarrow> 'd \<times> (ledger_error + unit)"
    and withdraw :: "int64 \<Rightarrow> string \<Rightarrow> int64 \<Rightarrow> string \<Rightarrow> 'd \<Rightarrow> 'd \<times> (ledger_error + unit)"
    and settle :: "Event \<Rightarrow> 'd \<Rightarrow> 'd \<times> (ledger_error + unit)"
  assumes nonneg: "linv d \<Longrightarrow> k \<noteq> KindSystem \<Longrightarrow> 0 \<le> snd (lview d) (w, a, k)"
    and lock_effect: "linv d \<Longrightarrow> in_int64 x \<Longrightarrow> lock u a x key d = (d', r) \<Longrightarrow>
      linv d' \<and> post_effect key (transfer_moves u a KindMain KindLocked x) (lview d) (lview d') r"
    and unlock_effect: "linv d \<Longrightarrow> in_int64 x \<Longrightarrow> unlock u a x key d = (d', r) \<Longrightarrow>
      linv d' \<and> post_effect key (transfer_moves u a KindLocked KindMain x) (lview d) (lview d') r"
    and deposit_effect: "linv d \<Longrightarrow> in_int64 x \<Longrightarrow> deposit u a x key d = (d', r) \<Longrightarrow>
      linv d' \<and> post_effect key (deposit_moves u a x) (lview d) (lview d') r"
    and withdraw_effect: "linv d \<Longrightarrow> in_int64 x \<Longrightarrow> withdraw u a x key d = (d', r) \<Longrightarrow>
      linv d' \<and> post_effect key (withdrawal_moves u a x) (lview d) (lview d') r"
    and settle_effect: "linv d \<Longrightarrow> in_int64 (ev_Price ev) \<Longrightarrow> in_int64 (ev_Qty ev) \<Longrightarrow> 0 < ev_Price ev \<Longrightarrow> 0 < ev_Qty ev \<Longrightarrow>
      settle ev d = (d', r) \<Longrightarrow>
      linv d' \<and> post_effect (trade_key (ev_Seq ev) (ev_Index ev)) (event_moves ev) (lview d) (lview d') r"
begin

text \<open>A lock that was acknowledged had the funds, and an unlock had them reserved.\<close>

lemma lock_had_funds:
  assumes "linv d" "in_int64 x" "lock u a x key d = (d', Inr ())" "key \<notin> fst (lview d)"
  shows "x \<le> snd (lview d) (Some u, a, KindMain)"
proof -
  have "linv d'" "snd (lview d') (Some u, a, KindMain) = snd (lview d) (Some u, a, KindMain) - x"
    using lock_effect [OF assms(1-3)] assms(4) by (auto simp: post_effect_def applied_def transfer_moves_def)
  with nonneg [OF this(1), of KindMain "Some u" a] show ?thesis by simp
qed

lemma unlock_had_funds:
  assumes "linv d" "in_int64 x" "unlock u a x key d = (d', Inr ())" "key \<notin> fst (lview d)"
  shows "x \<le> snd (lview d) (Some u, a, KindLocked)"
proof -
  have "linv d'" "snd (lview d') (Some u, a, KindLocked) = snd (lview d) (Some u, a, KindLocked) - x"
    using unlock_effect [OF assms(1-3)] assms(4) by (auto simp: post_effect_def applied_def transfer_moves_def)
  with nonneg [OF this(1), of KindLocked "Some u" a] show ?thesis by simp
qed

end

interpretation lg: ledger_contract ledger_inv view Lock Unlock Deposit SettleWithdrawal SettleTrade
proof unfold_locales
  show "0 \<le> snd (view d) (u, a, k)" if "ledger_inv d" "k \<noteq> KindSystem" for d u a k
    using bal_nonneg [OF _ that(2)] that(1) by (simp add: view_def ledger_inv_def)
qed (fact Lock_effect Unlock_effect Deposit_effect SettleWithdrawal_effect SettleTrade_effect)+

section \<open>Conservation\<close>

lemma sum_list_group:
  assumes "finite K" "g ` set xs \<subseteq> K"
  shows "(\<Sum>k \<in> K. \<Sum>x \<leftarrow> filter (\<lambda>x. g x = k) xs. f x) = (\<Sum>x \<leftarrow> xs. f x :: int)"
  using assms(2)
proof (induction xs)
  case (Cons x xs)
  have "(\<Sum>y \<leftarrow> filter (\<lambda>y. g y = k) (x # xs). f y) = (if g x = k then f x else 0) + (\<Sum>y \<leftarrow> filter (\<lambda>y. g y = k) xs. f y)" for k
    by simp
  with Cons assms(1) show ?case by (simp only: sum.distrib) simp
qed simp

definition asset_total :: "string \<Rightarrow> ledger_db \<Rightarrow> int" where
  "asset_total a db = (\<Sum>r \<leftarrow> filter (\<lambda>r. ac_asset r = a) (db_accounts db). ac_balance r)"

lemma conservation:
  assumes inv: "ledger_inv db"
  shows "asset_total a db = 0"
proof -
  have ti: "table_inv db" and tx: "\<And>t. tx_asset_sum t a db = 0" using inv by (auto simp: ledger_inv_def)
  let ?rs = "filter (\<lambda>r. ac_asset r = a) (db_accounts db)"
  let ?es = "filter (\<lambda>e. en_asset e = a) (db_entries db)"
  have ids: "distinct (map ac_id ?rs)" using ti by (auto simp: table_inv_def distinct_map_filter)
  have "asset_total a db = (\<Sum>r \<leftarrow> ?rs. \<Sum>e \<leftarrow> filter (\<lambda>e. en_account e = ac_id r) ?es. en_amount e)"
    unfolding asset_total_def
  proof (intro arg_cong [where f = sum_list] map_cong refl)
    fix r assume r: "r \<in> set ?rs"
    have "filter (\<lambda>e. en_account e = ac_id r) (db_entries db) = filter (\<lambda>e. en_account e = ac_id r) ?es"
    proof -
      have as: "en_asset e = a" if ee: "e \<in> set (db_entries db)" "en_account e = ac_id r" for e
      proof -
        obtain r' where "r' \<in> set (db_accounts db)" "ac_id r' = en_account e" "ac_asset r' = en_asset e"
          using ti ee(1) by (auto simp: table_inv_def)
        moreover from this r ee(2) have "r' = r"
          using ti unfolding table_inv_def distinct_map by (auto dest: inj_onD)
        ultimately show ?thesis using r by simp
      qed
      show ?thesis unfolding filter_filter by (intro filter_cong refl) (use as in auto)
    qed
    moreover have "ac_balance r = entry_sum (ac_id r) db" using ti r by (auto simp: table_inv_def)
    ultimately show "ac_balance r = (\<Sum>e \<leftarrow> filter (\<lambda>e. en_account e = ac_id r) ?es. en_amount e)"
      by (simp add: entry_sum_def)
  qed
  also have "\<dots> = (\<Sum>k \<leftarrow> map ac_id ?rs. \<Sum>e \<leftarrow> filter (\<lambda>e. en_account e = k) ?es. en_amount e)"
    by (simp add: comp_def)
  also have "\<dots> = (\<Sum>k \<in> set (map ac_id ?rs). \<Sum>e \<leftarrow> filter (\<lambda>e. en_account e = k) ?es. en_amount e)"
    by (rule sum_list_distinct_conv_sum_set [OF ids])
  also have "\<dots> = (\<Sum>e \<leftarrow> ?es. en_amount e)"
    by (rule sum_list_group) (use ti in \<open>force simp: table_inv_def\<close>)+
  also have "\<dots> = (\<Sum>t \<in> en_tx ` set ?es. \<Sum>e \<leftarrow> filter (\<lambda>e. en_tx e = t) ?es. en_amount e)"
    by (rule sum_list_group [symmetric]) auto
  also have "\<dots> = 0"
    using tx by (intro sum.neutral) (simp add: tx_asset_sum_def conj_commute)
  finally show ?thesis .
qed

lemma CheckInvariants_passes:
  assumes "ledger_inv db" "db_sched db = []"
  shows "CheckInvariants db = (db, Inr ())"
proof -
  have "unbalanced_transactions db = []" "drifted_accounts db = []"
    using assms(1) by (auto simp: unbalanced_transactions_def drifted_accounts_def ledger_inv_def table_inv_def filter_empty_conv)
  with assms(2) show ?thesis by (simp add: CheckInvariants_def autocommit_def)
qed

section \<open>Sequences of ledger operations\<close>

datatype ledger_op = ODeposit int64 string int64 string | OLock int64 string int64 string
  | OUnlock int64 string int64 string | OWithdraw int64 string int64 string | OTrade Event

fun op_ok :: "ledger_op \<Rightarrow> bool" where
  "op_ok (ODeposit u a x k) \<longleftrightarrow> in_int64 x"
| "op_ok (OLock u a x k) \<longleftrightarrow> in_int64 x"
| "op_ok (OUnlock u a x k) \<longleftrightarrow> in_int64 x"
| "op_ok (OWithdraw u a x k) \<longleftrightarrow> in_int64 x"
| "op_ok (OTrade ev) \<longleftrightarrow> in_int64 (ev_Price ev) \<and> in_int64 (ev_Qty ev) \<and> 0 < ev_Price ev \<and> 0 < ev_Qty ev"

fun op_key :: "ledger_op \<Rightarrow> string" where
  "op_key (ODeposit u a x k) = k" | "op_key (OLock u a x k) = k" | "op_key (OUnlock u a x k) = k"
| "op_key (OWithdraw u a x k) = k" | "op_key (OTrade ev) = trade_key (ev_Seq ev) (ev_Index ev)"

fun op_moves :: "ledger_op \<Rightarrow> moves" where
  "op_moves (ODeposit u a x k) = deposit_moves u a x"
| "op_moves (OLock u a x k) = transfer_moves u a KindMain KindLocked x"
| "op_moves (OUnlock u a x k) = transfer_moves u a KindLocked KindMain x"
| "op_moves (OWithdraw u a x k) = withdrawal_moves u a x"
| "op_moves (OTrade ev) = event_moves ev"

fun ledger_exec :: "ledger_op \<Rightarrow> ledger_db \<Rightarrow> ledger_db \<times> (ledger_error + unit)" where
  "ledger_exec (ODeposit u a x k) db = Deposit u a x k db"
| "ledger_exec (OLock u a x k) db = Lock u a x k db"
| "ledger_exec (OUnlock u a x k) db = Unlock u a x k db"
| "ledger_exec (OWithdraw u a x k) db = SettleWithdrawal u a x k db"
| "ledger_exec (OTrade ev) db = SettleTrade ev db"

fun ledger_run :: "ledger_op list \<Rightarrow> ledger_db \<Rightarrow> ledger_db" where
  "ledger_run [] db = db"
| "ledger_run (x # xs) db = ledger_run xs (fst (ledger_exec x db))"

lemma ledger_exec_effect:
  assumes "ledger_inv db" "op_ok x" "ledger_exec x db = (db', r)"
  shows "ledger_inv db' \<and> post_effect (op_key x) (op_moves x) (view db) (view db') r"
  using assms
  by (cases x) (auto dest: lg.deposit_effect lg.lock_effect lg.unlock_effect lg.withdraw_effect lg.settle_effect)

lemma ledger_run_inv: "ledger_inv db \<Longrightarrow> list_all op_ok xs \<Longrightarrow> ledger_inv (ledger_run xs db)"
  by (induction xs arbitrary: db) (auto dest: ledger_exec_effect [OF _ _ prod.collapse [symmetric]])

definition empty_ledger :: "int64 list \<Rightarrow> string list \<Rightarrow> db_io list \<Rightarrow> ledger_db" where
  "empty_ledger users assets sched = \<lparr>db_users = users, db_assets = assets, db_accounts = [], db_txs = [],
     db_entries = [], db_next_account = 1, db_next_tx = 1, db_sched = sched\<rparr>"

lemma empty_ledger_inv: "ledger_inv (empty_ledger users assets sched)"
  by (simp add: empty_ledger_def ledger_inv_def table_inv_def tx_asset_sum_def)

section \<open>Properties of the ledger\<close>

definition demo_fill :: Event where
  "demo_fill = (zero_Event EvtTrade)\<lparr>ev_Seq := 7, ev_Index := 1, ev_Symbol := ''BTC-USDT'', ev_Side := Buy,
     ev_Price := 100, ev_Qty := 3, ev_MakerOrderID := ''s1'', ev_TakerOrderID := ''b1'',
     ev_MakerUserID := 1, ev_TakerUserID := 2\<rparr>"

definition demo_ops :: "ledger_op list" where
  "demo_ops = [ODeposit 1 ''BTC'' 10 ''d1'', ODeposit 2 ''USDT'' 1000 ''d2'', OLock 1 ''BTC'' 5 ''l1'',
     OLock 2 ''USDT'' 300 ''l2'', OTrade demo_fill, OTrade demo_fill, OWithdraw 1 ''BTC'' 9 ''w1'']"

definition demo_ledger :: ledger_db where
  "demo_ledger = ledger_run demo_ops (empty_ledger [1, 2] [''BTC'', ''USDT''] [])"

lemma demo_ledger_inv: "ledger_inv demo_ledger"
proof -
  have "list_all op_ok demo_ops" by code_simp
  then show ?thesis unfolding demo_ledger_def by (rule ledger_run_inv [OF empty_ledger_inv])
qed

text \<open>C4: Money is conserved. Whatever deposits, locks, unlocks, withdrawals and trade settlements are
  executed, in any order and with any failures of the database in between (statements that fail,
  commits whose acknowledgement is lost), from an empty ledger: the balances of every asset sum to
  zero, no user account is negative, every cached balance is the sum of the account's entries, and
  the reconciliation check passes.\<close>

theorem ledger_conserves:
  assumes "list_all op_ok xs"
  shows "asset_total a (ledger_run xs (empty_ledger users assets sched)) = 0
    \<and> (\<forall>r \<in> set (db_accounts (ledger_run xs (empty_ledger users assets sched))).
         (ac_user r \<noteq> None \<longrightarrow> 0 \<le> ac_balance r)
         \<and> ac_balance r = entry_sum (ac_id r) (ledger_run xs (empty_ledger users assets sched)))
    \<and> snd (CheckInvariants ((ledger_run xs (empty_ledger users assets sched))\<lparr>db_sched := []\<rparr>)) = Inr ()"
proof -
  let ?db = "ledger_run xs (empty_ledger users assets sched)"
  have inv: "ledger_inv ?db" by (rule ledger_run_inv [OF empty_ledger_inv assms])
  have "same_tables ?db (?db\<lparr>db_sched := []\<rparr>)" by (simp add: same_tables_def)
  then have "ledger_inv (?db\<lparr>db_sched := []\<rparr>)" using inv by (rule same_tables_inv)
  then have "snd (CheckInvariants (?db\<lparr>db_sched := []\<rparr>)) = Inr ()" by (simp add: CheckInvariants_passes)
  with conservation [OF inv] inv show ?thesis by (auto simp: ledger_inv_def table_inv_def row_ok_def)
qed

theorem ledger_conserves_witness:
  "asset_total ''BTC'' demo_ledger = 0 \<and> bal demo_ledger (Some 2, ''BTC'', KindMain) = 3"
proof -
  have "list_all op_ok demo_ops" by code_simp
  from ledger_conserves [OF this] have "asset_total ''BTC'' demo_ledger = 0" by (simp add: demo_ledger_def)
  moreover have "bal demo_ledger (Some 2, ''BTC'', KindMain) = 3" by code_simp
  ultimately show ?thesis by simp
qed

text \<open>C14: Postings are atomic and idempotent. Every movement either leaves all balances and the set of
  posted keys as they were, or moves all of its legs and records its key; a key that is already
  posted is acknowledged without effect; an acknowledged movement with a new key has been applied;
  and an error other than a database error means no effect.\<close>

theorem movement_atomic:
  assumes "ledger_inv db" "op_ok x" "ledger_exec x db = (db', r)"
  shows "(view db' = view db \<or> applied (op_key x) (op_moves x) (view db) (view db'))
    \<and> (r = Inr () \<longrightarrow> (if op_key x \<in> posted db then view db' = view db
                        else applied (op_key x) (op_moves x) (view db) (view db')))
    \<and> (\<forall>err. r = Inl err \<and> err \<noteq> ErrDb \<longrightarrow> view db' = view db)"
  using ledger_exec_effect [OF assms] by (auto simp: post_effect_def view_def split: sum.splits if_splits)

theorem movement_atomic_witness:
  "view (fst (ledger_exec (OTrade demo_fill) demo_ledger)) = view demo_ledger
   \<and> snd (ledger_exec (OTrade demo_fill) demo_ledger) = Inr ()"
proof -
  have ok: "op_ok (OTrade demo_fill)" by code_simp
  have r: "snd (ledger_exec (OTrade demo_fill) demo_ledger) = Inr ()" by code_simp
  have k: "op_key (OTrade demo_fill) \<in> posted demo_ledger" unfolding posted_def by code_simp
  from movement_atomic [OF demo_ledger_inv ok prod.collapse [symmetric]] r k show ?thesis by auto
qed

text \<open>C20: Retrying is safe. A movement that is repeated, after any number of failures of any kind,
  until it is acknowledged, has been applied exactly once.\<close>

lemma post_again:
  assumes "v1 = v \<or> applied k ms v v1" "post_effect k ms v1 v2 r" "k \<notin> fst v"
  shows "(v2 = v \<or> applied k ms v v2) \<and> (r = Inr () \<longrightarrow> applied k ms v v2)"
  using assms(1)
proof
  assume ap: "applied k ms v v1"
  then have "k \<in> fst v1" by (simp add: applied_def)
  then have "v2 = v1" using assms(2) by (auto simp: post_effect_def applied_def split: sum.splits)
  with ap show ?thesis by simp
qed (use assms(2,3) in \<open>auto simp: post_effect_def split: sum.splits\<close>)

theorem retry_exactly_once:
  assumes "ledger_inv db" "op_ok x" "op_key x \<notin> posted db"
    and "snd (ledger_exec x (ledger_run (replicate n x) db)) = Inr ()"
  shows "applied (op_key x) (op_moves x) (view db) (view (ledger_run (replicate (Suc n) x) db))"
proof -
  have step: "ledger_run (replicate (Suc n) x) db = fst (ledger_exec x (ledger_run (replicate n x) db))" for n db
  proof (induction n arbitrary: db)
    case (Suc n)
    have "ledger_run (replicate (Suc (Suc n)) x) db = ledger_run (replicate (Suc n) x) (fst (ledger_exec x db))" by simp
    also have "\<dots> = fst (ledger_exec x (ledger_run (replicate n x) (fst (ledger_exec x db))))" by (rule Suc.IH)
    finally show ?case by simp
  qed simp
  have all: "ledger_inv (ledger_run (replicate n x) db)
      \<and> (view (ledger_run (replicate n x) db) = view db \<or> applied (op_key x) (op_moves x) (view db) (view (ledger_run (replicate n x) db)))" for n
  proof (induction n)
    case 0
    then show ?case using assms(1) by simp
  next
    case (Suc n)
    obtain db' r where e: "ledger_exec x (ledger_run (replicate n x) db) = (db', r)" by fastforce
    note eff = ledger_exec_effect [OF conjunct1 [OF Suc] assms(2) e]
    from post_again [OF conjunct2 [OF Suc] conjunct2 [OF eff]] eff assms(3) show ?case
      unfolding step e by (simp add: view_def)
  qed
  obtain db' r where e: "ledger_exec x (ledger_run (replicate n x) db) = (db', r)" by fastforce
  note eff = ledger_exec_effect [OF conjunct1 [OF all] assms(2) e]
  have "op_key x \<notin> fst (view db)" "r = Inr ()" using assms(3,4) e by (simp_all add: view_def)
  with post_again [OF conjunct2 [OF all] conjunct2 [OF eff]] show ?thesis
    unfolding step e by simp
qed

definition demo_flaky :: ledger_db where
  "demo_flaky = ledger_run [ODeposit 1 ''BTC'' 10 ''d1''] (empty_ledger [1] [''BTC'']
     ([DbOk, DbOk] @ replicate 7 DbOk @ [DbOk, DbFail, DbOk, DbOk, DbOk, DbOk, DbOk, DbOk, DbOk, DbOk, DbAckLost]))"

theorem retry_exactly_once_witness:
  "map (\<lambda>n. snd (ledger_exec (OLock 1 ''BTC'' 4 ''l'') (ledger_run (replicate n (OLock 1 ''BTC'' 4 ''l'')) demo_flaky))) [0, 1, 2]
     = [Inl ErrDb, Inl ErrDb, Inr ()]
   \<and> applied ''l'' (transfer_moves 1 ''BTC'' KindMain KindLocked 4) (view demo_flaky)
       (view (ledger_run (replicate 3 (OLock 1 ''BTC'' 4 ''l'')) demo_flaky))"
proof -
  let ?x = "OLock 1 ''BTC'' 4 ''l''"
  have ok: "list_all op_ok [ODeposit 1 ''BTC'' 10 ''d1'']" "op_ok ?x" by code_simp+
  have inv: "ledger_inv demo_flaky" unfolding demo_flaky_def by (rule ledger_run_inv [OF empty_ledger_inv ok(1)])
  have k: "op_key ?x \<notin> posted demo_flaky" unfolding posted_def by code_simp
  have r: "map (\<lambda>n. snd (ledger_exec ?x (ledger_run (replicate n ?x) demo_flaky))) [0, 1, 2] = [Inl ErrDb, Inl ErrDb, Inr ()]"
    by code_simp
  then have "snd (ledger_exec ?x (ledger_run (replicate 2 ?x) demo_flaky)) = Inr ()" by simp
  from retry_exactly_once [OF inv ok(2) k this] r show ?thesis by simp
qed

text \<open>No overdraft, no spurious refusal. Without database failures, locking a positive amount for a
  user and asset that exist succeeds exactly when the user's main balance covers it and the locked
  balance stays in range (or the key was posted before); an underfunded lock reports insufficient
  funds and changes nothing.\<close>

lemma upsert_known:
  assumes "db_sched db = []" "user = None \<or> (\<exists>u. user = Some u \<and> u \<in> set (db_users db))" "asset \<in> set (db_assets db)"
    "kind \<in> {KindMain, KindLocked, KindSystem}"
  shows "\<exists>db' aid. autocommit (upsert_account user asset kind) db = (db', Inr aid) \<and> db_sched db' = []"
  using assms by (auto simp: autocommit_def upsert_account_def Let_def split: option.split)

lemma transfer_iff:
  assumes inv: "ledger_inv db" and x: "in_int64 x" "0 < x" and sc: "db_sched db = []"
    and u: "u \<in> set (db_users db)" and a: "asset \<in> set (db_assets db)"
    and k: "k1 \<in> {KindMain, KindLocked}" "k2 \<in> {KindMain, KindLocked}"
  shows "snd (transfer kind key u asset k1 k2 x db) = Inr () \<longleftrightarrow>
    key \<in> posted db \<or> moves_ok (bal db) (transfer_moves u asset k1 k2 x)"
proof -
  have nk: "k1 \<noteq> KindSystem" "k2 \<noteq> KindSystem" using k by auto
  obtain db1 i where 1: "UserAccount u asset k1 db = (db1, Inr i)" "db_sched db1 = []"
    using upsert_known [of db "Some u" asset k1] sc u a k by (auto simp: UserAccount_def)
  note e1 = UserAccount_effect [OF inv nk(1) 1(1)]
  have u1: "u \<in> set (db_users db1)" "asset \<in> set (db_assets db1)" using e1(2) u a by (simp_all add: extends_def)
  obtain db2 j where 2: "UserAccount u asset k2 db1 = (db2, Inr j)" "db_sched db2 = []"
    using upsert_known [of db1 "Some u" asset k2] 1(2) u1 k by (auto simp: UserAccount_def)
  note e2 = UserAccount_effect [OF e1(1) nk(2) 2(1)]
  have "entries_for db2 [mk_entry i asset (- x), mk_entry j asset x] (transfer_moves u asset k1 k2 x)"
    using owns_extends [OF e2(2) e1(3) [OF refl]] e2(3) [OF refl] by (simp add: entries_for_def mk_entry_def transfer_moves_def)
  from Post_iff [OF e2(1) this exact_pair 2(2), of kind key]
  have "snd (Post kind key [mk_entry i asset (- x), mk_entry j asset x] db2) = Inr () \<longleftrightarrow>
      key \<in> posted db2 \<or> moves_ok (bal db2) (transfer_moves u asset k1 k2 x)" .
  moreover have "posted db2 = posted db" "bal db2 = bal db" using extends_trans [OF e1(2) e2(2)] by (simp_all add: extends_def)
  ultimately show ?thesis using x 1 2 i64_neg_exact [OF x] by (simp add: transfer_def)
qed

theorem Lock_succeeds_iff:
  assumes "ledger_inv db" "in_int64 x" "0 < x" "db_sched db = []" "u \<in> set (db_users db)" "asset \<in> set (db_assets db)"
  shows "snd (Lock u asset x key db) = Inr () \<longleftrightarrow>
    key \<in> posted db \<or> (x \<le> bal db (Some u, asset, KindMain) \<and> bal db (Some u, asset, KindLocked) + x \<le> max_int64)"
proof -
  have "0 \<le> bal db (Some u, asset, k) \<and> in_int64 (bal db (Some u, asset, k))" if "k \<noteq> KindSystem" for k
  proof -
    have ti: "table_inv db" using assms(1) by (simp add: ledger_inv_def)
    show ?thesis
    proof (cases "\<exists>aid. owns db aid (Some u, asset, k)")
      case True
      then obtain r where r: "r \<in> set (db_accounts db)" "acct_of r = (Some u, asset, k)" by (auto simp: owns_def)
      then have "row_ok r" "ac_kind r = k" using ti by (auto simp: table_inv_def acct_of_def)
      with bal_row [OF ti r(1)] r(2) that show ?thesis by (simp add: row_ok_def)
    next
      case False
      then have "bal db (Some u, asset, k) = 0" by (intro bal_absent) blast
      then show ?thesis by (simp add: in_int64_def)
    qed
  qed
  from this [of KindMain] this [of KindLocked] assms(2,3) transfer_iff [OF assms, of KindMain KindLocked "''lock''" key]
  show ?thesis by (auto simp: Lock_def transfer_moves_def in_int64_def)
qed

theorem Lock_succeeds_iff_witness:
  "snd (Lock 2 ''USDT'' 700 ''l9'' demo_ledger) = Inr () \<and> snd (Lock 2 ''USDT'' 701 ''l9'' demo_ledger) \<noteq> Inr ()"
proof -
  have h: "in_int64 700" "in_int64 701" "db_sched demo_ledger = []" "2 \<in> set (db_users demo_ledger)" "''USDT'' \<in> set (db_assets demo_ledger)"
    by code_simp+
  have b: "bal demo_ledger (Some 2, ''USDT'', KindMain) = 700" "bal demo_ledger (Some 2, ''USDT'', KindLocked) = 0" by code_simp+
  have k: "''l9'' \<notin> posted demo_ledger" unfolding posted_def by code_simp
  from Lock_succeeds_iff [OF demo_ledger_inv h(1) _ h(3-5), of "''l9''"] Lock_succeeds_iff [OF demo_ledger_inv h(2) _ h(3-5), of "''l9''"] b k
  show ?thesis by simp
qed

text \<open>C24: A settled trade pays exactly. A settlement that is acknowledged for the first time takes
  price times quantity of the quote asset from the buyer's locked account and gives it to the
  seller's main account, takes the quantity of the base asset from the seller's locked account
  and gives it to the buyer's main account, and touches no other account; the product is exact.\<close>

theorem SettleTrade_pays:
  assumes inv: "ledger_inv db"
    and ev: "in_int64 (ev_Price ev)" "in_int64 (ev_Qty ev)" "0 < ev_Price ev" "0 < ev_Qty ev"
    and s: "ev_Symbol ev = base @ CHR ''-'' # quote" "CHR ''-'' \<notin> set base" "base \<noteq> quote"
    and r: "SettleTrade ev db = (db', Inr ())" "trade_key (ev_Seq ev) (ev_Index ev) \<notin> posted db"
  defines "buyer \<equiv> (if ev_Side ev = Buy then ev_TakerUserID ev else ev_MakerUserID ev)"
    and "seller \<equiv> (if ev_Side ev = Buy then ev_MakerUserID ev else ev_TakerUserID ev)"
  shows "bal db' (Some buyer, quote, KindLocked) = bal db (Some buyer, quote, KindLocked) - ev_Price ev * ev_Qty ev
    \<and> bal db' (Some seller, quote, KindMain) = bal db (Some seller, quote, KindMain) + ev_Price ev * ev_Qty ev
    \<and> bal db' (Some seller, base, KindLocked) = bal db (Some seller, base, KindLocked) - ev_Qty ev
    \<and> bal db' (Some buyer, base, KindMain) = bal db (Some buyer, base, KindMain) + ev_Qty ev
    \<and> (\<forall>a. a \<notin> {(Some buyer, quote, KindLocked), (Some seller, quote, KindMain),
                   (Some seller, base, KindLocked), (Some buyer, base, KindMain)} \<longrightarrow> bal db' a = bal db a)"
proof -
  have bs: "trade_buyer ev = buyer" "trade_seller ev = seller"
    by (cases "ev_Side ev"; simp add: trade_buyer_def trade_seller_def buyer_def seller_def)+
  have "applied (trade_key (ev_Seq ev) (ev_Index ev)) (event_moves ev) (view db) (view db')"
    using lg.settle_effect [OF inv ev r(1)] r(2) by (simp add: post_effect_def view_def)
  then have "bal db' a = bal db a + moved (trade_moves buyer seller base quote (ev_Price ev * ev_Qty ev) (ev_Qty ev)) a" for a
    using strings_Cut_found [OF s(2), of quote] by (simp add: applied_def view_def event_moves_def s(1) bs)
  with s(3) show ?thesis by (auto simp: trade_moves_def)
qed

theorem SettleTrade_pays_witness:
  "\<exists>db db'. SettleTrade demo_fill db = (db', Inr ()) \<and> bal db' (Some 1, ''USDT'', KindMain) = bal db (Some 1, ''USDT'', KindMain) + 100 * 3"
proof -
  let ?db = "ledger_run (take 4 demo_ops) (empty_ledger [1, 2] [''BTC'', ''USDT''] [])"
  have "list_all op_ok (take 4 demo_ops)" by code_simp
  then have inv: "ledger_inv ?db" by (rule ledger_run_inv [OF empty_ledger_inv])
  have e: "in_int64 (ev_Price demo_fill)" "in_int64 (ev_Qty demo_fill)" "0 < ev_Price demo_fill" "0 < ev_Qty demo_fill"
    "ev_Symbol demo_fill = ''BTC'' @ CHR ''-'' # ''USDT''" "ev_Price demo_fill = 100" "ev_Qty demo_fill = 3" "ev_Side demo_fill = Buy"
    "ev_MakerUserID demo_fill = 1" by code_simp+
  have k: "trade_key (ev_Seq demo_fill) (ev_Index demo_fill) \<notin> posted ?db" unfolding posted_def by code_simp
  have "snd (SettleTrade demo_fill ?db) = Inr ()" by code_simp
  then obtain db' where r: "SettleTrade demo_fill ?db = (db', Inr ())" by (metis prod.collapse)
  from SettleTrade_pays [OF inv e(1-5) _ _ r k] e(6-9) r show ?thesis by auto
qed

text \<open>The balance check of \<open>Post\<close> sums in 64 bits. Four credits of \<open>2^62\<close> pass it, are
  posted, and create money: the balances of the asset then sum to \<open>2^64\<close>.\<close>

definition demo_credits :: "Entry list" where
  "demo_credits = map (\<lambda>i. mk_entry i ''BTC'' (2 ^ 62)) [1, 2, 3, 4]"

definition demo_four :: ledger_db where
  "demo_four = fst (UserAccount 2 ''BTC'' KindLocked (fst (UserAccount 2 ''BTC'' KindMain
     (fst (UserAccount 1 ''BTC'' KindLocked (fst (UserAccount 1 ''BTC'' KindMain (empty_ledger [1, 2] [''BTC''] []))))))))"

theorem Post_wraps:
  "snd (Post ''mint'' ''k'' demo_credits demo_four) = Inr ()
   \<and> asset_total ''BTC'' demo_four = 0
   \<and> asset_total ''BTC'' (fst (Post ''mint'' ''k'' demo_credits demo_four)) = 2 ^ 64"
  by code_simp

end
