(* ===== verification/Trading.thy ===== *)
theory Trading
  imports LedgerOps
begin

text \<open>
  The trading coordinator of \<open>services/exchange/trading.go\<close>, which reserves funds in the ledger,
  submits to the engine and settles the events. The engine is reached through \<open>Submit\<close>; how the call races
  with its context is an argument (\<open>submit_race\<close>), as is the outcome of the random order id.
\<close>

section \<open>The coordinator\<close>

datatype trading_error = ErrUnsupported | ErrRejected string | ErrBadOrder | ErrNewID
  | ErrLedger ledger_error | ErrEngine engine_error

record 'j Trading =
  td_eng :: "Engine \<times> 'j"
  td_ledger :: ledger_db
  td_trades :: "string \<rightharpoonup> Event list"

definition NewTrading :: "'j \<Rightarrow> Engine \<Rightarrow> ledger_db \<Rightarrow> 'j Trading" where
  "NewTrading j eng led = \<lparr>td_eng = (eng, j), td_ledger = led, td_trades = Map.empty\<rparr>"

text \<open>
  \<open>Submit\<close> as its caller sees it: the reply arrived; the context ended before the command was
  sent; or it ended after, and the command is served although the caller gets the context error.
\<close>

datatype submit_race = Replied | NotSent | ReplyLost

definition Submit :: "(Command \<Rightarrow> 'j \<Rightarrow> 'j \<times> (string + uint64)) \<Rightarrow> submit_race \<Rightarrow> Command \<Rightarrow> 'j Trading \<Rightarrow>
    ('j Trading \<times> (engine_error + Event list)) option" where
  "Submit app_j race cmd t =
     (case race of
        NotSent \<Rightarrow> Some (t, Inl ErrContext)
      | _ \<Rightarrow> (case Run_step app_j cmd (td_eng t) of
                None \<Rightarrow> None
              | Some (ej, _, reply) \<Rightarrow>
                  Some (t\<lparr>td_eng := ej\<rparr>, if race = Replied then reply else Inl ErrContext)))"

definition recentTradeCap :: nat where "recentTradeCap = 200"

definition recordTrade :: "Event \<Rightarrow> 'j Trading \<Rightarrow> 'j Trading" where
  "recordTrade ev t =
     (let xs = (case td_trades t (ev_Symbol ev) of None \<Rightarrow> [] | Some l \<Rightarrow> l) @ [ev];
          xs = (if length xs > recentTradeCap then drop (length xs - recentTradeCap) xs else xs)
      in t\<lparr>td_trades := (td_trades t)(ev_Symbol ev \<mapsto> xs)\<rparr>)"

definition RecentTrades :: "string \<Rightarrow> 'j Trading \<Rightarrow> Event list" where
  "RecentTrades symbol t = (case td_trades t symbol of None \<Rightarrow> [] | Some l \<Rightarrow> l)"

text \<open>One call into the ledger from the coordinator.\<close>

definition with_ledger :: "(ledger_db \<Rightarrow> ledger_db \<times> (ledger_error + unit)) \<Rightarrow> 'j Trading \<Rightarrow> 'j Trading \<times> (trading_error + unit)" where
  "with_ledger f t = (case f (td_ledger t) of (db, r) \<Rightarrow> (t\<lparr>td_ledger := db\<rparr>, map_sum ErrLedger (\<lambda>u. u) r))"

definition improve_key :: "uint64 \<Rightarrow> nat \<Rightarrow> string" where
  "improve_key seq index = ''improve-'' @ fmt_d seq @ ''-'' @ fmt_d (int index)"

text \<open>The body of the loop of \<open>settle\<close>, one event.\<close>

definition settle_trade :: "Command \<Rightarrow> string \<Rightarrow> Event \<Rightarrow> 'j Trading \<Rightarrow> 'j Trading \<times> (trading_error + unit)" where
  "settle_trade cmd lockAsset ev t =
     (case with_ledger (SettleTrade ev) t of
        (t, Inl err) \<Rightarrow> (t, Inl err)
      | (t, Inr _) \<Rightarrow>
          if cmd_Type cmd = CmdPlaceLimit \<and> ev_Side ev = Buy \<and> ev_Price ev < cmd_Price cmd
          then let refund = i64_mul (i64_sub (cmd_Price cmd) (ev_Price ev)) (ev_Qty ev)
               in (case with_ledger (Unlock (ev_TakerUserID ev) lockAsset refund (improve_key (ev_Seq ev) (ev_Index ev))) t of
                     (t, Inl err) \<Rightarrow> (t, Inl err)
                   | (t, Inr _) \<Rightarrow> (recordTrade ev t, Inr ()))
          else (recordTrade ev t, Inr ()))"

definition settle_cancel :: "Event \<Rightarrow> 'j Trading \<Rightarrow> 'j Trading \<times> (trading_error + unit)" where
  "settle_cancel ev t =
     (if ev_UserID ev = 0 \<or> ev_Qty ev = 0 then (t, Inr ())
      else let (base, quote, _) = strings_Cut (ev_Symbol ev) (CHR ''-'');
               (asset, amt) = (if ev_Side ev = Buy then (quote, i64_mul (ev_Price ev) (ev_Qty ev)) else (base, ev_Qty ev))
           in with_ledger (Unlock (ev_UserID ev) asset amt (''unlock-cancel-'' @ ev_OrderID ev)) t)"

definition settle_event :: "Command \<Rightarrow> string \<Rightarrow> int64 \<Rightarrow> Event \<Rightarrow> 'j Trading \<Rightarrow> 'j Trading \<times> (trading_error + unit)" where
  "settle_event cmd lockAsset lockAmt ev t =
     (case ev_Type ev of
        EvtTrade \<Rightarrow> settle_trade cmd lockAsset ev t
      | EvtOrderCancelled \<Rightarrow> settle_cancel ev t
      | EvtOrderRejected \<Rightarrow>
          if lockAmt > 0
          then with_ledger (Unlock (ev_UserID ev) lockAsset lockAmt (''unlock-reject-'' @ ev_OrderID ev)) t
          else (t, Inr ())
      | EvtOrderAccepted \<Rightarrow> (t, Inr ()))"

fun settle :: "Command \<Rightarrow> Event list \<Rightarrow> string \<Rightarrow> int64 \<Rightarrow> 'j Trading \<Rightarrow> 'j Trading \<times> (trading_error + unit)" where
  "settle cmd [] lockAsset lockAmt t = (t, Inr ())"
| "settle cmd (ev # evs) lockAsset lockAmt t =
     (case settle_event cmd lockAsset lockAmt ev t of
        (t, Inl err) \<Rightarrow> (t, Inl err)
      | (t, Inr _) \<Rightarrow> settle cmd evs lockAsset lockAmt t)"

text \<open>What to submit and what to reserve for it.\<close>

definition order_command :: "string \<Rightarrow> int64 \<Rightarrow> string \<Rightarrow> string \<Rightarrow> Side \<Rightarrow> int64 \<Rightarrow> int64 \<Rightarrow> string \<Rightarrow> string \<Rightarrow>
    trading_error + Command \<times> string \<times> int64" where
  "order_command orderID userID symbol orderType side price qty base quote =
     (let cmd = \<lparr>cmd_Type = [], cmd_Symbol = symbol, cmd_OrderID = orderID, cmd_UserID = userID,
                 cmd_Side = side, cmd_Price = 0, cmd_Qty = qty\<rparr>
      in if orderType = ''limit'' \<and> side = Buy
         then let lockAmt = i64_mul price qty
              in if price \<noteq> 0 \<and> i64_div lockAmt price \<noteq> qty then Inl ErrBadOrder
                 else Inr (cmd\<lparr>cmd_Type := CmdPlaceLimit, cmd_Price := price\<rparr>, quote, lockAmt)
         else if orderType = ''limit'' \<and> side = Sell
         then Inr (cmd\<lparr>cmd_Type := CmdPlaceLimit, cmd_Price := price\<rparr>, base, qty)
         else if orderType = ''market'' \<and> side = Sell
         then Inr (cmd\<lparr>cmd_Type := CmdPlaceMarket\<rparr>, base, qty)
         else if orderType = ''market'' \<and> side = Buy then Inl ErrUnsupported
         else Inl ErrBadOrder)"

definition filled_qty :: "Event list \<Rightarrow> int64" where
  "filled_qty events = foldl (\<lambda>f ev. if ev_Type ev = EvtTrade then i64_add f (ev_Qty ev) else f) 0 events"

definition reject_reason :: "Event list \<Rightarrow> string option" where
  "reject_reason events = (case events of [] \<Rightarrow> None
     | ev # _ \<Rightarrow> if ev_Type ev = EvtOrderRejected then Some (ev_Reason ev) else None)"

text \<open>The result pairs the events returned with the error, as the code returns both. The part of
  \<open>PlaceOrder\<close> after the funds are reserved:\<close>

definition submit_order :: "(Command \<Rightarrow> 'j \<Rightarrow> 'j \<times> (string + uint64)) \<Rightarrow> submit_race \<Rightarrow> string \<Rightarrow> int64 \<Rightarrow> int64 \<Rightarrow>
    Command \<Rightarrow> string \<Rightarrow> int64 \<Rightarrow> 'j Trading \<Rightarrow> ('j Trading \<times> Event list \<times> trading_error option) option" where
  "submit_order app_j race orderID userID qty cmd lockAsset lockAmt t =
     (case Submit app_j race cmd t of
        None \<Rightarrow> None
      | Some (t, Inl err) \<Rightarrow>
          Some (fst (with_ledger (Unlock userID lockAsset lockAmt (''unlock-fail-'' @ orderID)) t), [], Some (ErrEngine err))
      | Some (t, Inr events) \<Rightarrow>
     (case settle cmd events lockAsset lockAmt t of
        (t, Inl err) \<Rightarrow> Some (t, events, Some err)
      | (t, Inr _) \<Rightarrow>
          (case reject_reason events of
             Some reason \<Rightarrow> Some (t, events, Some (ErrRejected reason))
           | None \<Rightarrow>
               if cmd_Type cmd = CmdPlaceMarket \<and> i64_sub qty (filled_qty events) > 0
               then (case with_ledger (Unlock userID lockAsset (i64_sub qty (filled_qty events)) (''unlock-unfilled-'' @ orderID)) t of
                       (t, Inl err) \<Rightarrow> Some (t, events, Some err)
                     | (t, Inr _) \<Rightarrow> Some (t, events, None))
               else Some (t, events, None))))"

definition PlaceOrder :: "(Command \<Rightarrow> 'j \<Rightarrow> 'j \<times> (string + uint64)) \<Rightarrow> string option \<Rightarrow> submit_race \<Rightarrow>
    int64 \<Rightarrow> string \<Rightarrow> string \<Rightarrow> Side \<Rightarrow> int64 \<Rightarrow> int64 \<Rightarrow> 'j Trading \<Rightarrow>
    ('j Trading \<times> Event list \<times> trading_error option) option" where
  "PlaceOrder app_j newID race userID symbol orderType side price qty t =
     (case strings_Cut symbol (CHR ''-'') of (base, quote, ok) \<Rightarrow>
      if \<not> ok \<or> base = [] \<or> quote = [] then Some (t, [], Some ErrBadOrder)
      else if qty \<le> 0 \<or> (orderType = ''limit'' \<and> price \<le> 0) then Some (t, [], Some ErrBadOrder)
      else case newID of
        None \<Rightarrow> Some (t, [], Some ErrNewID)
      | Some orderID \<Rightarrow>
     (case order_command orderID userID symbol orderType side price qty base quote of
        Inl err \<Rightarrow> Some (t, [], Some err)
      | Inr (cmd, lockAsset, lockAmt) \<Rightarrow>
     (case with_ledger (Lock userID lockAsset lockAmt (''lock-'' @ orderID)) t of
        (t, Inl err) \<Rightarrow> Some (t, [], Some err)
      | (t, Inr _) \<Rightarrow> submit_order app_j race orderID userID qty cmd lockAsset lockAmt t)))"

definition CancelOrder :: "(Command \<Rightarrow> 'j \<Rightarrow> 'j \<times> (string + uint64)) \<Rightarrow> submit_race \<Rightarrow>
    int64 \<Rightarrow> string \<Rightarrow> string \<Rightarrow> 'j Trading \<Rightarrow> ('j Trading \<times> Event list \<times> trading_error option) option" where
  "CancelOrder app_j race userID symbol orderID t =
     (case Submit app_j race \<lparr>cmd_Type = CmdCancel, cmd_Symbol = symbol, cmd_OrderID = orderID,
             cmd_UserID = userID, cmd_Side = Buy, cmd_Price = 0, cmd_Qty = 0\<rparr> t of
        None \<Rightarrow> None
      | Some (t, Inl err) \<Rightarrow> Some (t, [], Some (ErrEngine err))
      | Some (t, Inr events) \<Rightarrow>
          (case settle \<lparr>cmd_Type = [], cmd_Symbol = symbol, cmd_OrderID = [], cmd_UserID = 0,
                  cmd_Side = Buy, cmd_Price = 0, cmd_Qty = 0\<rparr> events [] 0 t of
             (t, Inl err) \<Rightarrow> Some (t, events, Some err)
           | (t, Inr _) \<Rightarrow> Some (t, events, map_option ErrRejected (reject_reason events))))"

end
