(* ===== verification/Hub.thy ===== *)
theory Hub
  imports Trading
begin

text \<open>
  The market-data hub of \<open>services/exchange/hub.go\<close> and what its subscribers see.
\<close>

section \<open>The market-data hub\<close>

text \<open>
  A subscriber is a channel with a buffer of 64 batches; \<open>ch_open\<close> is false once it is closed.
  \<open>hb_subs\<close> lists the registered channels of a symbol in the order the iteration visits them.
\<close>

record chan =
  ch_buf :: "Event list list"
  ch_open :: bool

record Hub =
  hb_chans :: "nat \<Rightarrow> chan"
  hb_next :: nat
  hb_subs :: "string \<Rightarrow> nat list"

definition sub_cap :: nat where "sub_cap = 64"

definition NewHub :: Hub where
  "NewHub = \<lparr>hb_chans = (\<lambda>_. \<lparr>ch_buf = [], ch_open = False\<rparr>), hb_next = 0, hb_subs = (\<lambda>_. [])\<rparr>"

text \<open>A send on a closed channel, and closing one twice, panic.\<close>

definition offer :: "string \<Rightarrow> Event list \<Rightarrow> nat \<Rightarrow> Hub \<Rightarrow> Hub option" where
  "offer symbol events c h =
     (let ch = hb_chans h c
      in if \<not> ch_open ch then None
         else if length (ch_buf ch) < sub_cap
         then Some (h\<lparr>hb_chans := (hb_chans h)(c := ch\<lparr>ch_buf := ch_buf ch @ [events]\<rparr>)\<rparr>)
         else Some (h\<lparr>hb_chans := (hb_chans h)(c := ch\<lparr>ch_open := False\<rparr>),
                      hb_subs := (hb_subs h)(symbol := removeAll c (hb_subs h symbol))\<rparr>))"

fun offer_all :: "string \<Rightarrow> Event list \<Rightarrow> nat list \<Rightarrow> Hub \<Rightarrow> Hub option" where
  "offer_all symbol events [] h = Some h"
| "offer_all symbol events (c # cs) h = Option.bind (offer symbol events c h) (offer_all symbol events cs)"

definition Publish :: "Event list \<Rightarrow> Hub \<Rightarrow> Hub option" where
  "Publish events h =
     (if length events = 0 then Some h
      else let symbol = ev_Symbol (hd events) in offer_all symbol events (hb_subs h symbol) h)"

definition Subscribe :: "string \<Rightarrow> Hub \<Rightarrow> Hub \<times> nat" where
  "Subscribe symbol h =
     (let c = hb_next h
      in (h\<lparr>hb_chans := (hb_chans h)(c := \<lparr>ch_buf = [], ch_open = True\<rparr>), hb_next := Suc c,
            hb_subs := (hb_subs h)(symbol := hb_subs h symbol @ [c])\<rparr>, c))"

definition Unsubscribe :: "string \<Rightarrow> nat \<Rightarrow> Hub \<Rightarrow> Hub option" where
  "Unsubscribe symbol c h =
     (if c \<in> set (hb_subs h symbol)
      then if ch_open (hb_chans h c)
           then Some (h\<lparr>hb_chans := (hb_chans h)(c := (hb_chans h c)\<lparr>ch_open := False\<rparr>),
                        hb_subs := (hb_subs h)(symbol := removeAll c (hb_subs h symbol))\<rparr>)
           else None
      else Some h)"

text \<open>The subscriber takes a batch off its channel.\<close>

definition Receive :: "nat \<Rightarrow> Hub \<Rightarrow> Hub \<times> Event list option" where
  "Receive c h =
     (case ch_buf (hb_chans h c) of
        [] \<Rightarrow> (h, None)
      | b # bs \<Rightarrow> (h\<lparr>hb_chans := (hb_chans h)(c := (hb_chans h c)\<lparr>ch_buf := bs\<rparr>)\<rparr>, Some b))"


section \<open>The hub, observed\<close>

datatype hub_op = HSubscribe string | HCancel string nat | HPublish "Event list" | HReceive nat

text \<open>The hub with what an observer notes for every channel: its symbol, the batches published for
  that symbol since it subscribed, and the batches its subscriber has received.\<close>

record hub_trace =
  ht_hub :: Hub
  ht_symbol :: "nat \<Rightarrow> string"
  ht_published :: "nat \<Rightarrow> Event list list"
  ht_received :: "nat \<Rightarrow> Event list list"

definition hub_start :: hub_trace where
  "hub_start = \<lparr>ht_hub = NewHub, ht_symbol = (\<lambda>_. []), ht_published = (\<lambda>_. []), ht_received = (\<lambda>_. [])\<rparr>"

fun hub_exec :: "hub_op \<Rightarrow> hub_trace \<Rightarrow> hub_trace option" where
  "hub_exec (HSubscribe s) t =
     (let (h, c) = Subscribe s (ht_hub t) in Some (t\<lparr>ht_hub := h, ht_symbol := (ht_symbol t)(c := s)\<rparr>))"
| "hub_exec (HCancel s c) t = map_option (\<lambda>h. t\<lparr>ht_hub := h\<rparr>) (Unsubscribe s c (ht_hub t))"
| "hub_exec (HPublish evs) t = map_option (\<lambda>h. t\<lparr>ht_hub := h,
     ht_published := (\<lambda>c. if evs \<noteq> [] \<and> c < hb_next h \<and> ht_symbol t c = ev_Symbol (hd evs)
                          then ht_published t c @ [evs] else ht_published t c)\<rparr>) (Publish evs (ht_hub t))"
| "hub_exec (HReceive c) t =
     (case Receive c (ht_hub t) of
        (h, None) \<Rightarrow> Some (t\<lparr>ht_hub := h\<rparr>)
      | (h, Some b) \<Rightarrow> Some (t\<lparr>ht_hub := h, ht_received := (ht_received t)(c := ht_received t c @ [b])\<rparr>))"

fun hub_run :: "hub_op list \<Rightarrow> hub_trace \<Rightarrow> hub_trace option" where
  "hub_run [] t = Some t"
| "hub_run (x # xs) t = Option.bind (hub_exec x t) (hub_run xs)"

definition hub_inv :: "hub_trace \<Rightarrow> bool" where
  "hub_inv t \<longleftrightarrow> (let h = ht_hub t in
     (\<forall>s. distinct (hb_subs h s))
   \<and> (\<forall>s c. c \<in> set (hb_subs h s) \<longleftrightarrow> c < hb_next h \<and> ht_symbol t c = s \<and> ch_open (hb_chans h c))
   \<and> (\<forall>c. length (ch_buf (hb_chans h c)) \<le> sub_cap)
   \<and> (\<forall>c. prefix (ht_received t c @ ch_buf (hb_chans h c)) (ht_published t c))
   \<and> (\<forall>c. ch_open (hb_chans h c) \<longrightarrow> ht_received t c @ ch_buf (hb_chans h c) = ht_published t c)
   \<and> (\<forall>c \<ge> hb_next h. \<not> ch_open (hb_chans h c) \<and> ht_published t c = []))"

text \<open>One delivery to all channels of a symbol.\<close>

definition offered :: "Event list \<Rightarrow> chan \<Rightarrow> chan" where
  "offered evs ch = (if length (ch_buf ch) < sub_cap then ch\<lparr>ch_buf := ch_buf ch @ [evs]\<rparr> else ch\<lparr>ch_open := False\<rparr>)"

lemma offer_all_effect:
  assumes "distinct cs" "\<forall>c \<in> set cs. ch_open (hb_chans h c)"
  shows "\<exists>h'. offer_all s evs cs h = Some h'
    \<and> hb_chans h' = (\<lambda>c. if c \<in> set cs then offered evs (hb_chans h c) else hb_chans h c)
    \<and> hb_next h' = hb_next h
    \<and> hb_subs h' = (hb_subs h)(s := filter (\<lambda>c. c \<in> set cs \<longrightarrow> ch_open (offered evs (hb_chans h c))) (hb_subs h s))"
  using assms
proof (induction cs arbitrary: h)
  case Nil
  then show ?case by (simp add: fun_eq_iff)
next
  case (Cons c cs)
  let ?full = "length (ch_buf (hb_chans h c)) < sub_cap"
  define h1 where "h1 = the (offer s evs c h)"
  have o: "offer s evs c h = Some h1" "hb_chans h1 = (hb_chans h)(c := offered evs (hb_chans h c))"
      "hb_next h1 = hb_next h"
      "hb_subs h1 = (hb_subs h)(s := if ?full then hb_subs h s else removeAll c (hb_subs h s))"
    using Cons.prems(2) by (cases ?full; simp add: h1_def offer_def offered_def Let_def fun_upd_idem)+
  have "\<forall>x \<in> set cs. ch_open (hb_chans h1 x)" using Cons.prems by (auto simp: o(2))
  moreover have "distinct cs" using Cons.prems(1) by simp
  ultimately obtain h2 where
    r: "offer_all s evs cs h1 = Some h2" "hb_next h2 = hb_next h1"
      "hb_chans h2 = (\<lambda>x. if x \<in> set cs then offered evs (hb_chans h1 x) else hb_chans h1 x)"
      "hb_subs h2 = (hb_subs h1)(s := filter (\<lambda>x. x \<in> set cs \<longrightarrow> ch_open (offered evs (hb_chans h1 x))) (hb_subs h1 s))"
    using Cons.IH [of h1] by blast
  have op: "ch_open (offered evs (hb_chans h c)) = ?full" using Cons.prems(2) by (simp add: offered_def)
  have "hb_subs h2 = (hb_subs h)(s := filter (\<lambda>x. x \<in> set (c # cs) \<longrightarrow> ch_open (offered evs (hb_chans h x))) (hb_subs h s))"
    using Cons.prems(1) op unfolding r(4) o(4) o(2)
    by (auto simp: fun_eq_iff removeAll_filter_not_eq intro!: filter_cong)
  moreover have "hb_chans h2 = (\<lambda>x. if x \<in> set (c # cs) then offered evs (hb_chans h x) else hb_chans h x)"
    using Cons.prems(1) unfolding r(3) o(2) by (auto simp: fun_eq_iff)
  ultimately show ?case using o(1,3) r(1,2) by (intro exI [of _ h2]) simp
qed

lemma hub_exec_inv:
  assumes "hub_inv t"
  shows "\<exists>t'. hub_exec x t = Some t' \<and> hub_inv t'"
proof (cases x)
  case (HSubscribe s)
  have fresh: "hb_next (ht_hub t) \<notin> set (hb_subs (ht_hub t) s')" for s' using assms by (auto simp: hub_inv_def Let_def)
  have "prefix (ht_received t (hb_next (ht_hub t)) @ ch_buf (hb_chans (ht_hub t) (hb_next (ht_hub t)))) (ht_published t (hb_next (ht_hub t)))"
    and "ht_published t (hb_next (ht_hub t)) = []" using assms unfolding hub_inv_def Let_def by blast+
  then have pub: "ht_received t (hb_next (ht_hub t)) = []" "ht_published t (hb_next (ht_hub t)) = []" by simp_all
  from assms fresh pub HSubscribe show ?thesis
    by (auto simp: hub_inv_def Subscribe_def Let_def less_Suc_eq sub_cap_def)
next
  case (HCancel s c)
  with assms show ?thesis by (auto simp: hub_inv_def Unsubscribe_def Let_def distinct_removeAll)
next
  case (HReceive c)
  show ?thesis
  proof (cases "ch_buf (hb_chans (ht_hub t) c)")
    case Nil
    with assms HReceive show ?thesis by (simp add: Receive_def)
  next
    case (Cons b bs)
    with assms have "prefix (ht_received t c @ b # bs) (ht_published t c)" "length (b # bs) \<le> sub_cap"
      unfolding hub_inv_def Let_def by metis+
    with Cons assms HReceive show ?thesis by (auto simp: hub_inv_def Receive_def Let_def)
  qed
next
  case (HPublish evs)
  show ?thesis
  proof (cases "evs = []")
    case True
    with assms HPublish show ?thesis by (simp add: Publish_def)
  next
    case False
    let ?h = "ht_hub t" and ?s = "ev_Symbol (hd evs)"
    have "distinct (hb_subs ?h ?s)" "\<forall>c \<in> set (hb_subs ?h ?s). ch_open (hb_chans ?h c)"
      using assms by (auto simp: hub_inv_def Let_def)
    from offer_all_effect [OF this, of ?s evs] obtain h' where
      h': "Publish evs ?h = Some h'" "hb_next h' = hb_next ?h"
        "hb_chans h' = (\<lambda>c. if c \<in> set (hb_subs ?h ?s) then offered evs (hb_chans ?h c) else hb_chans ?h c)"
        "hb_subs h' = (hb_subs ?h)(?s := filter (\<lambda>c. ch_open (offered evs (hb_chans ?h c))) (hb_subs ?h ?s))"
      using False by (auto simp: Publish_def cong: filter_cong)
    have "hub_inv (t\<lparr>ht_hub := h', ht_published := (\<lambda>c. if evs \<noteq> [] \<and> c < hb_next h' \<and> ht_symbol t c = ?s
                          then ht_published t c @ [evs] else ht_published t c)\<rparr>)"
      using assms False unfolding hub_inv_def Let_def
      by (auto simp: h'(2-4) offered_def intro: prefix_prefix split: if_splits)
    with h'(1) HPublish show ?thesis by simp
  qed
qed

lemma hub_run_inv: "hub_inv t \<Longrightarrow> \<exists>t'. hub_run xs t = Some t' \<and> hub_inv t'"
proof (induction xs arbitrary: t)
  case (Cons x xs)
  from hub_exec_inv [OF Cons.prems, of x] obtain t1 where "hub_exec x t = Some t1" "hub_inv t1" by blast
  with Cons.IH [of t1] show ?case by simp
qed simp

text \<open>C25: The market-data feed. Under any sequence of subscriptions, cancellations, publications and
  receives the hub never sends on or closes a closed channel, no subscriber is owed more than its
  64 buffered batches, a connected subscriber has received (or has buffered) exactly the batches
  published for its symbol since it subscribed, in order, and one that was cut off a prefix of
  them.\<close>

theorem hub_feed:
  "\<exists>t. hub_run xs hub_start = Some t
     \<and> (\<forall>c. length (ch_buf (hb_chans (ht_hub t) c)) \<le> 64
          \<and> prefix (ht_received t c @ ch_buf (hb_chans (ht_hub t) c)) (ht_published t c)
          \<and> (if ch_open (hb_chans (ht_hub t) c) then ht_received t c @ ch_buf (hb_chans (ht_hub t) c) = ht_published t c else True))"
proof -
  have "hub_inv hub_start" by (simp add: hub_inv_def hub_start_def NewHub_def)
  from hub_run_inv [OF this, of xs] obtain t where "hub_run xs hub_start = Some t" "hub_inv t" by blast
  then show ?thesis by (auto simp: hub_inv_def Let_def sub_cap_def)
qed

end
