(* ===== verification/Support.thy ===== *)
theory Support
  imports Prelude
begin

text \<open>
  Shared by the services: time, byte strings and their hexadecimal text, calls that can fail run one after the
  other, and the rules to reason about them.
\<close>

section \<open>Time\<close>

text \<open>A time is nanoseconds since the Unix epoch.\<close>

type_synonym time = int

definition second :: time where "second = 10 ^ 9"

text \<open>\<open>time.Time.Sub\<close> saturates at the range of a \<open>Duration\<close>.\<close>

definition time_Sub :: "time \<Rightarrow> time \<Rightarrow> int64" where
  "time_Sub t u = max min_int64 (min max_int64 (t - u))"

section \<open>Bytes and their hexadecimal text\<close>

text \<open>A Go string and a \<open>[]byte\<close> are both lists of 8-bit characters here.\<close>

definition hexdigit :: "nat \<Rightarrow> char" where
  "hexdigit n = ''0123456789abcdef'' ! n"

definition hex_byte :: "char \<Rightarrow> string" where
  "hex_byte c = [hexdigit (of_char c div 16), hexdigit (of_char c mod 16)]"

definition hex_EncodeToString :: "string \<Rightarrow> string" where
  "hex_EncodeToString b = concat (map hex_byte b)"

lemma hexdigit_inject: "m < 16 \<Longrightarrow> n < 16 \<Longrightarrow> hexdigit m = hexdigit n \<longleftrightarrow> m = n"
  unfolding hexdigit_def by (rule nth_eq_iff_index_eq) simp_all

lemma of_char_lt: "of_char c < (256 :: nat)"
  using of_char_mod_256 [of c] by (metis mod_less_divisor zero_less_numeral)

lemma hex_byte_inject: "hex_byte c = hex_byte d \<longleftrightarrow> c = d"
proof
  assume "hex_byte c = hex_byte d"
  then have "of_char c div 16 = (of_char d div 16 :: nat)" "of_char c mod 16 = (of_char d mod 16 :: nat)"
    using of_char_lt [of c] of_char_lt [of d] by (auto simp: hex_byte_def hexdigit_inject)
  then have "of_char c = (of_char d :: nat)" by (metis div_mult_mod_eq)
  then show "c = d" by simp
qed simp

lemma hex_inject [simp]: "hex_EncodeToString a = hex_EncodeToString b \<longleftrightarrow> a = b"
proof
  assume "hex_EncodeToString a = hex_EncodeToString b"
  then show "a = b"
  proof (induction a arbitrary: b)
    case Nil
    then show ?case by (cases b) (simp_all add: hex_EncodeToString_def hex_byte_def)
  next
    case (Cons x a)
    then obtain y b' where b: "b = y # b'" by (cases b) (auto simp: hex_EncodeToString_def hex_byte_def)
    have "hex_byte x = hex_byte y" "hex_EncodeToString a = hex_EncodeToString b'"
      using Cons.prems by (auto simp: b hex_EncodeToString_def hex_byte_def)
    with Cons.IH show ?case by (simp add: b hex_byte_inject)
  qed
qed simp

section \<open>Calls that can fail\<close>

text \<open>Running one call after another, stopping at the first error.\<close>

definition andThen :: "('s \<Rightarrow> 's \<times> ('e + 'a)) \<Rightarrow> ('a \<Rightarrow> 's \<Rightarrow> 's \<times> ('e + 'b)) \<Rightarrow> 's \<Rightarrow> 's \<times> ('e + 'b)" where
  "andThen m f s = (case m s of (s, Inl e) \<Rightarrow> (s, Inl e) | (s, Inr x) \<Rightarrow> f x s)"

lemma andThen_cases:
  assumes "andThen m f s = (s', r)"
  obtains e where "m s = (s', Inl e)" "r = Inl e"
  | x s1 where "m s = (s1, Inr x)" "f x s1 = (s', r)"
  using assms by (auto simp: andThen_def split: prod.splits sum.splits)

lemma andThen_simps [simp]:
  "m s = (s1, Inl e) \<Longrightarrow> andThen m f s = (s1, Inl e)"
  "m s = (s1, Inr x) \<Longrightarrow> andThen m f s = f x s1"
  by (simp_all add: andThen_def)

text \<open>
  Reasoning about such calls: from a state where \<open>P\<close> holds, a result satisfies \<open>Q\<close> and an error
  leaves a state where \<open>E\<close> holds.
\<close>

definition hoare :: "('s \<Rightarrow> bool) \<Rightarrow> ('s \<Rightarrow> 's \<times> ('e + 'a)) \<Rightarrow> ('a \<Rightarrow> 's \<Rightarrow> bool) \<Rightarrow> ('s \<Rightarrow> bool) \<Rightarrow> bool" where
  "hoare P m Q E \<longleftrightarrow> (\<forall>s. P s \<longrightarrow> (case m s of (s', Inl e) \<Rightarrow> E s' | (s', Inr x) \<Rightarrow> Q x s'))"

named_theorems hoare_rules

lemma hoareI: "(\<And>s s' r. P s \<Longrightarrow> m s = (s', r) \<Longrightarrow> (case r of Inl e \<Rightarrow> E s' | Inr x \<Rightarrow> Q x s')) \<Longrightarrow> hoare P m Q E"
  by (auto simp: hoare_def split: prod.splits)

lemma hoareD: "hoare P m Q E \<Longrightarrow> P s \<Longrightarrow> m s = (s', r) \<Longrightarrow> (case r of Inl e \<Rightarrow> E s' | Inr x \<Rightarrow> Q x s')"
  by (auto simp: hoare_def dest: spec [of _ s])

lemma hoare_andThen [hoare_rules]: "hoare P m R E \<Longrightarrow> (\<And>x. hoare (R x) (f x) Q E) \<Longrightarrow> hoare P (andThen m f) Q E"
  by (fastforce simp: hoare_def andThen_def split: prod.splits sum.splits)

lemma hoare_return [hoare_rules]: "(\<And>s. P s \<Longrightarrow> Q x s) \<Longrightarrow> hoare P (\<lambda>s. (s, Inr x)) Q E"
  by (simp add: hoare_def)

lemma hoare_raise [hoare_rules]: "(\<And>s. P s \<Longrightarrow> E s) \<Longrightarrow> hoare P (\<lambda>s. (s, Inl e)) Q E"
  by (simp add: hoare_def)

lemma hoare_if [hoare_rules]: "(b \<Longrightarrow> hoare P m Q E) \<Longrightarrow> (\<not> b \<Longrightarrow> hoare P m' Q E) \<Longrightarrow> hoare P (if b then m else m') Q E"
  by simp

lemma hoare_weaken: "hoare P m Q E \<Longrightarrow> (\<And>s. P' s \<Longrightarrow> P s) \<Longrightarrow> (\<And>x s. Q x s \<Longrightarrow> Q' x s) \<Longrightarrow> (\<And>s. E s \<Longrightarrow> E' s) \<Longrightarrow> hoare P' m Q' E'"
  by (fastforce simp: hoare_def split: prod.splits sum.splits)

text \<open>The common case: a call that keeps an invariant.\<close>

abbreviation keeps :: "('s \<Rightarrow> bool) \<Rightarrow> ('s \<Rightarrow> 's \<times> ('e + 'a)) \<Rightarrow> bool" where
  "keeps P m \<equiv> hoare P m (\<lambda>_. P) P"

lemma keepsD: "keeps P m \<Longrightarrow> P s \<Longrightarrow> P (fst (m s))"
  using hoareD [OF _ _ prod.collapse [symmetric], of P m "\<lambda>_. P" P s] by (cases "snd (m s)") auto

lemma keeps_andThen: "keeps P m \<Longrightarrow> (\<And>x. keeps P (f x)) \<Longrightarrow> keeps P (andThen m f)"
  by (rule hoare_andThen)

lemma keeps_same: "(\<And>s. fst (m s) = s) \<Longrightarrow> keeps P m"
  by (auto simp: hoare_def split: prod.splits sum.splits) (metis fst_conv)+

lemmas keeps_rules = keeps_andThen hoare_return hoare_raise hoare_if

end
