(* ===== verification/Custody.thy ===== *)
theory Custody
  imports Support
begin

text \<open>
  The custody boundary of \<open>services/wallet-service/custody/custody.go\<close>: the mock provider, the contract
  of a provider as the locale \<open>custody_provider\<close>, and its interpretation on the mock.
\<close>

section \<open>The mock provider\<close>

text \<open>\<open>mk_rand\<close> lists the outcomes of the coming \<open>rand.Read\<close> calls: the bytes read, or a
  failure.\<close>

record Broadcast =
  bc_Asset :: string
  bc_Address :: string
  bc_Amount :: int64
  bc_TxHash :: string

record Mock =
  mk_withdrawn :: "string \<rightharpoonup> string"
  mk_Broadcasts :: "Broadcast list"
  mk_rand :: "string option list"

definition NewMock :: "string option list \<Rightarrow> Mock" where
  "NewMock rnd = \<lparr>mk_withdrawn = Map.empty, mk_Broadcasts = [], mk_rand = rnd\<rparr>"

definition rand_Read :: "Mock \<Rightarrow> Mock \<times> string option" where
  "rand_Read m = (case mk_rand m of [] \<Rightarrow> (m, None) | r # rs \<Rightarrow> (m\<lparr>mk_rand := rs\<rparr>, r))"

definition Mock_NewAddress :: "string \<Rightarrow> string \<Rightarrow> Mock \<Rightarrow> Mock \<times> (string + string)" where
  "Mock_NewAddress asset ref m =
     (case rand_Read m of
        (m, None) \<Rightarrow> (m, Inl ''rand'')
      | (m, Some b) \<Rightarrow> (m, Inr (asset @ ''_'' @ hex_EncodeToString b)))"

definition Mock_Withdraw :: "string \<Rightarrow> string \<Rightarrow> int64 \<Rightarrow> string \<Rightarrow> Mock \<Rightarrow> Mock \<times> (string + string)" where
  "Mock_Withdraw asset address amount idempotencyKey m =
     (case mk_withdrawn m idempotencyKey of
        Some tx \<Rightarrow> (m, Inr tx)
      | None \<Rightarrow>
          (case rand_Read m of
             (m, None) \<Rightarrow> (m, Inl ''rand'')
           | (m, Some b) \<Rightarrow>
               let tx = ''0x'' @ hex_EncodeToString b
               in (m\<lparr>mk_withdrawn := (mk_withdrawn m)(idempotencyKey \<mapsto> tx),
                     mk_Broadcasts := mk_Broadcasts m @ [\<lparr>bc_Asset = asset, bc_Address = address, bc_Amount = amount, bc_TxHash = tx\<rparr>]\<rparr>, Inr tx)))"

section \<open>What a provider promises\<close>

text \<open>
  \<open>keys\<close> are the idempotency keys that have been broadcast and \<open>outgoing\<close> the transfers
  made, in order. A withdrawal broadcasts at most once per key; it may have broadcast and still
  return an error.
\<close>

locale custody_provider =
  fixes new_address :: "string \<Rightarrow> string \<Rightarrow> 'c \<Rightarrow> 'c \<times> (string + string)"
    and withdraw :: "string \<Rightarrow> string \<Rightarrow> int64 \<Rightarrow> string \<Rightarrow> 'c \<Rightarrow> 'c \<times> (string + string)"
    and keys :: "'c \<Rightarrow> string set"
    and outgoing :: "'c \<Rightarrow> (string \<times> string \<times> int64) list"
  assumes address_quiet: "new_address asset ref c = (c', r) \<Longrightarrow> keys c' = keys c \<and> outgoing c' = outgoing c"
    and withdraw_once: "withdraw asset addr x key c = (c', r) \<Longrightarrow>
      (keys c' = keys c \<and> outgoing c' = outgoing c \<and> (\<forall>tx. r = Inr tx \<longrightarrow> key \<in> keys c))
    \<or> (key \<notin> keys c \<and> keys c' = insert key (keys c) \<and> outgoing c' = outgoing c @ [(asset, addr, x)])"
begin

text \<open>After a withdrawal was acknowledged its key is spent, and a repetition sends nothing.\<close>

lemma withdraw_spends: "withdraw asset addr x key c = (c', Inr tx) \<Longrightarrow> key \<in> keys c'"
  using withdraw_once by blast

lemma withdraw_again:
  assumes "key \<in> keys c" "withdraw asset addr x key c = (c', r)"
  shows "keys c' = keys c \<and> outgoing c' = outgoing c"
  using withdraw_once [OF assms(2)] assms(1) by blast

end

definition mock_keys :: "Mock \<Rightarrow> string set" where "mock_keys m = dom (mk_withdrawn m)"

definition mock_outgoing :: "Mock \<Rightarrow> (string \<times> string \<times> int64) list" where
  "mock_outgoing m = map (\<lambda>b. (bc_Asset b, bc_Address b, bc_Amount b)) (mk_Broadcasts m)"

interpretation mock: custody_provider Mock_NewAddress Mock_Withdraw mock_keys mock_outgoing
proof unfold_locales
  fix asset ref c c' r assume "Mock_NewAddress asset ref c = (c', r)"
  then show "mock_keys c' = mock_keys c \<and> mock_outgoing c' = mock_outgoing c"
    by (auto simp: Mock_NewAddress_def rand_Read_def mock_keys_def mock_outgoing_def split: list.splits option.splits)
next
  fix asset addr x key c c' r assume "Mock_Withdraw asset addr x key c = (c', r)"
  then show "(mock_keys c' = mock_keys c \<and> mock_outgoing c' = mock_outgoing c \<and> (\<forall>tx. r = Inr tx \<longrightarrow> key \<in> mock_keys c))
    \<or> (key \<notin> mock_keys c \<and> mock_keys c' = insert key (mock_keys c) \<and> mock_outgoing c' = mock_outgoing c @ [(asset, addr, x)])"
    by (auto simp: Mock_Withdraw_def rand_Read_def mock_keys_def mock_outgoing_def Let_def split: list.splits option.splits if_splits)
qed

end
