(* ===== verification/Wallet.thy ===== *)
theory Wallet
  imports LedgerOps Custody
begin

text \<open>
  The wallet of \<open>services/wallet-service/wallet/wallet.go\<close> over the tables of
  \<open>infra/db/0004_wallets.sql\<close>. A custody provider's two operations are arguments; every statement
  on the pool is one round trip of the schedule the ledger uses. Operations run one at a time, except
  that \<open>DepositAddress\<close> may race with a call for the same user and asset.
\<close>

section \<open>Tables\<close>

text \<open>The columns \<open>created_at\<close> and \<open>decided_at\<close>, which no code reads, are left out.\<close>

record address_row =
  da_user :: int64
  da_asset :: string
  da_address :: string

record deposit_row =
  dp_user :: int64
  dp_asset :: string
  dp_amount :: int64
  dp_tx_hash :: string
  dp_confirmations :: int
  dp_status :: string

record allow_row =
  al_user :: int64
  al_asset :: string
  al_address :: string
  al_label :: string

record Withdrawal =
  wd_ID :: int64
  wd_UserID :: int64
  wd_Asset :: string
  wd_Amount :: int64
  wd_Address :: string
  wd_Status :: string
  wd_TxHash :: string

record AllowlistEntry =
  ae_Asset :: string
  ae_Address :: string
  ae_Label :: string

text \<open>The wallet shares its database, and so the schedule of round trips, with the ledger.\<close>

record 'c wallet =
  wl_db :: ledger_db
  wl_addresses :: "address_row list"
  wl_deposits :: "deposit_row list"
  wl_allowlist :: "allow_row list"
  wl_withdrawals :: "Withdrawal list"
  wl_next_id :: int64
  wl_custody :: 'c
  wl_withdrawLimit :: int64

datatype wallet_error = ErrNotAllowlisted | ErrOverLimit | ErrBadAmount | ErrWithdrawalNotFound | ErrNotPending
  | ErrUnknownAddress string | ErrUnique | ErrNoRow | ErrQuery | ErrPosting ledger_error | ErrCustody string

text \<open>The idempotency keys of the wallet's postings and broadcasts.\<close>

definition deposit_key :: "string \<Rightarrow> string" where "deposit_key txHash = ''deposit-'' @ txHash"
definition wlock_key :: "int64 \<Rightarrow> string" where "wlock_key i = ''wlock-'' @ fmt_d i"
definition wsettle_key :: "int64 \<Rightarrow> string" where "wsettle_key i = ''wsettle-'' @ fmt_d i"
definition wunlock_key :: "int64 \<Rightarrow> string" where "wunlock_key i = ''wunlock-'' @ fmt_d i"
definition withdraw_key :: "int64 \<Rightarrow> string" where "withdraw_key i = ''withdraw-'' @ fmt_d i"

definition ConfirmationsRequired :: int where "ConfirmationsRequired = 3"

text \<open>A statement on the pool is its own transaction.\<close>

definition statement :: "('c wallet \<Rightarrow> 'c wallet \<times> (wallet_error + 'a)) \<Rightarrow> 'c wallet \<Rightarrow> 'c wallet \<times> (wallet_error + 'a)" where
  "statement f w =
     (case next_io (wl_db w) of
        (DbOk, db) \<Rightarrow> f (w\<lparr>wl_db := db\<rparr>)
      | (DbFail, db) \<Rightarrow> (w\<lparr>wl_db := db\<rparr>, Inl ErrQuery)
      | (DbAckLost, db) \<Rightarrow> (fst (f (w\<lparr>wl_db := db\<rparr>)), Inl ErrQuery))"

definition posting :: "(ledger_db \<Rightarrow> ledger_db \<times> (ledger_error + unit)) \<Rightarrow> 'c wallet \<Rightarrow> 'c wallet \<times> (wallet_error + unit)" where
  "posting f w = (case f (wl_db w) of (db, r) \<Rightarrow> (w\<lparr>wl_db := db\<rparr>, map_sum ErrPosting (\<lambda>u. u) r))"

definition references :: "int64 \<Rightarrow> string \<Rightarrow> 'c wallet \<Rightarrow> bool" where
  "references userID asset w \<longleftrightarrow> userID \<in> set (db_users (wl_db w)) \<and> asset \<in> set (db_assets (wl_db w))"

section \<open>Deposits\<close>

definition select_address :: "int64 \<Rightarrow> string \<Rightarrow> 'c wallet \<Rightarrow> 'c wallet \<times> (wallet_error + string option)" where
  "select_address userID asset = statement (\<lambda>w. (w, Inr (map_option da_address
     (find (\<lambda>r. da_user r = userID \<and> da_asset r = asset) (wl_addresses w)))))"

definition insert_address_row :: "int64 \<Rightarrow> string \<Rightarrow> string \<Rightarrow> 'c wallet \<Rightarrow> 'c wallet \<times> (wallet_error + unit)" where
  "insert_address_row userID asset addr w =
     (if \<not> references userID asset w then (w, Inl ErrQuery)
      else if \<exists>r \<in> set (wl_addresses w). da_address r = addr \<or> (da_user r = userID \<and> da_asset r = asset) then (w, Inl ErrUnique)
      else (w\<lparr>wl_addresses := wl_addresses w @ [\<lparr>da_user = userID, da_asset = asset, da_address = addr\<rparr>]\<rparr>, Inr ()))"

text \<open>
  \<open>rival\<close> is the address a concurrent call for the same user and asset may have stored between
  the first read and the insert. The result is the address and the error, as the code returns both.
\<close>

definition DepositAddress :: "(string \<Rightarrow> string \<Rightarrow> 'c \<Rightarrow> 'c \<times> (string + string)) \<Rightarrow> string option \<Rightarrow> int64 \<Rightarrow> string \<Rightarrow>
    'c wallet \<Rightarrow> 'c wallet \<times> string \<times> wallet_error option" where
  "DepositAddress newAddress rival userID asset w =
     (case select_address userID asset w of
        (w, Inl err) \<Rightarrow> (w, [], Some err)
      | (w, Inr (Some addr)) \<Rightarrow> (w, addr, None)
      | (w, Inr None) \<Rightarrow>
          (case newAddress asset (''user:'' @ fmt_d userID) (wl_custody w) of
             (c, Inl e) \<Rightarrow> (w\<lparr>wl_custody := c\<rparr>, [], Some (ErrCustody e))
           | (c, Inr addr) \<Rightarrow>
               let w = w\<lparr>wl_custody := c\<rparr>;
                   w = (case rival of None \<Rightarrow> w | Some a \<Rightarrow> fst (insert_address_row userID asset a w))
               in (case statement (insert_address_row userID asset addr) w of
                     (w, Inr _) \<Rightarrow> (w, addr, None)
                   | (w, Inl err) \<Rightarrow>
                       if err = ErrUnique
                       then (case select_address userID asset w of
                               (w, Inr (Some a)) \<Rightarrow> (w, a, None)
                             | (w, Inr None) \<Rightarrow> (w, addr, Some ErrNoRow)
                             | (w, Inl err) \<Rightarrow> (w, addr, Some err))
                       else (w, addr, Some err))))"

definition address_owner :: "string \<Rightarrow> string \<Rightarrow> 'c wallet \<Rightarrow> 'c wallet \<times> (wallet_error + int64)" where
  "address_owner address asset = statement (\<lambda>w. (w,
     case find (\<lambda>r. da_address r = address \<and> da_asset r = asset) (wl_addresses w) of
       None \<Rightarrow> Inl (ErrUnknownAddress address)
     | Some r \<Rightarrow> Inr (da_user r)))"

text \<open>\<open>INSERT INTO deposits ... ON CONFLICT (tx_hash, asset) DO UPDATE ... RETURNING status\<close>; the
  column \<open>confirmations\<close> is a 32-bit integer.\<close>

definition upsert_deposit :: "int64 \<Rightarrow> string \<Rightarrow> int64 \<Rightarrow> string \<Rightarrow> int \<Rightarrow> 'c wallet \<Rightarrow> 'c wallet \<times> (wallet_error + string)" where
  "upsert_deposit userID asset amount txHash confirmations = statement (\<lambda>w.
     if \<not> references userID asset w \<or> confirmations < - (2 ^ 31) \<or> 2 ^ 31 \<le> confirmations then (w, Inl ErrQuery)
     else (case find (\<lambda>r. dp_tx_hash r = txHash \<and> dp_asset r = asset) (wl_deposits w) of
             Some r \<Rightarrow> (w\<lparr>wl_deposits := map (\<lambda>r. if dp_tx_hash r = txHash \<and> dp_asset r = asset
                           then r\<lparr>dp_confirmations := max (dp_confirmations r) confirmations\<rparr> else r) (wl_deposits w)\<rparr>,
                       Inr (dp_status r))
           | None \<Rightarrow> (w\<lparr>wl_deposits := wl_deposits w @ [\<lparr>dp_user = userID, dp_asset = asset, dp_amount = amount,
                         dp_tx_hash = txHash, dp_confirmations = confirmations, dp_status = ''pending''\<rparr>]\<rparr>, Inr ''pending'')))"

definition mark_credited :: "string \<Rightarrow> string \<Rightarrow> 'c wallet \<Rightarrow> 'c wallet \<times> (wallet_error + unit)" where
  "mark_credited txHash asset = statement (\<lambda>w. (w\<lparr>wl_deposits := map (\<lambda>r. if dp_tx_hash r = txHash \<and> dp_asset r = asset
     then r\<lparr>dp_status := ''credited''\<rparr> else r) (wl_deposits w)\<rparr>, Inr ()))"

definition HandleDeposit :: "string \<Rightarrow> string \<Rightarrow> string \<Rightarrow> int64 \<Rightarrow> int \<Rightarrow> 'c wallet \<Rightarrow> 'c wallet \<times> (wallet_error + bool)" where
  "HandleDeposit asset address txHash amount confirmations w =
     (if amount \<le> 0 then (w, Inl ErrBadAmount)
      else andThen (address_owner address asset) (\<lambda>userID.
           andThen (upsert_deposit userID asset amount txHash confirmations) (\<lambda>status.
             if status = ''credited'' \<or> confirmations < ConfirmationsRequired then (\<lambda>w. (w, Inr False))
             else andThen (posting (Deposit userID asset amount (deposit_key txHash))) (\<lambda>_.
                  andThen (mark_credited txHash asset) (\<lambda>_ w. (w, Inr True))))) w)"

section \<open>Withdrawals\<close>

definition AddAllowlistAddress :: "int64 \<Rightarrow> string \<Rightarrow> string \<Rightarrow> string \<Rightarrow> 'c wallet \<Rightarrow> 'c wallet \<times> (wallet_error + unit)" where
  "AddAllowlistAddress userID asset address label = statement (\<lambda>w.
     if \<not> references userID asset w then (w, Inl ErrQuery)
     else if \<exists>r \<in> set (wl_allowlist w). al_user r = userID \<and> al_asset r = asset \<and> al_address r = address then (w, Inr ())
     else (w\<lparr>wl_allowlist := wl_allowlist w @ [\<lparr>al_user = userID, al_asset = asset, al_address = address, al_label = label\<rparr>]\<rparr>, Inr ()))"

definition is_allowlisted :: "int64 \<Rightarrow> string \<Rightarrow> string \<Rightarrow> 'c wallet \<Rightarrow> bool" where
  "is_allowlisted userID asset address w \<longleftrightarrow>
     (\<exists>r \<in> set (wl_allowlist w). al_user r = userID \<and> al_asset r = asset \<and> al_address r = address)"

definition insert_withdrawal :: "int64 \<Rightarrow> string \<Rightarrow> int64 \<Rightarrow> string \<Rightarrow> 'c wallet \<Rightarrow> 'c wallet \<times> (wallet_error + Withdrawal)" where
  "insert_withdrawal userID asset amount address = statement (\<lambda>w.
     let r = \<lparr>wd_ID = wl_next_id w, wd_UserID = userID, wd_Asset = asset, wd_Amount = amount, wd_Address = address,
              wd_Status = ''requested'', wd_TxHash = []\<rparr>;
         w = w\<lparr>wl_next_id := wl_next_id w + 1\<rparr>
     in if \<not> references userID asset w \<or> amount \<le> 0 then (w, Inl ErrQuery)
        else (w\<lparr>wl_withdrawals := wl_withdrawals w @ [r]\<rparr>, Inr r))"

definition delete_withdrawal :: "int64 \<Rightarrow> 'c wallet \<Rightarrow> 'c wallet \<times> (wallet_error + unit)" where
  "delete_withdrawal wid = statement (\<lambda>w. (w\<lparr>wl_withdrawals := filter (\<lambda>r. wd_ID r \<noteq> wid) (wl_withdrawals w)\<rparr>, Inr ()))"

definition lock_withdrawal :: "Withdrawal \<Rightarrow> 'c wallet \<Rightarrow> 'c wallet \<times> (wallet_error + Withdrawal)" where
  "lock_withdrawal r w =
     (case posting (Lock (wd_UserID r) (wd_Asset r) (wd_Amount r) (wlock_key (wd_ID r))) w of
        (w, Inl err) \<Rightarrow> (fst (delete_withdrawal (wd_ID r) w), Inl err)
      | (w, Inr _) \<Rightarrow> (w, Inr r))"

definition RequestWithdrawal :: "int64 \<Rightarrow> string \<Rightarrow> string \<Rightarrow> int64 \<Rightarrow> 'c wallet \<Rightarrow> 'c wallet \<times> (wallet_error + Withdrawal)" where
  "RequestWithdrawal userID asset address amount w =
     (if amount \<le> 0 then (w, Inl ErrBadAmount)
      else if amount > wl_withdrawLimit w then (w, Inl ErrOverLimit)
      else andThen (statement (\<lambda>w. (w, Inr (is_allowlisted userID asset address w)))) (\<lambda>listed.
             if \<not> listed then (\<lambda>w. (w, Inl ErrNotAllowlisted))
             else andThen (insert_withdrawal userID asset amount address) lock_withdrawal) w)"

definition Allowlist :: "int64 \<Rightarrow> 'c wallet \<Rightarrow> 'c wallet \<times> (wallet_error + AllowlistEntry list)" where
  "Allowlist userID = statement (\<lambda>w. (w, Inr
     (map (\<lambda>r. \<lparr>ae_Asset = al_asset r, ae_Address = al_address r, ae_Label = al_label r\<rparr>)
       (sort_key (\<lambda>r. [al_asset r, al_address r]) (filter (\<lambda>r. al_user r = userID) (wl_allowlist w))))))"

definition UserWithdrawals :: "int64 \<Rightarrow> 'c wallet \<Rightarrow> 'c wallet \<times> (wallet_error + Withdrawal list)" where
  "UserWithdrawals userID = statement (\<lambda>w. (w, Inr
     (rev (sort_key wd_ID (filter (\<lambda>r. wd_UserID r = userID) (wl_withdrawals w))))))"

text \<open>The operator view does not select the transaction hash.\<close>

definition PendingWithdrawals :: "'c wallet \<Rightarrow> 'c wallet \<times> (wallet_error + Withdrawal list)" where
  "PendingWithdrawals = statement (\<lambda>w. (w, Inr
     (map (\<lambda>r. r\<lparr>wd_TxHash := []\<rparr>) (sort_key wd_ID (filter (\<lambda>r. wd_Status r = ''requested'') (wl_withdrawals w))))))"

definition lockRequested :: "int64 \<Rightarrow> 'c wallet \<Rightarrow> 'c wallet \<times> (wallet_error + Withdrawal)" where
  "lockRequested wid = statement (\<lambda>w. (w,
     case find (\<lambda>r. wd_ID r = wid) (wl_withdrawals w) of
       None \<Rightarrow> Inl ErrWithdrawalNotFound
     | Some r \<Rightarrow> if wd_Status r \<noteq> ''requested'' then Inl ErrNotPending else Inr (r\<lparr>wd_TxHash := []\<rparr>)))"

definition update_withdrawal :: "int64 \<Rightarrow> (Withdrawal \<Rightarrow> Withdrawal) \<Rightarrow> 'c wallet \<Rightarrow> 'c wallet \<times> (wallet_error + unit)" where
  "update_withdrawal wid f = statement (\<lambda>w.
     (w\<lparr>wl_withdrawals := map (\<lambda>r. if wd_ID r = wid then f r else r) (wl_withdrawals w)\<rparr>, Inr ()))"

definition broadcast :: "(string \<Rightarrow> string \<Rightarrow> int64 \<Rightarrow> string \<Rightarrow> 'c \<Rightarrow> 'c \<times> (string + string)) \<Rightarrow> Withdrawal \<Rightarrow>
    'c wallet \<Rightarrow> 'c wallet \<times> (wallet_error + string)" where
  "broadcast withdraw r w =
     (case withdraw (wd_Asset r) (wd_Address r) (wd_Amount r) (withdraw_key (wd_ID r)) (wl_custody w) of
        (c, res) \<Rightarrow> (w\<lparr>wl_custody := c\<rparr>, map_sum ErrCustody (\<lambda>u. u) res))"

text \<open>What \<open>ApproveWithdrawal\<close> and \<open>RejectWithdrawal\<close> do with the row they have read.\<close>

definition approve_row :: "(string \<Rightarrow> string \<Rightarrow> int64 \<Rightarrow> string \<Rightarrow> 'c \<Rightarrow> 'c \<times> (string + string)) \<Rightarrow> Withdrawal \<Rightarrow>
    'c wallet \<Rightarrow> 'c wallet \<times> (wallet_error + Withdrawal)" where
  "approve_row withdraw r =
     andThen (posting (SettleWithdrawal (wd_UserID r) (wd_Asset r) (wd_Amount r) (wsettle_key (wd_ID r)))) (\<lambda>_.
     andThen (broadcast withdraw r) (\<lambda>txHash.
     andThen (update_withdrawal (wd_ID r) (\<lambda>r. r\<lparr>wd_Status := ''broadcast'', wd_TxHash := txHash\<rparr>)) (\<lambda>_ w.
       (w, Inr (r\<lparr>wd_Status := ''broadcast'', wd_TxHash := txHash\<rparr>)))))"

definition reject_row :: "Withdrawal \<Rightarrow> 'c wallet \<Rightarrow> 'c wallet \<times> (wallet_error + Withdrawal)" where
  "reject_row r =
     andThen (posting (Unlock (wd_UserID r) (wd_Asset r) (wd_Amount r) (wunlock_key (wd_ID r)))) (\<lambda>_.
     andThen (update_withdrawal (wd_ID r) (\<lambda>r. r\<lparr>wd_Status := ''rejected''\<rparr>)) (\<lambda>_ w.
       (w, Inr (r\<lparr>wd_Status := ''rejected''\<rparr>))))"

definition ApproveWithdrawal :: "(string \<Rightarrow> string \<Rightarrow> int64 \<Rightarrow> string \<Rightarrow> 'c \<Rightarrow> 'c \<times> (string + string)) \<Rightarrow> int64 \<Rightarrow>
    'c wallet \<Rightarrow> 'c wallet \<times> (wallet_error + Withdrawal)" where
  "ApproveWithdrawal withdraw wid = andThen (lockRequested wid) (approve_row withdraw)"

definition RejectWithdrawal :: "int64 \<Rightarrow> 'c wallet \<Rightarrow> 'c wallet \<times> (wallet_error + Withdrawal)" where
  "RejectWithdrawal wid = andThen (lockRequested wid) reject_row"

end
