(* ===== verification/WalletInv.thy ===== *)
theory WalletInv
  imports Wallet
begin

text \<open>
  The invariant of the wallet: what was broadcast was requested, authorised and settled. It is proved
  for every provider that satisfies \<open>custody_provider\<close>.
\<close>

section \<open>What the operations keep\<close>

lemma view_same: "same_tables db db' \<Longrightarrow> view db' = view db"
  using same_tables_facts(1,2) by (auto simp: view_def)

lemma statement_cases:
  assumes "statement f w = (w', r)"
  obtains (run) db where "same_tables (wl_db w) db" "f (w\<lparr>wl_db := db\<rparr>) = (w', r)"
  | (failed) db where "same_tables (wl_db w) db" "w' = w\<lparr>wl_db := db\<rparr>" "r = Inl ErrQuery"
  | (lost) db r' where "same_tables (wl_db w) db" "f (w\<lparr>wl_db := db\<rparr>) = (w', r')" "r = Inl ErrQuery"
proof -
  obtain io db where n: "next_io (wl_db w) = (io, db)" by fastforce
  note st = next_io_same [OF n]
  show thesis
  proof (cases io)
    case DbOk
    with n assms st show thesis by (intro run [of db]) (auto simp: statement_def)
  next
    case DbFail
    with n assms st show thesis by (intro failed [of db]) (auto simp: statement_def)
  next
    case DbAckLost
    obtain w1 r1 where "f (w\<lparr>wl_db := db\<rparr>) = (w1, r1)" by fastforce
    with DbAckLost n assms st show thesis by (intro lost [of db r1]) (auto simp: statement_def)
  qed
qed

text \<open>A relation that absorbs round trips lifts from the effect of a statement to running it.\<close>

lemma statement_lift:
  assumes "statement f w = (w', r)"
    and absorb: "\<And>db. same_tables (wl_db w) db \<Longrightarrow> Q (w\<lparr>wl_db := db\<rparr>)"
    and effect: "\<And>db w1 r1. same_tables (wl_db w) db \<Longrightarrow> f (w\<lparr>wl_db := db\<rparr>) = (w1, r1) \<Longrightarrow> Q w1 \<and> (\<forall>x. r1 = Inr x \<longrightarrow> R x w1)"
  shows "Q w' \<and> (\<forall>x. r = Inr x \<longrightarrow> R x w')"
  using assms(1) by (cases rule: statement_cases) (use absorb effect in blast)+

lemma posting_cases:
  assumes "posting f w = (w', r)"
  obtains db r' where "f (wl_db w) = (db, r')" "w' = w\<lparr>wl_db := db\<rparr>" "r = map_sum ErrPosting (\<lambda>u. u) r'"
  using assms by (auto simp: posting_def split: prod.splits)

lemma same_references: "same_tables (wl_db w) db \<Longrightarrow> references u a (w\<lparr>wl_db := db\<rparr>) = references u a w"
  by (simp add: references_def same_tables_def)

lemma withdraw_key_inject [simp]: "withdraw_key i = withdraw_key j \<longleftrightarrow> i = j"
  by (simp add: withdraw_key_def)

definition request_row_ok :: "'c wallet \<Rightarrow> Withdrawal \<Rightarrow> bool" where
  "request_row_ok w r \<longleftrightarrow> 0 < wd_Amount r \<and> wd_Amount r \<le> wl_withdrawLimit w \<and> in_int64 (wd_Amount r) \<and> wd_ID r < wl_next_id w
     \<and> is_allowlisted (wd_UserID r) (wd_Asset r) (wd_Address r) w"

definition rows_ok :: "'c wallet \<Rightarrow> bool" where
  "rows_ok w \<longleftrightarrow> in_int64 (wl_withdrawLimit w) \<and> distinct (map wd_ID (wl_withdrawals w)) \<and> list_all (request_row_ok w) (wl_withdrawals w)"

text \<open>A broadcast transfer belongs to a withdrawal row and was debited first.\<close>

definition paid_for :: "'c wallet \<Rightarrow> int64 \<Rightarrow> string \<times> string \<times> int64 \<Rightarrow> bool" where
  "paid_for w i out \<longleftrightarrow> wsettle_key i \<in> posted (wl_db w)
     \<and> (\<exists>r \<in> set (wl_withdrawals w). wd_ID r = i \<and> out = (wd_Asset r, wd_Address r, wd_Amount r))"

definition wallet_inv :: "('c \<Rightarrow> string set) \<Rightarrow> ('c \<Rightarrow> (string \<times> string \<times> int64) list) \<Rightarrow> 'c wallet \<Rightarrow> bool" where
  "wallet_inv keys outgoing w \<longleftrightarrow> ledger_inv (wl_db w) \<and> rows_ok w
     \<and> (\<exists>ids. distinct ids \<and> keys (wl_custody w) = withdraw_key ` set ids
          \<and> list_all2 (paid_for w) ids (outgoing (wl_custody w)))"

text \<open>What keeps the invariant: the ledger stays sound and forgets no key, and no row that was there
  changes its request.\<close>

definition kept_row :: "'c wallet \<Rightarrow> Withdrawal \<Rightarrow> bool" where
  "kept_row w r \<longleftrightarrow> (\<exists>r' \<in> set (wl_withdrawals w). wd_ID r' = wd_ID r \<and> wd_UserID r' = wd_UserID r
     \<and> wd_Asset r' = wd_Asset r \<and> wd_Address r' = wd_Address r \<and> wd_Amount r' = wd_Amount r)"

lemma wallet_inv_keep:
  assumes inv: "wallet_inv keys outgoing w" and w': "ledger_inv (wl_db w')" "rows_ok w'" "posted (wl_db w) \<subseteq> posted (wl_db w')"
    and rows: "\<And>r. r \<in> set (wl_withdrawals w) \<Longrightarrow> withdraw_key (wd_ID r) \<in> keys (wl_custody w) \<Longrightarrow> kept_row w' r"
    and cust: "keys (wl_custody w') = keys (wl_custody w)" "outgoing (wl_custody w') = outgoing (wl_custody w)"
  shows "wallet_inv keys outgoing w'"
proof -
  obtain ids where ids: "distinct ids" "keys (wl_custody w) = withdraw_key ` set ids" "list_all2 (paid_for w) ids (outgoing (wl_custody w))"
    using inv by (auto simp: wallet_inv_def)
  have "paid_for w' i out" if i: "i \<in> set ids" and pd: "paid_for w i out" for i out
  proof -
    obtain r where r: "r \<in> set (wl_withdrawals w)" "wd_ID r = i" "out = (wd_Asset r, wd_Address r, wd_Amount r)"
      and p: "wsettle_key i \<in> posted (wl_db w)" using pd by (auto simp: paid_for_def)
    have "kept_row w' r" using r i ids(2) by (intro rows) auto
    with r p w'(3) show ?thesis by (force simp: paid_for_def kept_row_def)
  qed
  then have "list_all2 (paid_for w') ids (outgoing (wl_custody w))" using ids(3) by (auto elim!: list.rel_mono_strong)
  with ids w' cust show ?thesis unfolding wallet_inv_def by auto
qed

lemma kept_row_same: "r \<in> set (wl_withdrawals w) \<Longrightarrow> kept_row w r"
  by (auto simp: kept_row_def)

lemma wallet_inv_db:
  assumes "wallet_inv keys outgoing w" "ledger_inv db" "posted (wl_db w) \<subseteq> posted db"
  shows "wallet_inv keys outgoing (w\<lparr>wl_db := db\<rparr>)"
  by (rule wallet_inv_keep [OF assms(1)])
    (use assms in \<open>auto simp: wallet_inv_def rows_ok_def list_all_iff request_row_ok_def is_allowlisted_def kept_row_def\<close>)

lemma wallet_inv_same:
  assumes "wallet_inv keys outgoing w" "same_tables (wl_db w) db"
  shows "wallet_inv keys outgoing (w\<lparr>wl_db := db\<rparr>)"
  using assms same_tables_inv(2) [OF assms(2)] same_tables_facts(2) [OF assms(2)]
  by (intro wallet_inv_db) (auto simp: wallet_inv_def)

lemma statement_hoare [hoare_rules]:
  assumes "hoare (wallet_inv keys outgoing) f Q (wallet_inv keys outgoing)"
    and "\<And>s x. Q x s \<Longrightarrow> wallet_inv keys outgoing s"
  shows "hoare (wallet_inv keys outgoing) (statement f) Q (wallet_inv keys outgoing)"
proof (rule hoareI)
  fix w w' r assume w: "wallet_inv keys outgoing w" and st: "statement f w = (w', r)"
  have db: "wallet_inv keys outgoing (w\<lparr>wl_db := db\<rparr>)" if "same_tables (wl_db w) db" for db
    by (rule wallet_inv_same [OF w that])
  show "case r of Inl e \<Rightarrow> wallet_inv keys outgoing w' | Inr x \<Rightarrow> Q x w'"
    using st
  proof (cases rule: statement_cases)
    case (run db)
    from hoareD [OF assms(1) db [OF run(1)] run(2)] show ?thesis .
  next
    case (failed db)
    with db [OF failed(1)] show ?thesis by simp
  next
    case (lost db r')
    with hoareD [OF assms(1) db [OF lost(1)] lost(2)] assms(2) show ?thesis by (cases r') auto
  qed
qed

text \<open>A movement of the ledger; its key is posted when it is acknowledged.\<close>

lemma posting_hoare:
  assumes "op_ok x" "\<And>w db. F (w\<lparr>wl_db := db\<rparr>) = F w"
  shows "hoare (\<lambda>w. wallet_inv keys outgoing w \<and> F w) (posting (ledger_exec x))
    (\<lambda>_ w. wallet_inv keys outgoing w \<and> F w \<and> op_key x \<in> posted (wl_db w)) (wallet_inv keys outgoing)"
proof (rule hoareI)
  fix w w' r assume w: "wallet_inv keys outgoing w \<and> F w" and p: "posting (ledger_exec x) w = (w', r)"
  from p show "case r of Inl e \<Rightarrow> wallet_inv keys outgoing w'
    | Inr _ \<Rightarrow> wallet_inv keys outgoing w' \<and> F w' \<and> op_key x \<in> posted (wl_db w')"
  proof (cases rule: posting_cases)
    case (1 db r')
    have eff: "ledger_inv db" "post_effect (op_key x) (op_moves x) (view (wl_db w)) (view db) r'"
      using ledger_exec_effect [OF _ assms(1) 1(1)] w by (auto simp: wallet_inv_def)
    then have "posted (wl_db w) \<subseteq> posted db" by (auto simp: post_effect_def applied_def view_def split: sum.splits if_splits)
    then have "wallet_inv keys outgoing (w\<lparr>wl_db := db\<rparr>)" using w by (intro wallet_inv_db [OF _ eff(1)]) simp_all
    moreover have "op_key x \<in> posted db" if "r' = Inr u" for u
      using eff(2) that by (auto simp: post_effect_def applied_def view_def split: if_splits)
    ultimately show ?thesis using 1 w assms(2) by (cases r') auto
  qed
qed

lemma ledger_exec_fun:
  "ledger_exec (OLock u a x k) = Lock u a x k" "ledger_exec (OUnlock u a x k) = Unlock u a x k"
  "ledger_exec (ODeposit u a x k) = Deposit u a x k" "ledger_exec (OWithdraw u a x k) = SettleWithdrawal u a x k"
  by (rule ext, simp)+

lemmas posting_movement =
  posting_hoare [where x = "OLock u a x k" for u a x k, unfolded ledger_exec_fun op_ok.simps op_key.simps]
  posting_hoare [where x = "OUnlock u a x k" for u a x k, unfolded ledger_exec_fun op_ok.simps op_key.simps]
  posting_hoare [where x = "ODeposit u a x k" for u a x k, unfolded ledger_exec_fun op_ok.simps op_key.simps]
  posting_hoare [where x = "OWithdraw u a x k" for u a x k, unfolded ledger_exec_fun op_ok.simps op_key.simps]

lemma update_withdrawal_keeps [hoare_rules]:
  assumes f: "\<And>r. wd_ID (f r) = wd_ID r \<and> wd_UserID (f r) = wd_UserID r \<and> wd_Asset (f r) = wd_Asset r
      \<and> wd_Address (f r) = wd_Address r \<and> wd_Amount (f r) = wd_Amount r"
  shows "keeps (wallet_inv keys outgoing) (update_withdrawal i f)"
  unfolding update_withdrawal_def
proof (intro hoare_rules hoareI)
  let ?g = "\<lambda>r. if wd_ID r = i then f r else r"
  fix w w' r assume w: "wallet_inv keys outgoing w"
    and e: "(w\<lparr>wl_withdrawals := map ?g (wl_withdrawals w)\<rparr>, Inr ()) = (w', r)"
  have "wallet_inv keys outgoing (w\<lparr>wl_withdrawals := map ?g (wl_withdrawals w)\<rparr>)"
  proof (rule wallet_inv_keep [OF w])
    have "map wd_ID (map ?g xs) = map wd_ID xs" for xs using f by simp
    moreover have "list_all (request_row_ok (w\<lparr>wl_withdrawals := map ?g (wl_withdrawals w)\<rparr>)) (map ?g (wl_withdrawals w))"
      using w f by (auto simp: wallet_inv_def rows_ok_def list_all_iff request_row_ok_def is_allowlisted_def)
    ultimately show "rows_ok (w\<lparr>wl_withdrawals := map ?g (wl_withdrawals w)\<rparr>)"
      using w by (simp add: wallet_inv_def rows_ok_def del: map_map)
    show "kept_row (w\<lparr>wl_withdrawals := map ?g (wl_withdrawals w)\<rparr>) r" if "r \<in> set (wl_withdrawals w)" for r
      using that f [of r] unfolding kept_row_def by (intro bexI [of _ "?g r"]) simp_all
  qed (use w in \<open>auto simp: wallet_inv_def\<close>)
  then show "case r of Inl e \<Rightarrow> wallet_inv keys outgoing w' | Inr x \<Rightarrow> wallet_inv keys outgoing w'" using e by auto
qed

lemma lockRequested_hoare:
  "hoare (wallet_inv keys outgoing) (lockRequested i)
     (\<lambda>x w. wallet_inv keys outgoing w \<and> wd_ID x = i \<and> kept_row w x \<and> request_row_ok w x) (wallet_inv keys outgoing)"
  unfolding lockRequested_def
proof (rule statement_hoare)
  show "hoare (wallet_inv keys outgoing) (\<lambda>w. (w, case find (\<lambda>r. wd_ID r = i) (wl_withdrawals w) of None \<Rightarrow> Inl ErrWithdrawalNotFound
       | Some r \<Rightarrow> if wd_Status r \<noteq> ''requested'' then Inl ErrNotPending else Inr (r\<lparr>wd_TxHash := []\<rparr>)))
     (\<lambda>x w. wallet_inv keys outgoing w \<and> wd_ID x = i \<and> kept_row w x \<and> request_row_ok w x) (wallet_inv keys outgoing)"
  proof (rule hoareI)
    fix w w1 r1
    assume w: "wallet_inv keys outgoing w"
      and f: "(w, case find (\<lambda>r. wd_ID r = i) (wl_withdrawals w) of None \<Rightarrow> Inl ErrWithdrawalNotFound
         | Some r \<Rightarrow> if wd_Status r \<noteq> ''requested'' then Inl ErrNotPending else Inr (r\<lparr>wd_TxHash := []\<rparr>)) = (w1, r1)"
    have "request_row_ok w x" if "x \<in> set (wl_withdrawals w)" for x
      using w that by (simp add: wallet_inv_def rows_ok_def list_all_iff)
    with w f show "case r1 of Inl e \<Rightarrow> wallet_inv keys outgoing w1
        | Inr x \<Rightarrow> wallet_inv keys outgoing w1 \<and> wd_ID x = i \<and> kept_row w1 x \<and> request_row_ok w1 x"
      by (auto simp: find_Some_iff request_row_ok_def kept_row_def split: option.splits if_splits sum.splits intro!: bexI [OF _ nth_mem])
  qed
qed simp

lemma side_tables_inv:
  assumes "wallet_inv keys outgoing w"
  shows "wallet_inv keys outgoing (w\<lparr>wl_addresses := as\<rparr>)" "wallet_inv keys outgoing (w\<lparr>wl_deposits := ds\<rparr>)"
  using wallet_inv_keep [OF assms, of "w\<lparr>wl_addresses := as\<rparr>"] wallet_inv_keep [OF assms, of "w\<lparr>wl_deposits := ds\<rparr>"] assms
  by (auto simp: wallet_inv_def rows_ok_def list_all_iff request_row_ok_def is_allowlisted_def kept_row_def)

lemma read_keeps: "keeps (wallet_inv keys outgoing) (statement (\<lambda>w. (w, g w)))"
  by (rule statement_hoare) (auto simp: hoare_def split: sum.splits)

lemma insert_address_row_keeps: "keeps (wallet_inv keys outgoing) (insert_address_row u a d)"
  by (rule hoareI) (auto simp: insert_address_row_def split: if_splits intro: side_tables_inv)

lemma HandleDeposit_keeps:
  assumes x: "in_int64 amount"
  shows "keeps (wallet_inv keys outgoing) (HandleDeposit asset address tx amount confs)"
proof -
  let ?I = "wallet_inv keys outgoing"
  have up: "keeps ?I (upsert_deposit u asset amount tx confs)" for u
    unfolding upsert_deposit_def
    by (rule statement_hoare, rule hoareI) (auto split: option.splits if_splits intro: side_tables_inv)
  have mk: "keeps ?I (mark_credited tx asset)"
    unfolding mark_credited_def by (rule statement_hoare, rule hoareI) (auto intro: side_tables_inv)
  have ps: "keeps ?I (posting (Deposit u asset amount k))" for u k
    using posting_movement(3) [OF x, of "\<lambda>_. True" keys outgoing u asset k] by (auto elim: hoare_weaken)
  have ow: "keeps ?I (address_owner address asset)" unfolding address_owner_def by (rule read_keeps)
  have "keeps ?I (andThen (address_owner address asset) (\<lambda>userID. andThen (upsert_deposit userID asset amount tx confs) (\<lambda>status.
      if status = ''credited'' \<or> confs < ConfirmationsRequired then (\<lambda>w. (w, Inr False))
      else andThen (posting (Deposit userID asset amount (deposit_key tx))) (\<lambda>_.
           andThen (mark_credited tx asset) (\<lambda>_ w. (w, Inr True))))))"
    by (intro keeps_rules ow up ps mk)
  then show ?thesis by (auto simp: hoare_def HandleDeposit_def split: prod.splits sum.splits)
qed

lemma fresh_id_unpaid:
  assumes "wallet_inv keys outgoing w"
  shows "withdraw_key (wl_next_id w) \<notin> keys (wl_custody w)"
proof
  assume "withdraw_key (wl_next_id w) \<in> keys (wl_custody w)"
  then have "\<exists>out. paid_for w (wl_next_id w) out" using assms
    by (auto simp: wallet_inv_def list_all2_conv_all_nth in_set_conv_nth simp del: split_paired_Ex) metis
  with assms show False by (auto simp: paid_for_def wallet_inv_def rows_ok_def list_all_iff request_row_ok_def)
qed

lemma delete_withdrawal_keeps:
  "keeps (\<lambda>w. wallet_inv keys outgoing w \<and> withdraw_key i \<notin> keys (wl_custody w)) (delete_withdrawal i)"
proof (rule hoareI)
  fix w w' r assume w: "wallet_inv keys outgoing w \<and> withdraw_key i \<notin> keys (wl_custody w)" and d: "delete_withdrawal i w = (w', r)"
  let ?I = "\<lambda>w. wallet_inv keys outgoing w \<and> withdraw_key i \<notin> keys (wl_custody w)"
  have db: "?I (w\<lparr>wl_db := db\<rparr>)" if "same_tables (wl_db w) db" for db
    using w wallet_inv_same [OF _ that] by simp
  have "wallet_inv keys outgoing (w\<lparr>wl_withdrawals := filter (\<lambda>r. wd_ID r \<noteq> i) (wl_withdrawals w)\<rparr>)" if "?I w" for w
  proof (rule wallet_inv_keep [of keys outgoing w])
    show "wallet_inv keys outgoing w" using that by blast
    show "rows_ok (w\<lparr>wl_withdrawals := filter (\<lambda>r. wd_ID r \<noteq> i) (wl_withdrawals w)\<rparr>)"
      using that by (auto simp: wallet_inv_def rows_ok_def list_all_iff request_row_ok_def is_allowlisted_def distinct_map_filter)
    show "kept_row (w\<lparr>wl_withdrawals := filter (\<lambda>r. wd_ID r \<noteq> i) (wl_withdrawals w)\<rparr>) r"
      if "r \<in> set (wl_withdrawals w)" "withdraw_key (wd_ID r) \<in> keys (wl_custody w)" for r
      using that \<open>?I w\<close> by (auto simp: kept_row_def)
  qed (use that in \<open>auto simp: wallet_inv_def\<close>)
  then have del: "?I (w\<lparr>wl_withdrawals := filter (\<lambda>r. wd_ID r \<noteq> i) (wl_withdrawals w)\<rparr>)" if "?I w" for w using that by simp
  show "case r of Inl e \<Rightarrow> ?I w' | Inr x \<Rightarrow> ?I w'"
    using d unfolding delete_withdrawal_def by (cases rule: statement_cases) (use db del in \<open>fastforce split: sum.split\<close>)+
qed

lemma AddAllowlistAddress_keeps: "keeps (wallet_inv keys outgoing) (AddAllowlistAddress u a d l)"
  unfolding AddAllowlistAddress_def
proof (rule statement_hoare, rule hoareI)
  fix w w' r
  let ?row = "\<lparr>al_user = u, al_asset = a, al_address = d, al_label = l\<rparr>"
  assume w: "wallet_inv keys outgoing w" and f: "(if \<not> references u a w then (w, Inl ErrQuery)
     else if \<exists>r \<in> set (wl_allowlist w). al_user r = u \<and> al_asset r = a \<and> al_address r = d then (w, Inr ())
     else (w\<lparr>wl_allowlist := wl_allowlist w @ [?row]\<rparr>, Inr ())) = (w', r)"
  have "wallet_inv keys outgoing (w\<lparr>wl_allowlist := wl_allowlist w @ [?row]\<rparr>)"
  proof (rule wallet_inv_keep [OF w])
    show "rows_ok (w\<lparr>wl_allowlist := wl_allowlist w @ [?row]\<rparr>)"
      using w unfolding wallet_inv_def rows_ok_def list_all_iff request_row_ok_def is_allowlisted_def by fastforce
  qed (use w in \<open>auto simp: wallet_inv_def kept_row_def\<close>)
  with w f show "case r of Inl e \<Rightarrow> wallet_inv keys outgoing w' | Inr x \<Rightarrow> wallet_inv keys outgoing w'"
    by (auto split: if_splits)
qed simp

definition row_new :: "('c \<Rightarrow> string set) \<Rightarrow> Withdrawal \<Rightarrow> 'c wallet \<Rightarrow> bool" where
  "row_new keys r w \<longleftrightarrow> withdraw_key (wd_ID r) \<notin> keys (wl_custody w) \<and> in_int64 (wd_Amount r)"

lemma insert_withdrawal_hoare:
  assumes "0 < x" "x \<le> lim" "in_int64 x"
  shows "hoare (\<lambda>w. wallet_inv keys outgoing w \<and> wl_withdrawLimit w = lim \<and> is_allowlisted u a d w)
    (insert_withdrawal u a x d) (\<lambda>r w. wallet_inv keys outgoing w \<and> row_new keys r w) (wallet_inv keys outgoing)"
proof (rule hoareI)
  let ?P = "\<lambda>w. wallet_inv keys outgoing w \<and> wl_withdrawLimit w = lim \<and> is_allowlisted u a d w"
  let ?f = "\<lambda>w. let r = \<lparr>wd_ID = wl_next_id w, wd_UserID = u, wd_Asset = a, wd_Amount = x, wd_Address = d,
              wd_Status = ''requested'', wd_TxHash = []\<rparr>;
         w = w\<lparr>wl_next_id := wl_next_id w + 1\<rparr>
     in if \<not> references u a w \<or> x \<le> 0 then (w, Inl ErrQuery)
        else (w\<lparr>wl_withdrawals := wl_withdrawals w @ [r]\<rparr>, Inr r)"
  fix w w' r assume w: "?P w" and s: "insert_withdrawal u a x d w = (w', r)"
  have db: "?P (w\<lparr>wl_db := db\<rparr>)" if "same_tables (wl_db w) db" for db
    using w wallet_inv_same [OF _ that] by (simp add: is_allowlisted_def)
  have ins: "wallet_inv keys outgoing w1 \<and> (\<forall>r. r1 = Inr r \<longrightarrow> row_new keys r w1)" if "?P w" "?f w = (w1, r1)" for w w1 r1
  proof -
    let ?w1 = "w\<lparr>wl_next_id := wl_next_id w + 1\<rparr>"
    let ?r = "\<lparr>wd_ID = wl_next_id w, wd_UserID = u, wd_Asset = a, wd_Amount = x, wd_Address = d, wd_Status = ''requested'', wd_TxHash = []\<rparr>"
    have ok: "rows_ok w" using that(1) by (simp add: wallet_inv_def)
    then have o1: "rows_ok ?w1" "rows_ok (?w1\<lparr>wl_withdrawals := wl_withdrawals w @ [?r]\<rparr>)"
      using that(1) assms by (fastforce simp: rows_ok_def list_all_iff request_row_ok_def is_allowlisted_def)+
    have w: "wallet_inv keys outgoing w" and li: "ledger_inv (wl_db w)" using that(1) by (auto simp: wallet_inv_def)
    have "wallet_inv keys outgoing ?w1" "wallet_inv keys outgoing (?w1\<lparr>wl_withdrawals := wl_withdrawals w @ [?r]\<rparr>)"
      by (rule wallet_inv_keep [OF w], use li o1 in \<open>auto simp: kept_row_def\<close>)+
    moreover have "row_new keys ?r (?w1\<lparr>wl_withdrawals := wl_withdrawals w @ [?r]\<rparr>)"
      using fresh_id_unpaid [of keys outgoing w] that(1) assms(3) by (simp add: row_new_def)
    ultimately show ?thesis using that(2) by (auto simp: Let_def split: if_splits)
  qed
  show "case r of Inl e \<Rightarrow> wallet_inv keys outgoing w' | Inr x \<Rightarrow> wallet_inv keys outgoing w' \<and> row_new keys x w'"
    using s unfolding insert_withdrawal_def by (cases rule: statement_cases) (use db ins in \<open>fastforce split: sum.split\<close>)+
qed

lemma lock_withdrawal_hoare:
  "hoare (\<lambda>w. wallet_inv keys outgoing w \<and> row_new keys r w) (lock_withdrawal r) (\<lambda>_. wallet_inv keys outgoing) (wallet_inv keys outgoing)"
proof (rule hoareI)
  fix w w' res assume w: "wallet_inv keys outgoing w \<and> row_new keys r w" and s: "lock_withdrawal r w = (w', res)"
  let ?k = "wlock_key (wd_ID r)"
  obtain w1 r1 where p: "posting (Lock (wd_UserID r) (wd_Asset r) (wd_Amount r) ?k) w = (w1, r1)" by fastforce
  have c: "wl_custody w1 = wl_custody w" using p by (auto elim: posting_cases)
  have "in_int64 (wd_Amount r)" using w by (simp add: row_new_def)
  from hoareD [OF posting_movement(1) [OF this, of "\<lambda>_. True" keys outgoing] _ p] w have i1: "wallet_inv keys outgoing w1"
    by (auto split: sum.splits)
  have "withdraw_key (wd_ID r) \<notin> keys (wl_custody w1)" using w c by (simp add: row_new_def)
  with keepsD [OF delete_withdrawal_keeps, of keys outgoing w1 "wd_ID r"] i1
  have "wallet_inv keys outgoing (fst (delete_withdrawal (wd_ID r) w1))" by blast
  with i1 s show "case res of Inl e \<Rightarrow> wallet_inv keys outgoing w' | Inr x \<Rightarrow> wallet_inv keys outgoing w'"
    unfolding lock_withdrawal_def p prod.case by (cases r1) auto
qed

lemma RequestWithdrawal_keeps:
  assumes "in_int64 x"
  shows "keeps (wallet_inv keys outgoing) (RequestWithdrawal u a d x)"
proof (rule hoareI)
  fix w w' r assume w: "wallet_inv keys outgoing w" and s: "RequestWithdrawal u a d x w = (w', r)"
  let ?I = "wallet_inv keys outgoing"
  let ?rest = "andThen (statement (\<lambda>w. (w, Inr (is_allowlisted u a d w)))) (\<lambda>listed.
             if \<not> listed then (\<lambda>w. (w, Inl ErrNotAllowlisted)) else andThen (insert_withdrawal u a x d) lock_withdrawal)"
  have h: "hoare (\<lambda>w. ?I w \<and> wl_withdrawLimit w = lim) ?rest (\<lambda>_. ?I) ?I" if "0 < x" "x \<le> lim" for lim
  proof (rule hoare_andThen)
    show "hoare (\<lambda>w. ?I w \<and> wl_withdrawLimit w = lim) (statement (\<lambda>w. (w, Inr (is_allowlisted u a d w))))
      (\<lambda>b w. ?I w \<and> wl_withdrawLimit w = lim \<and> (b \<longrightarrow> is_allowlisted u a d w)) ?I"
    proof (rule hoareI)
      fix w w' r assume w: "?I w \<and> wl_withdrawLimit w = lim" and s: "statement (\<lambda>w. (w, Inr (is_allowlisted u a d w))) w = (w', r)"
      have "?I (w\<lparr>wl_db := db\<rparr>)" if "same_tables (wl_db w) db" for db
        using w wallet_inv_same [OF _ that] by simp
      with s w show "case r of Inl e \<Rightarrow> ?I w' | Inr b \<Rightarrow> ?I w' \<and> wl_withdrawLimit w' = lim \<and> (b \<longrightarrow> is_allowlisted u a d w')"
        by (elim statement_cases) auto
    qed
    show "hoare (\<lambda>w. ?I w \<and> wl_withdrawLimit w = lim \<and> (b \<longrightarrow> is_allowlisted u a d w))
      (if \<not> b then (\<lambda>w. (w, Inl ErrNotAllowlisted)) else andThen (insert_withdrawal u a x d) lock_withdrawal) (\<lambda>_. ?I) ?I" for b
      using that assms
      by (intro hoare_if hoare_raise hoare_andThen [OF hoare_weaken [OF insert_withdrawal_hoare [where lim = lim]] lock_withdrawal_hoare]) auto
  qed
  show "case r of Inl e \<Rightarrow> ?I w' | Inr x \<Rightarrow> ?I w'"
  proof (cases "x \<le> 0 \<or> wl_withdrawLimit w < x")
    case True
    then show ?thesis using s w by (auto simp: RequestWithdrawal_def split: if_splits)
  next
    case False
    then have "?rest w = (w', r)" using s by (simp add: RequestWithdrawal_def)
    from hoareD [OF h _ this] False w show ?thesis by auto
  qed
qed

context custody_provider
begin

lemma custody_keep:
  assumes "wallet_inv keys outgoing w" "keys c = keys (wl_custody w)" "outgoing c = outgoing (wl_custody w)"
  shows "wallet_inv keys outgoing (w\<lparr>wl_custody := c\<rparr>)"
  by (rule wallet_inv_keep [OF assms(1)])
    (use assms in \<open>auto simp: wallet_inv_def rows_ok_def list_all_iff request_row_ok_def is_allowlisted_def kept_row_def\<close>)

lemma broadcast_hoare:
  "hoare (\<lambda>w. wallet_inv keys outgoing w \<and> kept_row w r \<and> wsettle_key (wd_ID r) \<in> posted (wl_db w))
     (broadcast withdraw r) (\<lambda>_. wallet_inv keys outgoing) (wallet_inv keys outgoing)"
proof (rule hoareI)
  fix w w' res assume w: "wallet_inv keys outgoing w \<and> kept_row w r \<and> wsettle_key (wd_ID r) \<in> posted (wl_db w)"
    and b: "broadcast withdraw r w = (w', res)"
  obtain c x where wd: "withdraw (wd_Asset r) (wd_Address r) (wd_Amount r) (withdraw_key (wd_ID r)) (wl_custody w) = (c, x)" by fastforce
  have w': "w' = w\<lparr>wl_custody := c\<rparr>" using b wd by (simp add: broadcast_def)
  from withdraw_once [OF wd] have "wallet_inv keys outgoing (w\<lparr>wl_custody := c\<rparr>)"
  proof
    assume n: "withdraw_key (wd_ID r) \<notin> keys (wl_custody w) \<and> keys c = insert (withdraw_key (wd_ID r)) (keys (wl_custody w))
      \<and> outgoing c = outgoing (wl_custody w) @ [(wd_Asset r, wd_Address r, wd_Amount r)]"
    obtain ids where ids: "distinct ids" "keys (wl_custody w) = withdraw_key ` set ids" "list_all2 (paid_for w) ids (outgoing (wl_custody w))"
      using w by (auto simp: wallet_inv_def)
    have pf: "paid_for (w\<lparr>wl_custody := c\<rparr>) = paid_for w" by (simp add: paid_for_def fun_eq_iff)
    have "paid_for w (wd_ID r) (wd_Asset r, wd_Address r, wd_Amount r)" using w by (auto simp: paid_for_def kept_row_def)
    then have "list_all2 (paid_for w) (ids @ [wd_ID r]) (outgoing c)" using ids(3) n by (auto intro: list_all2_appendI)
    moreover have "keys c = withdraw_key ` set (ids @ [wd_ID r])" "distinct (ids @ [wd_ID r])" using n ids(1,2) by auto
    moreover have "ledger_inv (wl_db w)" "rows_ok (w\<lparr>wl_custody := c\<rparr>)"
      using w by (auto simp: wallet_inv_def rows_ok_def list_all_iff request_row_ok_def is_allowlisted_def)
    ultimately show ?thesis unfolding wallet_inv_def pf by (intro conjI exI [of _ "ids @ [wd_ID r]"]) simp_all
  qed (use w in \<open>blast intro: custody_keep\<close>)
  then show "case res of Inl e \<Rightarrow> wallet_inv keys outgoing w' | Inr x \<Rightarrow> wallet_inv keys outgoing w'"
    by (simp add: w' split: sum.split)
qed

lemma ApproveWithdrawal_keeps: "keeps (wallet_inv keys outgoing) (ApproveWithdrawal withdraw i)"
  unfolding ApproveWithdrawal_def
proof (rule hoare_andThen [OF lockRequested_hoare])
  let ?I = "wallet_inv keys outgoing"
  fix r
  show "hoare (\<lambda>w. ?I w \<and> wd_ID r = i \<and> kept_row w r \<and> request_row_ok w r) (approve_row withdraw r) (\<lambda>_. ?I) ?I"
  proof (cases "in_int64 (wd_Amount r)")
    case True
    let ?F = "\<lambda>w. kept_row w r"
    have F: "?F (w\<lparr>wl_db := db\<rparr>) = ?F w" for w db by (simp add: kept_row_def)
    have st: "hoare (\<lambda>w. ?I w \<and> ?F w) (posting (SettleWithdrawal (wd_UserID r) (wd_Asset r) (wd_Amount r) (wsettle_key (wd_ID r))))
      (\<lambda>_ w. ?I w \<and> kept_row w r \<and> wsettle_key (wd_ID r) \<in> posted (wl_db w)) ?I"
      by (rule posting_movement(4) [OF True]) (rule F)
    have "hoare (\<lambda>w. ?I w \<and> ?F w) (approve_row withdraw r) (\<lambda>_. ?I) ?I"
      unfolding approve_row_def
      by (rule hoare_andThen [OF st], rule hoare_andThen [OF broadcast_hoare], rule hoare_andThen [OF update_withdrawal_keeps])
        (auto intro: hoare_return)
    then show ?thesis by (rule hoare_weaken) auto
  qed (auto simp: hoare_def request_row_ok_def)
qed

lemma RejectWithdrawal_keeps: "keeps (wallet_inv keys outgoing) (RejectWithdrawal i)"
  unfolding RejectWithdrawal_def
proof (rule hoare_andThen [OF lockRequested_hoare])
  let ?I = "wallet_inv keys outgoing"
  fix r
  show "hoare (\<lambda>w. ?I w \<and> wd_ID r = i \<and> kept_row w r \<and> request_row_ok w r) (reject_row r) (\<lambda>_. ?I) ?I"
  proof (cases "in_int64 (wd_Amount r)")
    case True
    have un: "keeps ?I (posting (Unlock u a (wd_Amount r) k))" for u a k
      using posting_movement(2) [OF True, of "\<lambda>_. True" keys outgoing u a k] by (auto elim: hoare_weaken)
    have "keeps ?I (reject_row r)" unfolding reject_row_def
      by (intro keeps_rules un update_withdrawal_keeps) auto
    then show ?thesis by (rule hoare_weaken) auto
  qed (auto simp: hoare_def request_row_ok_def)
qed

lemma DepositAddress_inv:
  assumes w: "wallet_inv keys outgoing w" and d: "DepositAddress new_address rival u a w = (w', addr, err)"
  shows "wallet_inv keys outgoing w'"
proof -
  let ?I = "wallet_inv keys outgoing"
  have ks: "keeps ?I (select_address u a)" unfolding select_address_def by (rule read_keeps)
  have sel: "?I w1" if "select_address u a w0 = (w1, r)" "?I w0" for w0 w1 r using keepsD [OF ks that(2)] that(1) by simp
  have ki: "keeps ?I (statement (insert_address_row u a x))" for x by (rule statement_hoare [OF insert_address_row_keeps])
  have ins: "?I w1" if "statement (insert_address_row u a x) w0 = (w1, r)" "?I w0" for w0 w1 r x using keepsD [OF ki [of x] that(2)] that(1) by simp
  have riv: "?I (case rival of None \<Rightarrow> w0 | Some x \<Rightarrow> fst (insert_address_row u a x w0))" if "?I w0" for w0
    using keepsD [OF insert_address_row_keeps that] that by (auto split: option.split)
  obtain w1 r1 where 1: "select_address u a w = (w1, r1)" by fastforce
  note i1 = sel [OF 1 w]
  show ?thesis
  proof (cases "r1 = Inr None")
    case True
    obtain c r2 where 2: "new_address a (''user:'' @ fmt_d u) (wl_custody w1) = (c, r2)" by fastforce
    have i2: "?I (w1\<lparr>wl_custody := c\<rparr>)" using address_quiet [OF 2] custody_keep [OF i1] by blast
    show ?thesis
    proof (cases r2)
      case (Inl e)
      then show ?thesis using d i2 unfolding DepositAddress_def 1 True prod.case sum.case option.case 2 by simp
    next
      case (Inr x)
      let ?w2 = "case rival of None \<Rightarrow> w1\<lparr>wl_custody := c\<rparr> | Some x \<Rightarrow> fst (insert_address_row u a x (w1\<lparr>wl_custody := c\<rparr>))"
      obtain w3 r3 where 3: "statement (insert_address_row u a x) ?w2 = (w3, r3)" by fastforce
      obtain w4 r4 where 4: "select_address u a w3 = (w4, r4)" by fastforce
      have "?I w3" by (rule ins [OF 3 riv [OF i2]])
      with sel [OF 4] have "?I w3" "?I w4" by simp_all
      then show ?thesis using d unfolding DepositAddress_def 1 True prod.case sum.case option.case 2 Inr Let_def 3 4
        by (auto split: sum.splits option.splits if_splits)
    qed
  qed (use d 1 i1 in \<open>auto simp: DepositAddress_def split: sum.splits option.splits\<close>)
qed

end

end
