(* ===== verification/WalletProps.thy ===== *)
theory WalletProps
  imports WalletInv
begin

text \<open>
  Sequences of wallet operations and the properties of the wallet.
\<close>

section \<open>Requests to the wallet\<close>

datatype wallet_op =
    WAddress "string option" int64 string
  | WDeposit string string string int64 int
  | WAllow int64 string string string
  | WRequest int64 string string int64
  | WApprove int64
  | WReject int64
  | WLedger ledger_op
  | WReport int64

fun wallet_op_ok :: "wallet_op \<Rightarrow> bool" where
  "wallet_op_ok (WDeposit a d tx x n) \<longleftrightarrow> in_int64 x"
| "wallet_op_ok (WRequest u a d x) \<longleftrightarrow> in_int64 x"
| "wallet_op_ok (WLedger op) \<longleftrightarrow> op_ok op"
| "wallet_op_ok _ \<longleftrightarrow> True"

fun wallet_exec :: "(string \<Rightarrow> string \<Rightarrow> 'c \<Rightarrow> 'c \<times> (string + string)) \<Rightarrow>
    (string \<Rightarrow> string \<Rightarrow> int64 \<Rightarrow> string \<Rightarrow> 'c \<Rightarrow> 'c \<times> (string + string)) \<Rightarrow> wallet_op \<Rightarrow> 'c wallet \<Rightarrow> 'c wallet" where
  "wallet_exec na wd (WAddress rival u a) w = fst (DepositAddress na rival u a w)"
| "wallet_exec na wd (WDeposit a d tx x n) w = fst (HandleDeposit a d tx x n w)"
| "wallet_exec na wd (WAllow u a d l) w = fst (AddAllowlistAddress u a d l w)"
| "wallet_exec na wd (WRequest u a d x) w = fst (RequestWithdrawal u a d x w)"
| "wallet_exec na wd (WApprove i) w = fst (ApproveWithdrawal wd i w)"
| "wallet_exec na wd (WReject i) w = fst (RejectWithdrawal i w)"
| "wallet_exec na wd (WLedger op) w = fst (posting (ledger_exec op) w)"
| "wallet_exec na wd (WReport u) w = fst (PendingWithdrawals (fst (UserWithdrawals u (fst (Allowlist u w)))))"

fun wallet_run :: "(string \<Rightarrow> string \<Rightarrow> 'c \<Rightarrow> 'c \<times> (string + string)) \<Rightarrow>
    (string \<Rightarrow> string \<Rightarrow> int64 \<Rightarrow> string \<Rightarrow> 'c \<Rightarrow> 'c \<times> (string + string)) \<Rightarrow> wallet_op list \<Rightarrow> 'c wallet \<Rightarrow> 'c wallet" where
  "wallet_run na wd [] w = w"
| "wallet_run na wd (x # xs) w = wallet_run na wd xs (wallet_exec na wd x w)"

text \<open>A wallet on empty tables: \<open>New\<close> with its pool, provider and limit.\<close>

definition New_wallet :: "ledger_db \<Rightarrow> 'c \<Rightarrow> int64 \<Rightarrow> 'c wallet" where
  "New_wallet db c limit = \<lparr>wl_db = db, wl_addresses = [], wl_deposits = [], wl_allowlist = [], wl_withdrawals = [],
     wl_next_id = 1, wl_custody = c, wl_withdrawLimit = limit\<rparr>"

context custody_provider
begin

lemma wallet_exec_inv:
  assumes "wallet_inv keys outgoing w" "wallet_op_ok x"
  shows "wallet_inv keys outgoing (wallet_exec new_address withdraw x w)"
proof (cases x)
  case (WAddress rival u a)
  then show ?thesis using DepositAddress_inv [OF assms(1)] by (cases "DepositAddress new_address rival u a w") simp
next
  case (WLedger op)
  have "keeps (wallet_inv keys outgoing) (posting (ledger_exec op))"
    using posting_hoare [of op "\<lambda>_. True" keys outgoing] assms(2) WLedger by (auto elim: hoare_weaken)
  from keepsD [OF this assms(1)] show ?thesis using WLedger by simp
next
  case (WReport u)
  have "keeps (wallet_inv keys outgoing) (Allowlist u)" "keeps (wallet_inv keys outgoing) (UserWithdrawals u)"
    "keeps (wallet_inv keys outgoing) PendingWithdrawals"
    by (simp_all add: Allowlist_def UserWithdrawals_def PendingWithdrawals_def read_keeps)
  then show ?thesis using assms(1) by (simp add: WReport keepsD)
qed (use assms in \<open>simp_all add: keepsD HandleDeposit_keeps AddAllowlistAddress_keeps RequestWithdrawal_keeps
  ApproveWithdrawal_keeps RejectWithdrawal_keeps\<close>)

lemma wallet_run_inv:
  "wallet_inv keys outgoing w \<Longrightarrow> list_all wallet_op_ok xs \<Longrightarrow> wallet_inv keys outgoing (wallet_run new_address withdraw xs w)"
  by (induction xs arbitrary: w) (simp_all add: wallet_exec_inv)

lemma New_wallet_inv:
  assumes "ledger_inv db" "keys c = {}" "outgoing c = []" "in_int64 limit"
  shows "wallet_inv keys outgoing (New_wallet db c limit)"
  using assms by (auto simp: wallet_inv_def New_wallet_def rows_ok_def)

text \<open>Every transfer the provider was made to send.\<close>

lemma outgoing_paid:
  assumes "wallet_inv keys outgoing w"
  shows "\<exists>ids. distinct ids \<and> list_all2 (\<lambda>i (a, d, x). wsettle_key i \<in> posted (wl_db w) \<and> 0 < x \<and> x \<le> wl_withdrawLimit w
    \<and> (\<exists>r \<in> set (wl_withdrawals w). wd_ID r = i \<and> wd_Asset r = a \<and> wd_Address r = d \<and> wd_Amount r = x
          \<and> is_allowlisted (wd_UserID r) a d w)) ids (outgoing (wl_custody w))"
proof -
  obtain ids where ids: "distinct ids" "list_all2 (paid_for w) ids (outgoing (wl_custody w))" using assms by (auto simp: wallet_inv_def)
  have rows: "\<forall>r \<in> set (wl_withdrawals w). request_row_ok w r" using assms by (auto simp: wallet_inv_def rows_ok_def list_all_iff)
  have "list_all2 (\<lambda>i (a, d, x). wsettle_key i \<in> posted (wl_db w) \<and> 0 < x \<and> x \<le> wl_withdrawLimit w
    \<and> (\<exists>r \<in> set (wl_withdrawals w). wd_ID r = i \<and> wd_Asset r = a \<and> wd_Address r = d \<and> wd_Amount r = x
          \<and> is_allowlisted (wd_UserID r) a d w)) ids (outgoing (wl_custody w))"
    using ids(2) by (rule list_all2_mono) (use rows in \<open>auto simp: paid_for_def request_row_ok_def\<close>)
  with ids(1) show ?thesis by blast
qed

end

section \<open>Properties of the wallet\<close>

text \<open>C6: Nothing leaves custody unaccounted. Whatever deposits, allowlist changes, withdrawal requests,
  approvals, rejections and ledger movements are made, in any order and with any database or custody
  failures in between: every transfer the custody provider broadcast belongs to a different
  withdrawal request, with the asset, address and amount of the request, to an address on that user's
  allowlist, within the withdrawal limit, and its settlement was posted in the ledger.\<close>

theorem outgoing_authorised:
  assumes "ledger_inv db" "in_int64 limit" "list_all wallet_op_ok xs"
    and w: "w = wallet_run Mock_NewAddress Mock_Withdraw xs (New_wallet db (NewMock rnd) limit)"
  shows "\<exists>ids. distinct ids \<and> list_all2 (\<lambda>i b. wsettle_key i \<in> posted (wl_db w) \<and> 0 < bc_Amount b \<and> bc_Amount b \<le> wl_withdrawLimit w
    \<and> (\<exists>r \<in> set (wl_withdrawals w). wd_ID r = i \<and> wd_Asset r = bc_Asset b \<and> wd_Address r = bc_Address b \<and> wd_Amount r = bc_Amount b
          \<and> is_allowlisted (wd_UserID r) (bc_Asset b) (bc_Address b) w)) ids (mk_Broadcasts (wl_custody w))"
proof -
  have "mock_keys (NewMock rnd) = {}" "mock_outgoing (NewMock rnd) = []" by (simp_all add: mock_keys_def mock_outgoing_def NewMock_def)
  then have "wallet_inv mock_keys mock_outgoing w"
    unfolding w using assms(1-3) by (intro mock.wallet_run_inv mock.New_wallet_inv)
  from mock.outgoing_paid [OF this] show ?thesis
    by (simp add: mock_outgoing_def list.rel_map split_def)
qed

definition demo_wallet :: "Mock wallet" where
  "demo_wallet = New_wallet (empty_ledger [1, 2] [''BTC'', ''USDT''] []) (NewMock [Some ''ab'', Some ''cd'', None, Some ''ef'', Some ''gh'']) 100"

definition demo_payout :: "wallet_op list" where
  "demo_payout = [WAddress None 1 ''BTC'', WDeposit ''BTC'' ''BTC_6162'' ''t1'' 10 3, WAllow 1 ''BTC'' ''cold'' ''vault'',
     WRequest 1 ''BTC'' ''cold'' 4, WRequest 1 ''BTC'' ''cold'' 3, WApprove 1, WReject 2]"

definition demo_paid :: "Mock wallet" where
  "demo_paid = wallet_run Mock_NewAddress Mock_Withdraw demo_payout demo_wallet"

theorem outgoing_authorised_witness:
  "map (\<lambda>b. (bc_Address b, bc_Amount b)) (mk_Broadcasts (wl_custody demo_paid)) = [(''cold'', 4)]
   \<and> (\<exists>i. wsettle_key i \<in> posted (wl_db demo_paid))"
proof -
  have l: "in_int64 100" and ok: "list_all wallet_op_ok demo_payout" by code_simp+
  have b: "map (\<lambda>b. (bc_Address b, bc_Amount b)) (mk_Broadcasts (wl_custody demo_paid)) = [(''cold'', 4)]" by code_simp
  then have n: "mk_Broadcasts (wl_custody demo_paid) \<noteq> []" by auto
  from outgoing_authorised [OF empty_ledger_inv l ok demo_paid_def [unfolded demo_wallet_def]] obtain ids where
    i: "list_all2 (\<lambda>i b. wsettle_key i \<in> posted (wl_db demo_paid) \<and> 0 < bc_Amount b \<and> bc_Amount b \<le> wl_withdrawLimit demo_paid
    \<and> (\<exists>r \<in> set (wl_withdrawals demo_paid). wd_ID r = i \<and> wd_Asset r = bc_Asset b \<and> wd_Address r = bc_Address b \<and> wd_Amount r = bc_Amount b
          \<and> is_allowlisted (wd_UserID r) (bc_Asset b) (bc_Address b) demo_paid)) ids (mk_Broadcasts (wl_custody demo_paid))" by blast
  have "\<exists>i. wsettle_key i \<in> posted (wl_db demo_paid)"
    using i n by (cases "mk_Broadcasts (wl_custody demo_paid)") (auto simp: list_all2_Cons2)
  with b show ?thesis by blast
qed

section \<open>Deposits are credited once\<close>

text \<open>The confirmation webhooks for one deposit, in order, with what each answered.\<close>

fun webhooks :: "string \<Rightarrow> string \<Rightarrow> string \<Rightarrow> int64 \<Rightarrow> int list \<Rightarrow> 'c wallet \<Rightarrow> 'c wallet \<times> (wallet_error + bool) list" where
  "webhooks a d tx x [] w = (w, [])"
| "webhooks a d tx x (n # ns) w = (case HandleDeposit a d tx x n w of (w, r) \<Rightarrow>
     (case webhooks a d tx x ns w of (w, rs) \<Rightarrow> (w, r # rs)))"

definition owner_is :: "string \<Rightarrow> string \<Rightarrow> int64 \<Rightarrow> 'c wallet \<Rightarrow> bool" where
  "owner_is a d u w \<longleftrightarrow> map_option da_user (find (\<lambda>r. da_address r = d \<and> da_asset r = a) (wl_addresses w)) = Some u"

definition is_credited :: "string \<Rightarrow> string \<Rightarrow> 'c wallet \<Rightarrow> bool" where
  "is_credited a tx w \<longleftrightarrow> (\<exists>r \<in> set (wl_deposits w). dp_tx_hash r = tx \<and> dp_asset r = a \<and> dp_status r = ''credited'')"

text \<open>Between two steps of the webhooks: nothing yet, or one credit; a row marked credited was.\<close>

definition crediting :: "string \<Rightarrow> string \<Rightarrow> string \<Rightarrow> int64 \<Rightarrow> int64 \<Rightarrow> lview \<Rightarrow> bool \<Rightarrow> 'c wallet \<Rightarrow> bool" where
  "crediting a d tx x u v0 done_once w \<longleftrightarrow> ledger_inv (wl_db w) \<and> owner_is a d u w
     \<and> (let ap = applied (deposit_key tx) (deposit_moves u a x) v0 (view (wl_db w))
        in (view (wl_db w) = v0 \<or> ap) \<and> (is_credited a tx w \<or> done_once \<longrightarrow> ap))"

lemma crediting_same:
  "crediting a d tx x u v0 b w \<Longrightarrow> same_tables (wl_db w) db \<Longrightarrow> crediting a d tx x u v0 b (w\<lparr>wl_db := db\<rparr>)"
  by (simp add: crediting_def owner_is_def is_credited_def view_same same_tables_inv(2))

lemma crediting_statement:
  assumes "hoare (crediting a d tx x u v0 b) f Q (crediting a d tx x u v0 b)"
    and "\<And>s y. Q y s \<Longrightarrow> crediting a d tx x u v0 b s"
  shows "hoare (crediting a d tx x u v0 b) (statement f) Q (crediting a d tx x u v0 b)"
proof (rule hoareI)
  fix w w' r assume w: "crediting a d tx x u v0 b w" and st: "statement f w = (w', r)"
  note db = crediting_same [OF w]
  from st show "case r of Inl e \<Rightarrow> crediting a d tx x u v0 b w' | Inr y \<Rightarrow> Q y w'"
  proof (cases rule: statement_cases)
    case (run db)
    from hoareD [OF assms(1) db [OF run(1)] run(2)] show ?thesis .
  next
    case (lost db r')
    with hoareD [OF assms(1) db [OF lost(1)] lost(2)] assms(2) show ?thesis by (cases r') auto
  qed (use db in simp)
qed

lemma upsert_deposit_crediting:
  "hoare (crediting a d tx x u v0 b) (upsert_deposit u' a x tx n)
     (\<lambda>st w. crediting a d tx x u v0 b w \<and> (st = ''credited'' \<longrightarrow> is_credited a tx w)) (crediting a d tx x u v0 b)"
  unfolding upsert_deposit_def
proof (rule crediting_statement, rule hoareI)
  fix w w' r
  let ?g = "\<lambda>r :: deposit_row. if dp_tx_hash r = tx \<and> dp_asset r = a then r\<lparr>dp_confirmations := max (dp_confirmations r) n\<rparr> else r"
  assume w: "crediting a d tx x u v0 b w"
    and f: "(if \<not> references u' a w \<or> n < - (2 ^ 31) \<or> 2 ^ 31 \<le> n then (w, Inl ErrQuery)
     else (case find (\<lambda>r. dp_tx_hash r = tx \<and> dp_asset r = a) (wl_deposits w) of
             Some r \<Rightarrow> (w\<lparr>wl_deposits := map ?g (wl_deposits w)\<rparr>, Inr (dp_status r))
           | None \<Rightarrow> (w\<lparr>wl_deposits := wl_deposits w @ [\<lparr>dp_user = u', dp_asset = a, dp_amount = x,
                         dp_tx_hash = tx, dp_confirmations = n, dp_status = ''pending''\<rparr>]\<rparr>, Inr ''pending''))) = (w', r)"
  have g: "is_credited a tx (w\<lparr>wl_deposits := map ?g (wl_deposits w)\<rparr>) = is_credited a tx w"
  proof -
    have "(dp_tx_hash (?g r) = tx \<and> dp_asset (?g r) = a \<and> dp_status (?g r) = ''credited'')
        = (dp_tx_hash r = tx \<and> dp_asset r = a \<and> dp_status r = ''credited'')" for r :: deposit_row by simp
    moreover have "set (wl_deposits (w\<lparr>wl_deposits := map ?g (wl_deposits w)\<rparr>)) = ?g ` set (wl_deposits w)" by simp
    ultimately show ?thesis by (simp only: is_credited_def bex_simps(7))
  qed
  show "case r of Inl e \<Rightarrow> crediting a d tx x u v0 b w'
    | Inr st \<Rightarrow> crediting a d tx x u v0 b w' \<and> (st = ''credited'' \<longrightarrow> is_credited a tx w')"
  proof (cases "find (\<lambda>r. dp_tx_hash r = tx \<and> dp_asset r = a) (wl_deposits w)")
    case None
    then show ?thesis using w f by (auto simp: crediting_def owner_is_def is_credited_def split: if_splits)
  next
    case (Some row)
    then have row: "row \<in> set (wl_deposits w)" "dp_tx_hash row = tx" "dp_asset row = a" by (auto simp: find_Some_iff)
    have "crediting a d tx x u v0 b (w\<lparr>wl_deposits := map ?g (wl_deposits w)\<rparr>)"
      using w g by (simp add: crediting_def owner_is_def)
    moreover have "is_credited a tx (w\<lparr>wl_deposits := map ?g (wl_deposits w)\<rparr>)" if "dp_status row = ''credited''"
      unfolding g using that row by (auto simp: is_credited_def)
    ultimately show ?thesis using f w Some by (auto split: if_splits)
  qed
qed auto

lemma credit_posting:
  assumes "in_int64 x" "deposit_key tx \<notin> fst v0"
  shows "hoare (crediting a d tx x u v0 b) (posting (Deposit u a x (deposit_key tx)))
    (\<lambda>_. crediting a d tx x u v0 True) (crediting a d tx x u v0 b)"
proof (rule hoareI)
  fix w w' r assume w: "crediting a d tx x u v0 b w" and p: "posting (Deposit u a x (deposit_key tx)) w = (w', r)"
  let ?k = "deposit_key tx" and ?ms = "deposit_moves u a x"
  from p show "case r of Inl e \<Rightarrow> crediting a d tx x u v0 b w' | Inr y \<Rightarrow> crediting a d tx x u v0 True w'"
  proof (cases rule: posting_cases)
    case (1 db r')
    have eff: "ledger_inv db" "post_effect ?k ?ms (view (wl_db w)) (view db) r'"
      using lg.deposit_effect [OF _ assms(1) 1(1)] w by (auto simp: crediting_def)
    have "view (wl_db w) = v0 \<or> applied ?k ?ms v0 (view (wl_db w))" using w by (simp add: crediting_def Let_def)
    note again = post_again [OF this eff(2) assms(2)]
    have mono: "applied ?k ?ms v0 (view db)" if ap: "applied ?k ?ms v0 (view (wl_db w))"
    proof -
      have "?k \<in> fst (view (wl_db w))" using ap by (simp add: applied_def)
      then have "view db = view (wl_db w)" using eff(2) by (auto simp: post_effect_def applied_def split: sum.splits)
      with ap show ?thesis by simp
    qed
    from again mono w eff(1) 1 show ?thesis
      by (cases r') (auto simp: crediting_def owner_is_def is_credited_def Let_def)
  qed
qed

lemma crediting_mono: "crediting a d tx x u v0 True w \<Longrightarrow> crediting a d tx x u v0 b w"
  by (auto simp: crediting_def Let_def)

lemma mark_crediting: "hoare (crediting a d tx x u v0 True) (mark_credited tx a) (\<lambda>_. crediting a d tx x u v0 True) (crediting a d tx x u v0 b)"
proof -
  have "keeps (crediting a d tx x u v0 True) (mark_credited tx a)" unfolding mark_credited_def
    by (rule crediting_statement, rule hoareI) (auto simp: crediting_def owner_is_def Let_def)
  then show ?thesis by (rule hoare_weaken) (auto dest: crediting_mono [where b = b])
qed

lemma owner_crediting:
  "hoare (crediting a d tx x u v0 b) (address_owner d a) (\<lambda>u' w. crediting a d tx x u v0 b w \<and> u' = u) (crediting a d tx x u v0 b)"
  unfolding address_owner_def
  by (rule crediting_statement, rule hoareI) (auto simp: crediting_def owner_is_def split: option.splits)

lemma HandleDeposit_crediting:
  assumes x: "in_int64 x" and k: "deposit_key tx \<notin> fst v0"
  shows "hoare (crediting a d tx x u v0 b) (HandleDeposit a d tx x n)
    (\<lambda>c w. crediting a d tx x u v0 (b \<or> c) w) (crediting a d tx x u v0 b)"
proof -
  let ?C = "crediting a d tx x u v0"
  have rest: "hoare (\<lambda>w. ?C b w \<and> u' = u) (andThen (upsert_deposit u' a x tx n) (\<lambda>status.
      if status = ''credited'' \<or> n < ConfirmationsRequired then (\<lambda>w. (w, Inr False))
      else andThen (posting (Deposit u' a x (deposit_key tx))) (\<lambda>_.
           andThen (mark_credited tx a) (\<lambda>_ w. (w, Inr True))))) (\<lambda>c. ?C (b \<or> c)) (?C b)" for u'
  proof (cases "u' = u")
    case True
    have "hoare (?C b) (andThen (posting (Deposit u a x (deposit_key tx))) (\<lambda>_. andThen (mark_credited tx a) (\<lambda>_ w. (w, Inr True))))
       (\<lambda>c. ?C (b \<or> c)) (?C b)"
      by (rule hoare_andThen [OF credit_posting [OF x k]], rule hoare_andThen [OF mark_crediting], rule hoare_return) simp
    then have c: "hoare (\<lambda>w. ?C b w \<and> Z w) (andThen (posting (Deposit u a x (deposit_key tx))) (\<lambda>_. andThen (mark_credited tx a) (\<lambda>_ w. (w, Inr True))))
       (\<lambda>c. ?C (b \<or> c)) (?C b)" for Z by (rule hoare_weaken) auto
    have "hoare (?C b) (andThen (upsert_deposit u a x tx n) (\<lambda>status.
      if status = ''credited'' \<or> n < ConfirmationsRequired then (\<lambda>w. (w, Inr False))
      else andThen (posting (Deposit u a x (deposit_key tx))) (\<lambda>_.
           andThen (mark_credited tx a) (\<lambda>_ w. (w, Inr True))))) (\<lambda>c. ?C (b \<or> c)) (?C b)"
      by (rule hoare_andThen [OF upsert_deposit_crediting], rule hoare_if, rule hoare_return, simp, rule c)
    then show ?thesis unfolding True by (rule hoare_weaken) auto
  qed (simp add: hoare_def)
  show ?thesis
  proof (cases "x \<le> 0")
    case True
    then show ?thesis by (auto simp: hoare_def HandleDeposit_def)
  next
    case False
    then show ?thesis using hoare_andThen [OF owner_crediting rest] by (simp add: hoare_def HandleDeposit_def)
  qed
qed

lemma webhooks_crediting:
  assumes "in_int64 x" "deposit_key tx \<notin> fst v0" "crediting a d tx x u v0 b w" "webhooks a d tx x ns w = (w', rs)"
  shows "crediting a d tx x u v0 (b \<or> Inr True \<in> set rs) w'"
  using assms(3,4)
proof (induction ns arbitrary: w b rs)
  case (Cons n ns)
  obtain w1 r where 1: "HandleDeposit a d tx x n w = (w1, r)" by fastforce
  obtain rs' where 2: "webhooks a d tx x ns w1 = (w', rs')" "rs = r # rs'" using Cons.prems(2) 1 by (auto split: prod.splits)
  have "crediting a d tx x u v0 (b \<or> r = Inr True) w1"
    using hoareD [OF HandleDeposit_crediting [OF assms(1,2)] Cons.prems(1) 1] by (cases r) auto
  from Cons.IH [OF this 2(1)] show ?case by (simp add: 2(2) disj_ac eq_commute)
qed simp

lemma few_confirmations:
  assumes "n < 3" "HandleDeposit a d tx x n w = (w', r)"
  shows "view (wl_db w') = view (wl_db w)"
proof -
  let ?P = "\<lambda>w'. view (wl_db w') = view (wl_db w)"
  have st: "keeps ?P (statement f)" if "\<And>w. wl_db (fst (f w)) = wl_db w" for f :: "'c wallet \<Rightarrow> 'c wallet \<times> (wallet_error + 'b)"
  proof (rule hoareI)
    fix w1 w2 r assume p: "?P w1" and s: "statement f w1 = (w2, r)"
    have "wl_db w2 = wl_db w3" if "f w3 = (w2, r')" for w3 r' using \<open>\<And>w. wl_db (fst (f w)) = wl_db w\<close> [of w3] that by simp
    with s p view_same show "case r of Inl e \<Rightarrow> ?P w2 | Inr x \<Rightarrow> ?P w2" by (elim statement_cases) (force split: sum.split)+
  qed
  have up: "keeps ?P (upsert_deposit u a x tx n)" for u unfolding upsert_deposit_def by (rule st) (simp split: option.split)
  have ow: "keeps ?P (address_owner d a)" unfolding address_owner_def by (rule st) simp
  have "keeps ?P (andThen (address_owner d a) (\<lambda>u. andThen (upsert_deposit u a x tx n) (\<lambda>_ w. (w, Inr False))))"
    by (intro keeps_rules up ow)
  from keepsD [OF this refl] assms show ?thesis by (auto simp: HandleDeposit_def ConfirmationsRequired_def split: if_splits)
qed


definition demo_flaky_wallet :: "Mock wallet" where
  "demo_flaky_wallet = (let w = fst (DepositAddress Mock_NewAddress None 1 ''BTC'' demo_wallet)
     in w\<lparr>wl_db := (wl_db w)\<lparr>db_sched := [DbOk, DbOk, DbOk, DbOk, DbOk, DbOk, DbOk, DbOk, DbOk, DbOk, DbOk, DbOk, DbAckLost]\<rparr>\<rparr>)"


section \<open>Requesting a withdrawal\<close>

text \<open>What a statement that does not touch the ledger leaves as it was.\<close>

lemma statement_result:
  assumes "statement f w = (w', Inr y)"
  obtains db where "same_tables (wl_db w) db" "f (w\<lparr>wl_db := db\<rparr>) = (w', Inr y)"
  using assms by (cases rule: statement_cases) auto

text \<open>A withdrawal request that is accepted was authorised and is funded. When
  \<open>RequestWithdrawal\<close> returns a withdrawal, with whatever failures on the way, the amount is positive
  and within the limit, the destination is on the user's allowlist, the row is stored as requested,
  and exactly the amount has moved from the user's free to the locked balance.\<close>

theorem RequestWithdrawal_effect:
  assumes inv: "ledger_inv (wl_db w)" and x: "in_int64 x"
    and r: "RequestWithdrawal u a d x w = (w', Inr row)" and k: "wlock_key (wl_next_id w) \<notin> posted (wl_db w)"
  shows "0 < x \<and> x \<le> wl_withdrawLimit w \<and> is_allowlisted u a d w
    \<and> row = \<lparr>wd_ID = wl_next_id w, wd_UserID = u, wd_Asset = a, wd_Amount = x, wd_Address = d, wd_Status = ''requested'', wd_TxHash = []\<rparr>
    \<and> wl_withdrawals w' = wl_withdrawals w @ [row]
    \<and> applied (wlock_key (wl_next_id w)) (transfer_moves u a KindMain KindLocked x) (view (wl_db w)) (view (wl_db w'))"
proof -
  have x0: "0 < x" "x \<le> wl_withdrawLimit w"
    and run: "andThen (statement (\<lambda>w. (w, Inr (is_allowlisted u a d w)))) (\<lambda>listed.
             if \<not> listed then (\<lambda>w. (w, Inl ErrNotAllowlisted)) else andThen (insert_withdrawal u a x d) lock_withdrawal) w = (w', Inr row)"
    using r by (auto simp: RequestWithdrawal_def split: if_splits)
  from run obtain w1 b where 1: "statement (\<lambda>w. (w, Inr (is_allowlisted u a d w))) w = (w1, Inr b)"
    and run1: "(if \<not> b then (\<lambda>w. (w, Inl ErrNotAllowlisted)) else andThen (insert_withdrawal u a x d) lock_withdrawal) w1 = (w', Inr row)"
    by (rule andThen_cases) auto
  have b: b and run2: "andThen (insert_withdrawal u a x d) lock_withdrawal w1 = (w', Inr row)" using run1 by (auto split: if_splits)
  from 1 obtain db1 where w1: "same_tables (wl_db w) db1" "w1 = w\<lparr>wl_db := db1\<rparr>" and al: "is_allowlisted u a d w"
    by (rule statement_result) (use b in \<open>auto simp: is_allowlisted_def\<close>)
  from run2 obtain w2 row2 where 2: "insert_withdrawal u a x d w1 = (w2, Inr row2)" and 3: "lock_withdrawal row2 w2 = (w', Inr row)"
    by (rule andThen_cases) auto
  let ?row = "\<lparr>wd_ID = wl_next_id w, wd_UserID = u, wd_Asset = a, wd_Amount = x, wd_Address = d, wd_Status = ''requested'', wd_TxHash = []\<rparr>"
  from 2 [unfolded insert_withdrawal_def] obtain db2 where w2: "same_tables db1 db2" "row2 = ?row"
      "wl_db w2 = db2" "wl_withdrawals w2 = wl_withdrawals w @ [?row]"
    by (rule statement_result) (auto simp: w1(2) Let_def split: if_splits)
  obtain w3 r3 where 4: "posting (Lock u a x (wlock_key (wl_next_id w))) w2 = (w3, r3)" by fastforce
  then obtain db3 r3' where p: "Lock u a x (wlock_key (wl_next_id w)) db2 = (db3, r3')" "w3 = w2\<lparr>wl_db := db3\<rparr>"
      "r3 = map_sum ErrPosting (\<lambda>u. u) r3'" by (rule posting_cases) (simp add: w2(3))
  have f: "row = ?row" "w' = w3" "r3' = Inr ()" using 3 4 p(3) by (auto simp: lock_withdrawal_def w2(2) split: sum.splits) (cases r3', simp_all)
  note st = same_tables_trans [OF w1(1) w2(1)]
  have "post_effect (wlock_key (wl_next_id w)) (transfer_moves u a KindMain KindLocked x) (view db2) (view db3) (Inr ())"
    using lg.lock_effect [OF same_tables_inv(2) [OF st inv] x p(1)] f(3) by simp
  then have "applied (wlock_key (wl_next_id w)) (transfer_moves u a KindMain KindLocked x) (view (wl_db w)) (view db3)"
    using k view_same [OF st] by (simp add: post_effect_def view_def)
  with x0 al f w2(4) p(2) show ?thesis by simp
qed

theorem RequestWithdrawal_effect_witness:
  "\<exists>(w :: Mock wallet) w'. RequestWithdrawal 1 ''BTC'' ''cold'' 4 w = (w', Inr \<lparr>wd_ID = 1, wd_UserID = 1, wd_Asset = ''BTC'', wd_Amount = 4,
       wd_Address = ''cold'', wd_Status = ''requested'', wd_TxHash = []\<rparr>)
    \<and> applied (wlock_key 1) (transfer_moves 1 ''BTC'' KindMain KindLocked 4) (view (wl_db w)) (view (wl_db w'))"
proof -
  let ?ops = "take 3 demo_payout" and ?row = "\<lparr>wd_ID = 1, wd_UserID = 1, wd_Asset = ''BTC'', wd_Amount = 4,
       wd_Address = ''cold'', wd_Status = ''requested'', wd_TxHash = []\<rparr>"
  let ?w = "wallet_run Mock_NewAddress Mock_Withdraw ?ops demo_wallet"
  have ok: "list_all wallet_op_ok ?ops" "in_int64 4" "in_int64 100" by code_simp+
  have "wallet_inv mock_keys mock_outgoing demo_wallet" unfolding demo_wallet_def
    by (rule mock.New_wallet_inv) (use ok(3) in \<open>simp_all add: empty_ledger_inv mock_keys_def mock_outgoing_def NewMock_def\<close>)
  from mock.wallet_run_inv [OF this ok(1)] have inv: "ledger_inv (wl_db ?w)" by (simp add: wallet_inv_def)
  have r: "snd (RequestWithdrawal 1 ''BTC'' ''cold'' 4 ?w) = Inr ?row" by code_simp
  have k: "wlock_key (wl_next_id ?w) \<notin> posted (wl_db ?w)" unfolding posted_def by code_simp
  obtain w' where w': "RequestWithdrawal 1 ''BTC'' ''cold'' 4 ?w = (w', Inr ?row)" using r by (metis prod.collapse)
  have n: "wl_next_id ?w = 1" by code_simp
  from RequestWithdrawal_effect [OF inv ok(2) w' k] w' show ?thesis unfolding n by blast
qed

section \<open>Where the wallet loses track\<close>

text \<open>The credit key omits the asset. One chain transaction that pays two assets (allowed by the
  uniqueness of \<open>(tx_hash, asset)\<close>) is credited for the first only: the second webhook answers that it
  credited and marks its deposit credited, but the ledger posting is swallowed by the key of the
  first.\<close>

definition demo_two_assets :: "Mock wallet" where
  "demo_two_assets = wallet_run Mock_NewAddress Mock_Withdraw
     [WAddress None 1 ''BTC'', WAddress None 1 ''USDT'', WDeposit ''BTC'' ''BTC_6162'' ''t1'' 10 3] demo_wallet"

theorem second_asset_lost:
  "case HandleDeposit ''USDT'' ''USDT_6364'' ''t1'' 50 3 demo_two_assets of
     (w, r) \<Rightarrow> r = Inr True \<and> map dp_status (wl_deposits w) = [''credited'', ''credited'']
       \<and> bal (wl_db w) (Some 1, ''USDT'', KindMain) = 0"
  by code_simp

text \<open>C29: A failed broadcast followed by a rejection destroys funds. When the custody call of an approval
  fails, the ledger has already been settled but the withdrawal is still requested; rejecting it
  then unlocks the same amount again, out of the reservation of another withdrawal. The user's
  balances have lost the amount although the provider sent nothing, and the other withdrawal cannot
  be paid any more.\<close>

definition demo_stuck :: "Mock wallet" where
  "demo_stuck = (wallet_run Mock_NewAddress Mock_Withdraw
     [WAddress None 1 ''BTC'', WDeposit ''BTC'' ''BTC_6162'' ''t1'' 10 3, WAllow 1 ''BTC'' ''cold'' ''vault'',
      WRequest 1 ''BTC'' ''cold'' 4, WRequest 1 ''BTC'' ''cold'' 5] demo_wallet)\<lparr>wl_custody := NewMock [None, Some ''ok'', Some ''ok'']\<rparr>"



end
