(* ===== verification/Encoding.thy ===== *)
theory Encoding
  imports Prelude
begin

text \<open>
  The text encodings the account service uses (encoding/base64 and encoding/base32 of the Go library),
  over bit strings: encoders and decoders with their padding rules, and the round trips.
\<close>

section \<open>Bits and chunks\<close>

text \<open>Most significant bit first.\<close>

definition to_bits :: "nat \<Rightarrow> nat \<Rightarrow> bool list" where
  "to_bits n x = map (\<lambda>i. odd (x div 2 ^ i)) (rev [0..<n])"

definition of_bits :: "bool list \<Rightarrow> nat" where
  "of_bits bs = foldl (\<lambda>a b. 2 * a + of_bool b) 0 bs"

fun full_chunks :: "nat \<Rightarrow> 'a list \<Rightarrow> 'a list list" where
  "full_chunks k xs = (if k = 0 \<or> length xs < k then [] else take k xs # full_chunks k (drop k xs))"

declare full_chunks.simps [simp del]

lemma length_to_bits [simp]: "length (to_bits n x) = n"
  by (simp add: to_bits_def)

lemma to_bits_Suc: "to_bits (Suc n) x = to_bits n (x div 2) @ [odd x]"
proof -
  have "rev [0..<Suc n] = map Suc (rev [0..<n]) @ [0]"
    by (simp add: rev_map [symmetric] map_Suc_upt upt_conv_Cons del: upt_Suc)
  then show ?thesis by (simp add: to_bits_def div_mult2_eq comp_def)
qed

lemma of_bits_snoc [simp]: "of_bits (bs @ [b]) = 2 * of_bits bs + of_bool b"
  by (simp add: of_bits_def)

lemma of_bits_to_bits: "of_bits (to_bits n x) = x mod 2 ^ n"
proof (induction n arbitrary: x)
  case (Suc n)
  have "x mod (2 * 2 ^ n) = 2 * (x div 2 mod 2 ^ n) + x mod 2" by (rule mod_mult2_eq)
  then show ?case using Suc [of "x div 2"] by (simp add: to_bits_Suc mod_2_eq_odd)
qed (simp add: to_bits_def of_bits_def)

lemma to_bits_of_bits: "to_bits (length bs) (of_bits bs) = bs"
  by (induction bs rule: rev_induct) (simp_all add: to_bits_Suc, simp add: to_bits_def)

lemma of_bits_less: "of_bits bs < 2 ^ length bs"
  by (metis length_to_bits mod_less_divisor of_bits_to_bits to_bits_of_bits zero_less_numeral zero_less_power)

lemma full_chunks_concat:
  assumes "\<forall>c \<in> set cs. length c = k" "0 < k" "length rest < k"
  shows "full_chunks k (concat cs @ rest) = cs"
  using assms
proof (induction cs)
  case Nil
  then show ?case by (subst full_chunks.simps) simp
next
  case (Cons c cs)
  then show ?case by (subst full_chunks.simps) simp
qed

lemma concat_full_chunks:
  assumes "0 < k" "length xs mod k = 0"
  shows "concat (full_chunks k xs) = xs \<and> (\<forall>c \<in> set (full_chunks k xs). length c = k)"
  using assms
proof (induction k xs rule: full_chunks.induct)
  case (1 k xs)
  show ?case
  proof (cases "length xs < k")
    case True
    then have "xs = []" using 1(3) by simp
    then show ?thesis by (subst (1 2) full_chunks.simps) (simp add: 1(2))
  next
    case False
    then have dl: "length (drop k xs) mod k = 0" using 1(3) le_mod_geq [of k "length xs"] by simp
    have nz: "\<not> (k = 0 \<or> length xs < k)" using False 1(2) by simp
    note ih = 1(1) [OF nz 1(2) dl]
    show ?thesis using nz ih by (subst (1 2) full_chunks.simps) simp
  qed
qed

section \<open>Radix encodings\<close>

text \<open>Bytes to symbols of \<open>k\<close> bits, the last one padded with zero bits, and back; decoding drops
  the bits that do not fill a byte.\<close>

definition byte_bits :: "string \<Rightarrow> bool list" where
  "byte_bits b = concat (map (\<lambda>c. to_bits 8 (of_char c)) b)"

definition pad_bits :: "nat \<Rightarrow> bool list \<Rightarrow> bool list" where
  "pad_bits k bs = bs @ replicate ((k - length bs mod k) mod k) False"

definition symbols :: "nat \<Rightarrow> string \<Rightarrow> nat list" where
  "symbols k b = map of_bits (full_chunks k (pad_bits k (byte_bits b)))"

definition bytes_of :: "nat \<Rightarrow> nat list \<Rightarrow> string" where
  "bytes_of k ss = map (\<lambda>c. char_of (of_bits c)) (full_chunks 8 (concat (map (to_bits k) ss)))"

lemma length_pad_bits: "0 < k \<Longrightarrow> length (pad_bits k bs) mod k = 0"
proof -
  assume k: "0 < k"
  let ?m = "length bs mod k"
  have "(length bs + (k - ?m) mod k) mod k = (?m + (k - ?m)) mod k" by (metis mod_add_eq mod_mod_trivial)
  also have "?m + (k - ?m) = k" using mod_less_divisor [OF k, of "length bs"] by simp
  finally show ?thesis by (simp add: pad_bits_def)
qed

lemma symbols_less: "s \<in> set (symbols k b) \<Longrightarrow> 0 < k \<Longrightarrow> s < 2 ^ k"
proof -
  assume s: "s \<in> set (symbols k b)" and k: "0 < k"
  have "\<forall>c \<in> set (full_chunks k (pad_bits k (byte_bits b))). length c = k"
    using concat_full_chunks [OF k length_pad_bits [OF k]] by blast
  then show "s < 2 ^ k" using s of_bits_less by (fastforce simp: symbols_def)
qed

lemma bytes_of_symbols:
  assumes "0 < k" "k \<le> 8"
  shows "bytes_of k (symbols k b) = b"
proof -
  let ?p = "pad_bits k (byte_bits b)"
  note fc = concat_full_chunks [OF assms(1) length_pad_bits [OF assms(1)], of "byte_bits b"]
  have "map (to_bits k \<circ> of_bits) (full_chunks k ?p) = full_chunks k ?p"
    by (rule map_idI) (use fc to_bits_of_bits in auto)
  then have "concat (map (to_bits k) (symbols k b)) = ?p" using fc by (simp add: symbols_def)
  moreover have "full_chunks 8 ?p = map (\<lambda>c. to_bits 8 (of_char c)) b"
    unfolding pad_bits_def byte_bits_def using assms mod_less_divisor [OF assms(1)]
    by (intro full_chunks_concat) (simp_all add: less_le_trans [of _ k 8])
  ultimately have "bytes_of k (symbols k b) = map (\<lambda>c. char_of (of_bits (to_bits 8 (of_char c)))) b"
    by (simp add: bytes_of_def comp_def)
  also have "\<dots> = b" by (rule map_idI) (simp add: of_bits_to_bits)
  finally show ?thesis .
qed

section \<open>Base32 and base64 text\<close>

definition alphabet64 :: string where
  "alphabet64 = ''ABCDEFGHIJKLMNOPQRSTUVWXYZabcdefghijklmnopqrstuvwxyz0123456789+/''"

definition alphabet32 :: string where
  "alphabet32 = ''ABCDEFGHIJKLMNOPQRSTUVWXYZ234567''"

fun index_of :: "char \<Rightarrow> string \<Rightarrow> nat option" where
  "index_of c [] = None"
| "index_of c (x # xs) = (if c = x then Some 0 else map_option Suc (index_of c xs))"

definition strip_newlines :: "string \<Rightarrow> string" where
  "strip_newlines s = filter (\<lambda>c. c \<noteq> char_of (10 :: nat) \<and> c \<noteq> char_of (13 :: nat)) s"

definition symbols_in :: "string \<Rightarrow> string \<Rightarrow> nat list option" where
  "symbols_in alphabet s = those (map (\<lambda>c. index_of c alphabet) s)"

definition RawStd64_EncodeToString :: "string \<Rightarrow> string" where
  "RawStd64_EncodeToString b = map (\<lambda>s. alphabet64 ! s) (symbols 6 b)"

definition RawStd64_DecodeString :: "string \<Rightarrow> string option" where
  "RawStd64_DecodeString s = (let s = strip_newlines s in
     if length s mod 4 = 1 then None else map_option (bytes_of 6) (symbols_in alphabet64 s))"

definition Std64_EncodeToString :: "string \<Rightarrow> string" where
  "Std64_EncodeToString b = (let s = RawStd64_EncodeToString b in s @ replicate ((4 - length s mod 4) mod 4) (CHR ''=''))"

text \<open>Padded text: the padding completes the last group of four and stands at the end only.\<close>

definition Std64_DecodeString :: "string \<Rightarrow> string option" where
  "Std64_DecodeString s = (let s = strip_newlines s; body = takeWhile (\<lambda>c. c \<noteq> CHR ''='') s in
     if length s mod 4 \<noteq> 0 \<or> length body mod 4 = 1 \<or> s \<noteq> body @ replicate ((4 - length body mod 4) mod 4) (CHR ''='') then None
     else map_option (bytes_of 6) (symbols_in alphabet64 body))"

text \<open>Without padding, a last group of 1, 3 or 6 symbols gives no bytes.\<close>

definition Base32_EncodeToString :: "string \<Rightarrow> string" where
  "Base32_EncodeToString b = map (\<lambda>s. alphabet32 ! s) (symbols 5 b)"

definition Base32_DecodeString :: "string \<Rightarrow> string option" where
  "Base32_DecodeString s = (let s = strip_newlines s; r = length s mod 8 in
     map_option (\<lambda>ss. bytes_of 5 (if r \<in> {1, 3, 6} then take (length ss - r) ss else ss)) (symbols_in alphabet32 s))"

lemma index_of_nth: "distinct xs \<Longrightarrow> i < length xs \<Longrightarrow> index_of (xs ! i) xs = Some i"
  by (induction xs arbitrary: i) (auto simp: nth_Cons split: nat.splits)

lemma those_Some: "those (map (\<lambda>x. Some (f x)) xs) = Some (map f xs)"
  by (induction xs) simp_all

lemma alphabets:
  "distinct alphabet64" "length alphabet64 = 64" "distinct alphabet32" "length alphabet32 = 32"
  "strip_newlines alphabet64 = alphabet64" "strip_newlines alphabet32 = alphabet32" "CHR ''='' \<notin> set alphabet64"
  by code_simp+

lemma symbols_in_map:
  assumes "distinct al" "\<forall>s \<in> set ss. s < length al"
  shows "symbols_in al (map (\<lambda>s. al ! s) ss) = Some ss"
proof -
  have "map (\<lambda>s. index_of (al ! s) al) ss = map (\<lambda>s. Some s) ss" using assms by (simp add: index_of_nth)
  then show ?thesis using those_Some [of "\<lambda>s. s" ss] unfolding symbols_in_def map_map comp_def by (simp only: list.map_ident)
qed

lemma strip_newlines_map:
  assumes "strip_newlines al = al" "\<forall>s \<in> set ss. s < length al"
  shows "strip_newlines (map (\<lambda>s. al ! s) ss) = map (\<lambda>s. al ! s) ss"
proof -
  have ok: "\<forall>c \<in> set al. c \<noteq> char_of (10 :: nat) \<and> c \<noteq> char_of (13 :: nat)"
    using assms(1) unfolding strip_newlines_def filter_id_conv .
  have "al ! s \<in> set al" if "s \<in> set ss" for s using assms(2) that by simp
  with ok show ?thesis unfolding strip_newlines_def by (intro filter_True) auto
qed

lemma length_full_chunks: "0 < k \<Longrightarrow> length (full_chunks k xs) = length xs div k"
proof (induction k xs rule: full_chunks.induct)
  case (1 k xs)
  show ?case
  proof (cases "length xs < k")
    case False
    with 1 show ?thesis by (subst full_chunks.simps) (simp add: le_div_geq)
  qed (subst full_chunks.simps, simp)
qed

lemma length_byte_bits [simp]: "length (byte_bits b) = 8 * length b"
  by (induction b) (simp_all add: byte_bits_def)

lemma length_symbols:
  assumes "0 < k"
  obtains p where "p < k" "k * length (symbols k b) = 8 * length b + p"
proof -
  let ?L = "length (pad_bits k (byte_bits b))"
  have "k * length (symbols k b) = k * (?L div k)" using assms by (simp add: symbols_def length_full_chunks)
  also have "\<dots> = ?L" using length_pad_bits [OF assms] by (metis add.right_neutral mult_div_mod_eq)
  finally show thesis using assms by (intro that [of "(k - 8 * length b mod k) mod k"]) (simp_all add: pad_bits_def)
qed

lemma sextets_mod4: "l mod 4 \<noteq> 1" if "6 * l = 8 * n + p" "p < 6" for l n p :: nat
proof
  assume "l mod 4 = 1"
  then have "l = 4 * (l div 4) + 1" using mult_div_mod_eq [of 4 l] by linarith
  then obtain k where "l = 4 * k + 1" by blast
  with that have "24 * k + 6 = 8 * n + p" by simp
  with that(2) show False by arith
qed

lemma quintets_mod8: "l mod 8 \<notin> {1, 3, 6}" if "5 * l = 8 * n + q" "q < 5" for l n q :: nat
proof
  assume "l mod 8 \<in> {1, 3, 6}"
  moreover have "l = 8 * (l div 8) + l mod 8" by simp
  ultimately obtain k where "l = 8 * k + 1 \<or> l = 8 * k + 3 \<or> l = 8 * k + 6" by (metis insertE singletonD)
  with that have "40 * k + 5 = 8 * n + q \<or> 40 * k + 15 = 8 * n + q \<or> 40 * k + 30 = 8 * n + q" by auto
  with that(2) show False by arith
qed

lemma symbols_length_ok: "length (symbols 6 b) mod 4 \<noteq> 1" "length (symbols 5 b) mod 8 \<notin> {1, 3, 6}"
proof -
  obtain p where p: "p < 6" "6 * length (symbols 6 b) = 8 * length b + p" by (rule length_symbols [of 6 b]) simp
  show "length (symbols 6 b) mod 4 \<noteq> 1" by (rule sextets_mod4 [OF p(2,1)])
  obtain q where q: "q < 5" "5 * length (symbols 5 b) = 8 * length b + q" by (rule length_symbols [of 5 b]) simp
  show "length (symbols 5 b) mod 8 \<notin> {1, 3, 6}" by (rule quintets_mod8 [OF q(2,1)])
qed

lemma symbols_below: "\<forall>s \<in> set (symbols 6 b). s < length alphabet64" "\<forall>s \<in> set (symbols 5 b). s < length alphabet32"
  using symbols_less [of _ 6 b] symbols_less [of _ 5 b] by (simp_all add: alphabets)

lemma RawStd64_roundtrip: "RawStd64_DecodeString (RawStd64_EncodeToString b) = Some b"
  using symbols_length_ok(1)
  by (simp add: RawStd64_DecodeString_def RawStd64_EncodeToString_def Let_def bytes_of_symbols
      strip_newlines_map [OF alphabets(5) symbols_below(1)] symbols_in_map [OF alphabets(1) symbols_below(1)])

lemma Base32_roundtrip: "Base32_DecodeString (Base32_EncodeToString b) = Some b"
  using symbols_length_ok(2)
  by (simp add: Base32_DecodeString_def Base32_EncodeToString_def Let_def bytes_of_symbols
      strip_newlines_map [OF alphabets(6) symbols_below(2)] symbols_in_map [OF alphabets(3) symbols_below(2)])

lemma Std64_roundtrip: "Std64_DecodeString (Std64_EncodeToString b) = Some b"
proof -
  let ?e = "map (\<lambda>s. alphabet64 ! s) (symbols 6 b)"
  let ?p = "(4 - length ?e mod 4) mod 4"
  have "\<forall>c \<in> set ?e. c \<noteq> CHR ''=''" using symbols_below(1) [of b] alphabets(7) by (auto dest!: bspec) (metis nth_mem)
  then have tw: "takeWhile (\<lambda>c. c \<noteq> CHR ''='') (?e @ replicate ?p (CHR ''='')) = ?e"
    by (cases ?p) (simp_all add: takeWhile_append)
  have st: "strip_newlines (?e @ replicate ?p (CHR ''='')) = ?e @ replicate ?p (CHR ''='')"
  proof -
    have "CHR ''='' \<noteq> char_of (10 :: nat) \<and> CHR ''='' \<noteq> char_of (13 :: nat)" by code_simp
    then show ?thesis using strip_newlines_map [OF alphabets(5) symbols_below(1), of b] by (simp add: strip_newlines_def)
  qed
  have "(n + (4 - n mod 4) mod 4) mod 4 = 0" for n :: nat
    using length_pad_bits [of 4 "replicate n False"] by (simp add: pad_bits_def)
  then have "length (?e @ replicate ?p (CHR ''='')) mod 4 = 0" by simp
  then show ?thesis
    using symbols_length_ok(1) [of b]
    unfolding Std64_DecodeString_def Std64_EncodeToString_def RawStd64_EncodeToString_def Let_def st tw
    by (simp add: bytes_of_symbols symbols_in_map [OF alphabets(1) symbols_below(1)])
qed

end
