(* ===== verification/Auth.thy ===== *)
theory Auth
  imports Encoding Support
begin

text \<open>
  The authentication primitives (\<open>src/services/account-service/auth\<close>): API keys and signed requests
  (\<open>apikey.go\<close>), the cipher of stored secrets (\<open>crypto.go\<close>), one-time passwords (\<open>totp.go\<close>) and password
  hashes (\<open>password.go\<close>). Digests, MACs, argon2 and AES-GCM are parameters, collected in a record;
  the random source and the clock are arguments.
\<close>

section \<open>Primitives\<close>

text \<open>
  The cryptographic primitives are functions on byte strings: \<open>sha256\<close>, \<open>hmac_sha256 key msg\<close>,
  \<open>hmac_sha1 key msg\<close>, \<open>argon2 password salt time memory threads keyLen\<close>, and AES-GCM as
  \<open>seal key nonce plaintext\<close> and \<open>aead_open key nonce ciphertext\<close>.
\<close>

record primitives =
  sha256 :: "string \<Rightarrow> string"
  hmac_sha256 :: "string \<Rightarrow> string \<Rightarrow> string"
  hmac_sha1 :: "string \<Rightarrow> string \<Rightarrow> string"
  argon2 :: "string \<Rightarrow> string \<Rightarrow> nat \<Rightarrow> nat \<Rightarrow> nat \<Rightarrow> nat \<Rightarrow> string"
  seal :: "string \<Rightarrow> string \<Rightarrow> string \<Rightarrow> string"
  aead_open :: "string \<Rightarrow> string \<Rightarrow> string \<Rightarrow> string option"

text \<open>What the code relies on: digest lengths, and that opening inverts sealing.\<close>

definition primitives_ok :: "primitives \<Rightarrow> bool" where
  "primitives_ok prm \<longleftrightarrow> (\<forall>k m. length (hmac_sha1 prm k m) = 20)
     \<and> (\<forall>p s t m th n. length (argon2 prm p s t m th n) = n)
     \<and> (\<forall>k n p. aead_open prm k n (seal prm k n p) = Some p)"

datatype auth_error = ErrRand | ErrNoCipher | ErrBase64 | ErrTooShort | ErrOpen | ErrBadSecret | ErrMalformedHash | ErrPasswordMismatch

section \<open>API keys and session tokens\<close>

definition SignatureWindow :: time where "SignatureWindow = 30 * second"

definition HashSecret :: "primitives \<Rightarrow> string \<Rightarrow> string" where
  "HashSecret prm secret = hex_EncodeToString (sha256 prm secret)"

text \<open>\<open>rnd\<close> is what \<open>rand.Read\<close> fills the buffer with.\<close>

definition NewAPIKey :: "primitives \<Rightarrow> string option \<Rightarrow> auth_error + string \<times> string \<times> string" where
  "NewAPIKey prm rnd = (case rnd of None \<Rightarrow> Inl ErrRand | Some buf \<Rightarrow>
     let keyID = ''bk_'' @ hex_EncodeToString (take 16 buf);
         secret = hex_EncodeToString (drop 16 buf)
     in Inr (keyID, secret, HashSecret prm secret))"

definition NewSessionToken :: "primitives \<Rightarrow> string option \<Rightarrow> auth_error + string \<times> string" where
  "NewSessionToken prm rnd = (case rnd of None \<Rightarrow> Inl ErrRand | Some buf \<Rightarrow>
     let token = hex_EncodeToString buf in Inr (token, HashSecret prm token))"

definition UnixMilli :: "time \<Rightarrow> int" where "UnixMilli t = t div 10 ^ 6"

definition sign_payload :: "int \<Rightarrow> string \<Rightarrow> string \<Rightarrow> string \<Rightarrow> string" where
  "sign_payload ms method path body = fmt_d ms @ [char_of (10 :: nat)] @ method @ [char_of (10 :: nat)] @ path @ [char_of (10 :: nat)] @ body"

definition SignRequest :: "primitives \<Rightarrow> string \<Rightarrow> time \<Rightarrow> string \<Rightarrow> string \<Rightarrow> string \<Rightarrow> string" where
  "SignRequest prm secret ts method path body = hex_EncodeToString (hmac_sha256 prm secret (sign_payload (UnixMilli ts) method path body))"

definition VerifyRequest :: "primitives \<Rightarrow> string \<Rightarrow> string \<Rightarrow> int64 \<Rightarrow> string \<Rightarrow> string \<Rightarrow> string \<Rightarrow> time \<Rightarrow> bool" where
  "VerifyRequest prm secret signature tsMillis method path body now =
     (let ts = tsMillis * 10 ^ 6;
          age = time_Sub now ts
      in if age < - SignatureWindow \<or> age > SignatureWindow then False
         else SignRequest prm secret ts method path body = signature)"

section \<open>The cipher\<close>

definition NonceSize :: nat where "NonceSize = 12"

definition NewCipher :: "string \<Rightarrow> auth_error + string" where
  "NewCipher key = (if length key \<noteq> 32 then Inl ErrNoCipher else Inr key)"

definition Encrypt :: "primitives \<Rightarrow> string \<Rightarrow> string option \<Rightarrow> string \<Rightarrow> auth_error + string" where
  "Encrypt prm key rnd plaintext = (case rnd of None \<Rightarrow> Inl ErrRand | Some nonce \<Rightarrow>
     Inr (Std64_EncodeToString (nonce @ seal prm key nonce plaintext)))"

definition Decrypt :: "primitives \<Rightarrow> string \<Rightarrow> string \<Rightarrow> auth_error + string" where
  "Decrypt prm key encoded = (case Std64_DecodeString encoded of None \<Rightarrow> Inl ErrBase64 | Some raw \<Rightarrow>
     if length raw < NonceSize then Inl ErrTooShort
     else (case aead_open prm key (take NonceSize raw) (drop NonceSize raw) of None \<Rightarrow> Inl ErrOpen | Some pt \<Rightarrow> Inr pt))"

section \<open>One-time passwords\<close>

definition totpDigits :: nat where "totpDigits = 6"
definition totpPeriod :: time where "totpPeriod = 30 * second"

definition NewTOTPSecret :: "string option \<Rightarrow> auth_error + string" where
  "NewTOTPSecret rnd = (case rnd of None \<Rightarrow> Inl ErrRand | Some buf \<Rightarrow> Inr (Base32_EncodeToString buf))"

text \<open>Big-endian bytes of an unsigned number, and back.\<close>

definition be_bytes :: "nat \<Rightarrow> nat \<Rightarrow> string" where
  "be_bytes n x = map (\<lambda>i. char_of (x div 256 ^ i mod 256)) (rev [0..<n])"

definition be_value :: "string \<Rightarrow> nat" where
  "be_value b = foldl (\<lambda>a c. a * 256 + of_char c) 0 b"

definition totp_counter :: "time \<Rightarrow> nat" where
  "totp_counter t = nat (wrap_u64 (t div second)) div 30"

definition totp_truncate :: "string \<Rightarrow> nat" where
  "totp_truncate mac = (let off = of_char (mac ! (length mac - 1)) mod 16
     in be_value (take 4 (drop off mac)) mod 2 ^ 31)"

definition TOTPCode :: "primitives \<Rightarrow> string \<Rightarrow> time \<Rightarrow> auth_error + string" where
  "TOTPCode prm secret t = (case Base32_DecodeString secret of None \<Rightarrow> Inl ErrBadSecret | Some key \<Rightarrow>
     Inr (fmt_0d totpDigits (int (totp_truncate (hmac_sha1 prm key (be_bytes 8 (totp_counter t))) mod 1000000))))"

fun totp_loop :: "primitives \<Rightarrow> string \<Rightarrow> string \<Rightarrow> time \<Rightarrow> int list \<Rightarrow> bool" where
  "totp_loop prm secret code t [] = False"
| "totp_loop prm secret code t (step # steps) =
     (case TOTPCode prm secret (t + step * totpPeriod) of
        Inl _ \<Rightarrow> False
      | Inr want \<Rightarrow> if want = code then True else totp_loop prm secret code t steps)"

definition VerifyTOTP :: "primitives \<Rightarrow> string \<Rightarrow> string \<Rightarrow> time \<Rightarrow> bool" where
  "VerifyTOTP prm secret code t = totp_loop prm secret code t [-1, 0, 1]"

section \<open>Passwords\<close>

definition argonMemory :: nat where "argonMemory = 64 * 1024"
definition argonTime :: nat where "argonTime = 1"
definition argonThreads :: nat where "argonThreads = 4"
definition argonKeyLen :: nat where "argonKeyLen = 32"
definition argon2_Version :: int where "argon2_Version = 19"

definition HashPassword :: "primitives \<Rightarrow> string option \<Rightarrow> string \<Rightarrow> auth_error + string" where
  "HashPassword prm rnd password = (case rnd of None \<Rightarrow> Inl ErrRand | Some salt \<Rightarrow>
     let key = argon2 prm password salt argonTime argonMemory argonThreads argonKeyLen
     in Inr (''$argon2id$v='' @ fmt_d argon2_Version @ ''$m='' @ fmt_d (int argonMemory) @ '',t='' @ fmt_d (int argonTime)
          @ '',p='' @ fmt_d (int argonThreads) @ ''$'' @ RawStd64_EncodeToString salt @ ''$'' @ RawStd64_EncodeToString key))"

text \<open>\<open>strings.Split\<close> at a one-byte separator.\<close>

fun strings_Split :: "string \<Rightarrow> char \<Rightarrow> string list" where
  "strings_Split [] sep = [[]]"
| "strings_Split (c # cs) sep =
     (if c = sep then [] # strings_Split cs sep
      else (case strings_Split cs sep of p # ps \<Rightarrow> (c # p) # ps | [] \<Rightarrow> [[c]]))"

text \<open>\<open>fmt.Sscanf\<close> for literals and \<open>%d\<close>: blanks before a number are skipped, trailing input is
  not looked at.\<close>

fun scan_lit :: "string \<Rightarrow> string \<Rightarrow> string option" where
  "scan_lit [] s = Some s"
| "scan_lit (c # cs) [] = None"
| "scan_lit (c # cs) (x # xs) = (if c = x then scan_lit cs xs else None)"

definition is_blank :: "char \<Rightarrow> bool" where
  "is_blank c \<longleftrightarrow> (of_char c :: nat) \<in> {9, 11, 12, 13, 32}"

definition scan_digits :: "string \<Rightarrow> (nat \<times> string) option" where
  "scan_digits s = (let ds = takeWhile is_digit s in if ds = [] then None else Some (dec_val ds, dropWhile is_digit s))"

definition scan_uint :: "nat \<Rightarrow> string \<Rightarrow> (nat \<times> string) option" where
  "scan_uint w s = (case scan_digits (dropWhile is_blank s) of
     None \<Rightarrow> None | Some (n, rest) \<Rightarrow> if n < 2 ^ w then Some (n, rest) else None)"

definition scan_int :: "string \<Rightarrow> (int \<times> string) option" where
  "scan_int s = (let s = dropWhile is_blank s; neg = (s \<noteq> [] \<and> hd s = CHR ''-'');
       s = (if s \<noteq> [] \<and> hd s \<in> {CHR ''-'', CHR ''+''} then tl s else s)
     in case scan_digits s of None \<Rightarrow> None
        | Some (n, rest) \<Rightarrow> let x = (if neg then - int n else int n) in if in_int64 x then Some (x, rest) else None)"

definition scan_version :: "string \<Rightarrow> int option" where
  "scan_version s = Option.bind (scan_lit ''v='' s) (\<lambda>s. map_option fst (scan_int s))"

definition scan_params :: "string \<Rightarrow> (nat \<times> nat \<times> nat) option" where
  "scan_params s =
     Option.bind (scan_lit ''m='' s) (\<lambda>s. Option.bind (scan_uint 32 s) (\<lambda>(memory, s).
     Option.bind (scan_lit '',t='' s) (\<lambda>s. Option.bind (scan_uint 32 s) (\<lambda>(time, s).
     Option.bind (scan_lit '',p='' s) (\<lambda>s. Option.bind (scan_uint 8 s) (\<lambda>(threads, s). Some (memory, time, threads)))))))"

definition VerifyPassword :: "primitives \<Rightarrow> string \<Rightarrow> string \<Rightarrow> auth_error + unit" where
  "VerifyPassword prm password encoded =
     (let parts = strings_Split encoded (CHR ''$'')
      in if length parts \<noteq> 6 \<or> parts ! 1 \<noteq> ''argon2id'' then Inl ErrMalformedHash
         else (case scan_version (parts ! 2) of None \<Rightarrow> Inl ErrMalformedHash | Some _ \<Rightarrow>
              (case scan_params (parts ! 3) of None \<Rightarrow> Inl ErrMalformedHash | Some (memory, time, threads) \<Rightarrow>
              (case RawStd64_DecodeString (parts ! 4) of None \<Rightarrow> Inl ErrMalformedHash | Some salt \<Rightarrow>
              (case RawStd64_DecodeString (parts ! 5) of None \<Rightarrow> Inl ErrMalformedHash | Some want \<Rightarrow>
                 if argon2 prm password salt time memory threads (length want) \<noteq> want then Inl ErrPasswordMismatch
                 else Inr ())))))"

end
