(* ===== verification/Account.thy ===== *)
theory Account
  imports Auth "HOL-Library.AList"
begin

text \<open>
  The account service (\<open>src/services/account-service/account/account.go\<close>) over the interface of its
  store, and the in-memory store (\<open>memstore.go\<close>).
\<close>

section \<open>Records\<close>

record User =
  us_ID :: int64
  us_Email :: string
  us_PasswordHash :: string
  us_TOTPSecret :: string
  us_TOTPEnabled :: bool
  us_Status :: string
  us_IsAdmin :: bool

record APIKey =
  ak_KeyID :: string
  ak_UserID :: int64
  ak_SecretHash :: string
  ak_SecretEnc :: string
  ak_Label :: string
  ak_Disabled :: bool

record Session =
  se_TokenHash :: string
  se_UserID :: int64
  se_ExpiresAt :: time

record APIKeyInfo =
  ki_KeyID :: string
  ki_Label :: string
  ki_Disabled :: bool

text \<open>\<open>ErrNilUser\<close> stands for the panic on a nil user pointer, \<open>ErrStore\<close> for an error of the database.\<close>

datatype account_error = ErrEmailTaken | ErrInvalidCredentials | ErrTOTPRequired | ErrAccountNotFound | ErrWeakPassword
  | ErrBadEmail | ErrAPIKeysDisabled | ErrAuth auth_error | ErrNilUser | ErrStore

text \<open>The interface \<open>Store\<close>: an implementation is a value of this record.\<close>

record 's Store =
  st_CreateUser :: "string \<Rightarrow> string \<Rightarrow> 's \<Rightarrow> 's \<times> (account_error + User)"
  st_UserByEmail :: "string \<Rightarrow> 's \<Rightarrow> 's \<times> (account_error + User)"
  st_UserByID :: "int64 \<Rightarrow> 's \<Rightarrow> 's \<times> (account_error + User)"
  st_SetTOTP :: "int64 \<Rightarrow> string \<Rightarrow> bool \<Rightarrow> 's \<Rightarrow> 's \<times> (account_error + unit)"
  st_CreateSession :: "Session \<Rightarrow> 's \<Rightarrow> 's \<times> (account_error + unit)"
  st_SessionByTokenHash :: "string \<Rightarrow> 's \<Rightarrow> 's \<times> (account_error + Session)"
  st_DeleteSession :: "string \<Rightarrow> 's \<Rightarrow> 's \<times> (account_error + unit)"
  st_CreateAPIKey :: "APIKey \<Rightarrow> 's \<Rightarrow> 's \<times> (account_error + unit)"
  st_APIKeysByUser :: "int64 \<Rightarrow> 's \<Rightarrow> 's \<times> (account_error + APIKey list)"
  st_APIKeyByID :: "string \<Rightarrow> 's \<Rightarrow> 's \<times> (account_error + APIKey)"

section \<open>The service\<close>

definition SessionTTL :: time where "SessionTTL = 24 * 60 * 60 * second"

text \<open>The Unicode-aware text functions of the standard library that the service calls.\<close>

record text_lib =
  ToLower :: "string \<Rightarrow> string"
  TrimSpace :: "string \<Rightarrow> string"
  ParseAddress :: "string \<Rightarrow> bool"
  PathEscape :: "string \<Rightarrow> string"
  QueryEscape :: "string \<Rightarrow> string"

definition lift_auth :: "auth_error + 'a \<Rightarrow> 's \<Rightarrow> 's \<times> (account_error + 'a)" where
  "lift_auth r s = (s, map_sum ErrAuth (\<lambda>x. x) r)"

definition Signup :: "primitives \<Rightarrow> text_lib \<Rightarrow> 's Store \<Rightarrow> string option \<Rightarrow> string \<Rightarrow> string \<Rightarrow> 's \<Rightarrow> 's \<times> (account_error + User)" where
  "Signup prm txt S rnd email password s =
     (let email = ToLower txt (TrimSpace txt email)
      in if \<not> ParseAddress txt email then (s, Inl ErrBadEmail)
         else if length password < 10 then (s, Inl ErrWeakPassword)
         else andThen (lift_auth (HashPassword prm rnd password)) (\<lambda>hash. st_CreateUser S email hash) s)"

definition second_factor :: "primitives \<Rightarrow> time \<Rightarrow> string \<Rightarrow> User \<Rightarrow> account_error + unit" where
  "second_factor prm now code u =
     (if us_TOTPEnabled u
      then if code = [] then Inl ErrTOTPRequired
           else if \<not> VerifyTOTP prm (us_TOTPSecret u) code now then Inl ErrInvalidCredentials
           else Inr ()
      else Inr ())"

text \<open>\<open>Login\<close> reads the clock twice: for the second factor, and for the expiry of the session.\<close>

definition Login :: "primitives \<Rightarrow> text_lib \<Rightarrow> 's Store \<Rightarrow> time \<Rightarrow> time \<Rightarrow> string option \<Rightarrow> string \<Rightarrow> string \<Rightarrow> string \<Rightarrow>
    's \<Rightarrow> 's \<times> (account_error + string \<times> User)" where
  "Login prm txt S now now2 rnd email password totpCode s =
     (case st_UserByEmail S (ToLower txt (TrimSpace txt email)) s of
        (s, Inl _) \<Rightarrow> (s, Inl ErrInvalidCredentials)
      | (s, Inr u) \<Rightarrow>
          (case VerifyPassword prm password (us_PasswordHash u) of
             Inl _ \<Rightarrow> (s, Inl ErrInvalidCredentials)
           | Inr _ \<Rightarrow>
          (case second_factor prm now totpCode u of
             Inl err \<Rightarrow> (s, Inl err)
           | Inr _ \<Rightarrow>
               andThen (lift_auth (NewSessionToken prm rnd)) (\<lambda>(token, tokenHash).
               andThen (st_CreateSession S \<lparr>se_TokenHash = tokenHash, se_UserID = us_ID u, se_ExpiresAt = now2 + SessionTTL\<rparr>) (\<lambda>_ s.
                 (s, Inr (token, u)))) s)))"

definition Authenticate :: "primitives \<Rightarrow> 's Store \<Rightarrow> time \<Rightarrow> string \<Rightarrow> 's \<Rightarrow> 's \<times> (account_error + User)" where
  "Authenticate prm S now token s =
     (case st_SessionByTokenHash S (HashSecret prm token) s of
        (s, Inl _) \<Rightarrow> (s, Inl ErrInvalidCredentials)
      | (s, Inr sess) \<Rightarrow>
          if now > se_ExpiresAt sess
          then (fst (st_DeleteSession S (se_TokenHash sess) s), Inl ErrInvalidCredentials)
          else st_UserByID S (se_UserID sess) s)"

definition TOTPProvisioningURI :: "text_lib \<Rightarrow> string \<Rightarrow> string \<Rightarrow> string \<Rightarrow> string" where
  "TOTPProvisioningURI txt secret accountEmail issuer =
     ''otpauth://totp/'' @ PathEscape txt issuer @ '':'' @ PathEscape txt accountEmail @ ''?secret='' @ secret
       @ ''&issuer='' @ QueryEscape txt issuer"

definition SetupTOTP :: "text_lib \<Rightarrow> 's Store \<Rightarrow> string option \<Rightarrow> int64 \<Rightarrow> 's \<Rightarrow> 's \<times> (account_error + string \<times> string)" where
  "SetupTOTP txt S rnd userID =
     andThen (st_UserByID S userID) (\<lambda>u.
     andThen (lift_auth (NewTOTPSecret rnd)) (\<lambda>secret.
     andThen (st_SetTOTP S userID secret False) (\<lambda>_ s.
       (s, Inr (secret, TOTPProvisioningURI txt secret (us_Email u) ''Bittech'')))))"

definition RequireTOTP :: "primitives \<Rightarrow> 's Store \<Rightarrow> time \<Rightarrow> int64 \<Rightarrow> string \<Rightarrow> 's \<Rightarrow> 's \<times> (account_error + unit)" where
  "RequireTOTP prm S now userID code =
     andThen (st_UserByID S userID) (\<lambda>u s.
       if \<not> us_TOTPEnabled u then (s, Inl ErrTOTPRequired)
       else if \<not> VerifyTOTP prm (us_TOTPSecret u) code now then (s, Inl ErrInvalidCredentials)
       else (s, Inr ()))"

definition ConfirmTOTP :: "primitives \<Rightarrow> 's Store \<Rightarrow> time \<Rightarrow> int64 \<Rightarrow> string \<Rightarrow> 's \<Rightarrow> 's \<times> (account_error + unit)" where
  "ConfirmTOTP prm S now userID code =
     andThen (st_UserByID S userID) (\<lambda>u.
       if us_TOTPSecret u = [] \<or> \<not> VerifyTOTP prm (us_TOTPSecret u) code now then (\<lambda>s. (s, Inl ErrInvalidCredentials))
       else st_SetTOTP S userID (us_TOTPSecret u) True)"

definition CreateAPIKey :: "primitives \<Rightarrow> 's Store \<Rightarrow> string option \<Rightarrow> string option \<Rightarrow> string option \<Rightarrow> int64 \<Rightarrow> string \<Rightarrow>
    's \<Rightarrow> 's \<times> (account_error + string \<times> string)" where
  "CreateAPIKey prm S cipher rndKey rndNonce userID label s =
     (case cipher of None \<Rightarrow> (s, Inl ErrAPIKeysDisabled)
      | Some ck \<Rightarrow>
          andThen (lift_auth (NewAPIKey prm rndKey)) (\<lambda>(keyID, secret, secretHash).
          andThen (lift_auth (Encrypt prm ck rndNonce secret)) (\<lambda>enc.
          andThen (st_CreateAPIKey S \<lparr>ak_KeyID = keyID, ak_UserID = userID, ak_SecretHash = secretHash,
                     ak_SecretEnc = enc, ak_Label = label, ak_Disabled = False\<rparr>) (\<lambda>_ s. (s, Inr (keyID, secret))))) s)"

definition ListAPIKeys :: "'s Store \<Rightarrow> int64 \<Rightarrow> 's \<Rightarrow> 's \<times> (account_error + APIKeyInfo list)" where
  "ListAPIKeys S userID = andThen (st_APIKeysByUser S userID) (\<lambda>ks s.
     (s, Inr (map (\<lambda>k. \<lparr>ki_KeyID = ak_KeyID k, ki_Label = ak_Label k, ki_Disabled = ak_Disabled k\<rparr>) ks)))"

definition VerifyAPIRequest :: "primitives \<Rightarrow> 's Store \<Rightarrow> string option \<Rightarrow> time \<Rightarrow> string \<Rightarrow> string \<Rightarrow> int64 \<Rightarrow> string \<Rightarrow> string \<Rightarrow> string \<Rightarrow>
    's \<Rightarrow> 's \<times> (account_error + User)" where
  "VerifyAPIRequest prm S cipher now keyID signature tsMillis method path body s =
     (case cipher of None \<Rightarrow> (s, Inl ErrAPIKeysDisabled)
      | Some ck \<Rightarrow>
          (case st_APIKeyByID S keyID s of
             (s, Inl _) \<Rightarrow> (s, Inl ErrInvalidCredentials)
           | (s, Inr k) \<Rightarrow>
               if ak_Disabled k then (s, Inl ErrInvalidCredentials)
               else (case Decrypt prm ck (ak_SecretEnc k) of
                       Inl _ \<Rightarrow> (s, Inl ErrInvalidCredentials)
                     | Inr secret \<Rightarrow>
                         if \<not> VerifyRequest prm secret signature tsMillis method path body now then (s, Inl ErrInvalidCredentials)
                         else st_UserByID S (ak_UserID k) s)))"

section \<open>The in-memory store\<close>

text \<open>\<open>ms_apiKeys\<close> lists the map's entries in some order.\<close>

record MemStore =
  ms_nextID :: int64
  ms_users :: "int64 \<rightharpoonup> User"
  ms_byEmail :: "string \<rightharpoonup> int64"
  ms_sessions :: "string \<rightharpoonup> Session"
  ms_apiKeys :: "(string \<times> APIKey) list"

definition NewMemStore :: MemStore where
  "NewMemStore = \<lparr>ms_nextID = 0, ms_users = Map.empty, ms_byEmail = Map.empty, ms_sessions = Map.empty, ms_apiKeys = []\<rparr>"

definition MemStore_CreateUser :: "string \<Rightarrow> string \<Rightarrow> MemStore \<Rightarrow> MemStore \<times> (account_error + User)" where
  "MemStore_CreateUser email passwordHash m =
     (if ms_byEmail m email \<noteq> None then (m, Inl ErrEmailTaken)
      else let uid = i64_add (ms_nextID m) 1;
               u = \<lparr>us_ID = uid, us_Email = email, us_PasswordHash = passwordHash, us_TOTPSecret = [], us_TOTPEnabled = False,
                    us_Status = ''active'', us_IsAdmin = False\<rparr>
           in (m\<lparr>ms_nextID := uid, ms_users := (ms_users m)(uid \<mapsto> u), ms_byEmail := (ms_byEmail m)(email \<mapsto> uid)\<rparr>, Inr u))"

definition MemStore_UserByEmail :: "string \<Rightarrow> MemStore \<Rightarrow> MemStore \<times> (account_error + User)" where
  "MemStore_UserByEmail email m =
     (m, case ms_byEmail m email of None \<Rightarrow> Inl ErrAccountNotFound
         | Some uid \<Rightarrow> (case ms_users m uid of None \<Rightarrow> Inl ErrNilUser | Some u \<Rightarrow> Inr u))"

definition MemStore_SetAdmin :: "int64 \<Rightarrow> MemStore \<Rightarrow> MemStore \<times> (account_error + unit)" where
  "MemStore_SetAdmin userID m =
     (case ms_users m userID of None \<Rightarrow> (m, Inl ErrAccountNotFound)
      | Some u \<Rightarrow> (m\<lparr>ms_users := (ms_users m)(userID \<mapsto> u\<lparr>us_IsAdmin := True\<rparr>)\<rparr>, Inr ()))"

definition MemStore_UserByID :: "int64 \<Rightarrow> MemStore \<Rightarrow> MemStore \<times> (account_error + User)" where
  "MemStore_UserByID uid m = (m, case ms_users m uid of None \<Rightarrow> Inl ErrAccountNotFound | Some u \<Rightarrow> Inr u)"

definition MemStore_SetTOTP :: "int64 \<Rightarrow> string \<Rightarrow> bool \<Rightarrow> MemStore \<Rightarrow> MemStore \<times> (account_error + unit)" where
  "MemStore_SetTOTP userID secret enabled m =
     (case ms_users m userID of None \<Rightarrow> (m, Inl ErrAccountNotFound)
      | Some u \<Rightarrow> (m\<lparr>ms_users := (ms_users m)(userID \<mapsto> u\<lparr>us_TOTPSecret := secret, us_TOTPEnabled := enabled\<rparr>)\<rparr>, Inr ()))"

definition MemStore_CreateSession :: "Session \<Rightarrow> MemStore \<Rightarrow> MemStore \<times> (account_error + unit)" where
  "MemStore_CreateSession se m = (m\<lparr>ms_sessions := (ms_sessions m)(se_TokenHash se \<mapsto> se)\<rparr>, Inr ())"

definition MemStore_SessionByTokenHash :: "string \<Rightarrow> MemStore \<Rightarrow> MemStore \<times> (account_error + Session)" where
  "MemStore_SessionByTokenHash tokenHash m = (m, case ms_sessions m tokenHash of None \<Rightarrow> Inl ErrAccountNotFound | Some se \<Rightarrow> Inr se)"

definition MemStore_DeleteSession :: "string \<Rightarrow> MemStore \<Rightarrow> MemStore \<times> (account_error + unit)" where
  "MemStore_DeleteSession tokenHash m = (m\<lparr>ms_sessions := (ms_sessions m)(tokenHash := None)\<rparr>, Inr ())"

definition MemStore_CreateAPIKey :: "APIKey \<Rightarrow> MemStore \<Rightarrow> MemStore \<times> (account_error + unit)" where
  "MemStore_CreateAPIKey k m = (m\<lparr>ms_apiKeys := AList.update (ak_KeyID k) k (ms_apiKeys m)\<rparr>, Inr ())"

definition MemStore_APIKeysByUser :: "int64 \<Rightarrow> MemStore \<Rightarrow> MemStore \<times> (account_error + APIKey list)" where
  "MemStore_APIKeysByUser userID m = (m, Inr (filter (\<lambda>k. ak_UserID k = userID) (map snd (ms_apiKeys m))))"

definition MemStore_APIKeyByID :: "string \<Rightarrow> MemStore \<Rightarrow> MemStore \<times> (account_error + APIKey)" where
  "MemStore_APIKeyByID keyID m = (m, case map_of (ms_apiKeys m) keyID of None \<Rightarrow> Inl ErrAccountNotFound | Some k \<Rightarrow> Inr k)"

definition mem :: "MemStore Store" where
  "mem = \<lparr>st_CreateUser = MemStore_CreateUser, st_UserByEmail = MemStore_UserByEmail, st_UserByID = MemStore_UserByID,
     st_SetTOTP = MemStore_SetTOTP, st_CreateSession = MemStore_CreateSession, st_SessionByTokenHash = MemStore_SessionByTokenHash,
     st_DeleteSession = MemStore_DeleteSession, st_CreateAPIKey = MemStore_CreateAPIKey, st_APIKeysByUser = MemStore_APIKeysByUser,
     st_APIKeyByID = MemStore_APIKeyByID\<rparr>"

end
