(* ===== verification/AccountStore.thy ===== *)
theory AccountStore
  imports Account
begin

text \<open>
  The contract of an account store as a locale, what the service guarantees over every such store, and
  the in-memory store as an instance.
\<close>

section \<open>The contract of a store\<close>

text \<open>
  A store holds users by id, sessions by token hash and API keys by key id. Emails are unique.
  \<open>room\<close> says that an id is left for one more user.
\<close>

locale account_store =
  fixes S :: "'s Store"
    and sinv :: "'s \<Rightarrow> bool" and room :: "'s \<Rightarrow> bool"
    and users :: "'s \<Rightarrow> int64 \<rightharpoonup> User" and sessions :: "'s \<Rightarrow> string \<rightharpoonup> Session" and keys :: "'s \<Rightarrow> string \<rightharpoonup> APIKey"
  assumes user_id: "sinv s \<Longrightarrow> users s i = Some u \<Longrightarrow> us_ID u = i"
    and email_unique: "sinv s \<Longrightarrow> users s i = Some u \<Longrightarrow> users s j = Some v \<Longrightarrow> us_Email u = us_Email v \<Longrightarrow> i = j"
    and by_id: "sinv s \<Longrightarrow> st_UserByID S i s = (s, case users s i of None \<Rightarrow> Inl ErrAccountNotFound | Some u \<Rightarrow> Inr u)"
    and by_email: "sinv s \<Longrightarrow> \<exists>r. st_UserByEmail S e s = (s, r) \<and> (case r of Inl err \<Rightarrow> \<forall>i u. users s i = Some u \<longrightarrow> us_Email u \<noteq> e
        | Inr u \<Rightarrow> us_Email u = e \<and> users s (us_ID u) = Some u)"
    and create_user: "sinv s \<Longrightarrow> room s \<Longrightarrow> \<exists>s' r. st_CreateUser S e h s = (s', r) \<and> sinv s' \<and> sessions s' = sessions s \<and> keys s' = keys s
      \<and> (case r of Inl err \<Rightarrow> err = ErrEmailTaken \<and> s' = s \<and> (\<exists>i u. users s i = Some u \<and> us_Email u = e)
         | Inr u \<Rightarrow> us_Email u = e \<and> us_PasswordHash u = h \<and> \<not> us_TOTPEnabled u \<and> \<not> us_IsAdmin u
             \<and> (\<forall>i v. users s i = Some v \<longrightarrow> us_Email v \<noteq> e) \<and> users s (us_ID u) = None \<and> users s' = (users s)(us_ID u \<mapsto> u))"
    and set_totp: "sinv s \<Longrightarrow> \<exists>s' r. st_SetTOTP S i sec b s = (s', r) \<and> sinv s' \<and> sessions s' = sessions s \<and> keys s' = keys s
      \<and> (case users s i of None \<Rightarrow> r = Inl ErrAccountNotFound \<and> s' = s
         | Some u \<Rightarrow> r = Inr () \<and> users s' = (users s)(i \<mapsto> u\<lparr>us_TOTPSecret := sec, us_TOTPEnabled := b\<rparr>))"
    and create_session: "sinv s \<Longrightarrow> \<exists>s'. st_CreateSession S se s = (s', Inr ()) \<and> sinv s' \<and> users s' = users s \<and> keys s' = keys s
      \<and> sessions s' = (sessions s)(se_TokenHash se \<mapsto> se)"
    and session_by: "sinv s \<Longrightarrow> st_SessionByTokenHash S h s = (s, case sessions s h of None \<Rightarrow> Inl ErrAccountNotFound | Some se \<Rightarrow> Inr se)"
    and delete_session: "sinv s \<Longrightarrow> \<exists>s'. st_DeleteSession S h s = (s', Inr ()) \<and> sinv s' \<and> users s' = users s \<and> keys s' = keys s
      \<and> sessions s' = (sessions s)(h := None)"
    and create_key: "sinv s \<Longrightarrow> \<exists>s'. st_CreateAPIKey S k s = (s', Inr ()) \<and> sinv s' \<and> users s' = users s \<and> sessions s' = sessions s
      \<and> keys s' = (keys s)(ak_KeyID k \<mapsto> k)"
    and key_by_id: "sinv s \<Longrightarrow> st_APIKeyByID S kid s = (s, case keys s kid of None \<Rightarrow> Inl ErrAccountNotFound | Some k \<Rightarrow> Inr k)"
    and keys_by_user: "sinv s \<Longrightarrow> \<exists>ks. st_APIKeysByUser S i s = (s, Inr ks) \<and> distinct ks
      \<and> set ks = {k. \<exists>kid. keys s kid = Some k \<and> ak_UserID k = i}"
begin

text \<open>What a successful login has checked, and what it leaves.\<close>

lemma Login_success:
  assumes "sinv s" "Login prm txt S now now2 rnd email password code s = (s', Inr (token, u))"
  shows "users s (us_ID u) = Some u \<and> us_Email u = ToLower txt (TrimSpace txt email)
    \<and> VerifyPassword prm password (us_PasswordHash u) = Inr ()
    \<and> (us_TOTPEnabled u \<longrightarrow> code \<noteq> [] \<and> VerifyTOTP prm (us_TOTPSecret u) code now)
    \<and> sinv s' \<and> users s' = users s \<and> keys s' = keys s
    \<and> sessions s' = (sessions s)(HashSecret prm token \<mapsto> \<lparr>se_TokenHash = HashSecret prm token, se_UserID = us_ID u, se_ExpiresAt = now2 + SessionTTL\<rparr>)"
proof -
  let ?e = "ToLower txt (TrimSpace txt email)"
  from by_email [OF assms(1), of ?e] obtain r where r1: "st_UserByEmail S ?e s = (s, r)"
    and c: "case r of Inl err \<Rightarrow> \<forall>i u. users s i = Some u \<longrightarrow> us_Email u \<noteq> ?e
        | Inr u \<Rightarrow> us_Email u = ?e \<and> users s (us_ID u) = Some u" by blast
  have r: "st_UserByEmail S ?e s = (s, r)" "\<And>v. r = Inr v \<Longrightarrow> us_Email v = ?e \<and> users s (us_ID v) = Some v"
    using r1 c by auto
  then obtain v where v: "r = Inr v" using assms(2) by (cases r) (auto simp: Login_def)
  from assms(2) obtain buf where buf: "rnd = Some buf"
    by (cases rnd) (auto simp: Login_def r v lift_auth_def NewSessionToken_def split: sum.splits)
  from create_session [OF assms(1)] obtain s1 where
    s1: "st_CreateSession S \<lparr>se_TokenHash = HashSecret prm (hex_EncodeToString buf), se_UserID = us_ID v, se_ExpiresAt = now2 + SessionTTL\<rparr> s = (s1, Inr ())"
      "sinv s1" "users s1 = users s" "keys s1 = keys s" "sessions s1 = (sessions s)(HashSecret prm (hex_EncodeToString buf) \<mapsto>
        \<lparr>se_TokenHash = HashSecret prm (hex_EncodeToString buf), se_UserID = us_ID v, se_ExpiresAt = now2 + SessionTTL\<rparr>)" by fastforce
  have "VerifyPassword prm password (us_PasswordHash v) = Inr ()" "second_factor prm now code v = Inr ()"
    using assms(2) by (auto simp: Login_def r v split: sum.splits)
  moreover from this have "s' = s1" "token = hex_EncodeToString buf" "u = v"
    using assms(2) s1(1) by (auto simp: Login_def r v buf lift_auth_def NewSessionToken_def Let_def)
  ultimately show ?thesis using r(2) [OF v] s1 by (auto simp: second_factor_def split: if_splits)
qed

lemma Authenticate_result:
  assumes "sinv s"
  shows "snd (Authenticate prm S now token s) =
    (case sessions s (HashSecret prm token) of
       None \<Rightarrow> Inl ErrInvalidCredentials
     | Some se \<Rightarrow> if now > se_ExpiresAt se then Inl ErrInvalidCredentials
         else (case users s (se_UserID se) of None \<Rightarrow> Inl ErrAccountNotFound | Some u \<Rightarrow> Inr u))"
  by (simp add: Authenticate_def session_by [OF assms] by_id [OF assms] split: option.split)

lemma VerifyAPIRequest_result:
  assumes "sinv s"
  shows "VerifyAPIRequest prm S (Some ck) now kid sig ms method path body s = (s,
    case keys s kid of None \<Rightarrow> Inl ErrInvalidCredentials
    | Some k \<Rightarrow> if ak_Disabled k then Inl ErrInvalidCredentials
        else (case Decrypt prm ck (ak_SecretEnc k) of Inl _ \<Rightarrow> Inl ErrInvalidCredentials
              | Inr secret \<Rightarrow> if \<not> VerifyRequest prm secret sig ms method path body now then Inl ErrInvalidCredentials
                  else (case users s (ak_UserID k) of None \<Rightarrow> Inl ErrAccountNotFound | Some u \<Rightarrow> Inr u)))"
  by (simp add: VerifyAPIRequest_def key_by_id [OF assms] by_id [OF assms] split: option.split sum.split)

lemma CreateAPIKey_success:
  assumes "sinv s" "CreateAPIKey prm S (Some ck) (Some buf) (Some nonce) uid label s = (s', Inr (kid, secret))"
  shows "sinv s' \<and> users s' = users s \<and> sessions s' = sessions s \<and> secret = hex_EncodeToString (drop 16 buf)
    \<and> (\<exists>enc. Encrypt prm ck (Some nonce) secret = Inr enc \<and> keys s' = (keys s)(kid \<mapsto>
         \<lparr>ak_KeyID = kid, ak_UserID = uid, ak_SecretHash = HashSecret prm secret, ak_SecretEnc = enc, ak_Label = label, ak_Disabled = False\<rparr>))"
proof -
  let ?kid = "''bk_'' @ hex_EncodeToString (take 16 buf)" and ?sec = "hex_EncodeToString (drop 16 buf)"
  obtain enc where enc: "Encrypt prm ck (Some nonce) ?sec = Inr enc" by (simp add: Encrypt_def)
  let ?k = "\<lparr>ak_KeyID = ?kid, ak_UserID = uid, ak_SecretHash = HashSecret prm ?sec, ak_SecretEnc = enc, ak_Label = label, ak_Disabled = False\<rparr>"
  from create_key [OF assms(1), of ?k] obtain s1 where s1: "st_CreateAPIKey S ?k s = (s1, Inr ())" "sinv s1" "users s1 = users s"
    "sessions s1 = sessions s" "keys s1 = (keys s)(?kid \<mapsto> ?k)" by auto
  have "CreateAPIKey prm S (Some ck) (Some buf) (Some nonce) uid label s = (s1, Inr (?kid, ?sec))"
    using s1(1) by (simp add: CreateAPIKey_def NewAPIKey_def lift_auth_def Let_def enc del: append.simps)
  with assms(2) s1 enc show ?thesis by auto
qed

end

definition mem_inv :: "MemStore \<Rightarrow> bool" where
  "mem_inv m \<longleftrightarrow> 0 \<le> ms_nextID m \<and> ms_nextID m \<le> max_int64
     \<and> (\<forall>i u. ms_users m i = Some u \<longrightarrow> us_ID u = i \<and> 0 \<le> i \<and> i \<le> ms_nextID m \<and> ms_byEmail m (us_Email u) = Some i)
     \<and> (\<forall>e i. ms_byEmail m e = Some i \<longrightarrow> (\<exists>u. ms_users m i = Some u \<and> us_Email u = e))
     \<and> distinct (map fst (ms_apiKeys m)) \<and> (\<forall>kid k. map_of (ms_apiKeys m) kid = Some k \<longrightarrow> ak_KeyID k = kid)"

lemma mem_invD:
  assumes "mem_inv m"
  shows "ms_users m i = Some u \<Longrightarrow> us_ID u = i" "ms_users m i = Some u \<Longrightarrow> ms_byEmail m (us_Email u) = Some i"
    "ms_byEmail m e = Some i \<Longrightarrow> \<exists>u. ms_users m i = Some u \<and> us_Email u = e" "ms_users m i = Some u \<Longrightarrow> i \<le> ms_nextID m"
    "ms_users m i = Some u \<Longrightarrow> in_int64 i"
  using assms unfolding mem_inv_def in_int64_def by (blast, blast, blast, blast, fastforce)

definition mem_room :: "MemStore \<Rightarrow> bool" where "mem_room m \<longleftrightarrow> ms_nextID m < max_int64"

definition mem_keys :: "MemStore \<Rightarrow> string \<rightharpoonup> APIKey" where "mem_keys m = map_of (ms_apiKeys m)"

lemma mem_create_user:
  assumes "mem_inv m" "mem_room m"
  shows "\<exists>m' r. MemStore_CreateUser e h m = (m', r) \<and> mem_inv m' \<and> ms_sessions m' = ms_sessions m \<and> mem_keys m' = mem_keys m
      \<and> (case r of Inl err \<Rightarrow> err = ErrEmailTaken \<and> m' = m \<and> (\<exists>i u. ms_users m i = Some u \<and> us_Email u = e)
         | Inr u \<Rightarrow> us_Email u = e \<and> us_PasswordHash u = h \<and> \<not> us_TOTPEnabled u \<and> \<not> us_IsAdmin u
             \<and> (\<forall>i v. ms_users m i = Some v \<longrightarrow> us_Email v \<noteq> e) \<and> ms_users m (us_ID u) = None
             \<and> ms_users m' = (ms_users m)(us_ID u \<mapsto> u))"
proof (cases "ms_byEmail m e")
  case (Some i)
  then obtain u where "ms_users m i = Some u" "us_Email u = e" using mem_invD(3) [OF assms(1)] by blast
  with Some assms(1) show ?thesis by (auto simp: MemStore_CreateUser_def)
next
  case None
  have id: "i64_add (ms_nextID m) 1 = ms_nextID m + 1"
    using assms by (simp add: i64_add_def mem_inv_def mem_room_def in_int64_def)
  have fresh: "ms_users m (ms_nextID m + 1) = None"
    using mem_invD(4) [OF assms(1), of "ms_nextID m + 1"] by (cases "ms_users m (ms_nextID m + 1)") auto
  have email: "\<forall>i v. ms_users m i = Some v \<longrightarrow> us_Email v \<noteq> e" using None mem_invD(2) [OF assms(1)] by fastforce
  let ?u = "\<lparr>us_ID = ms_nextID m + 1, us_Email = e, us_PasswordHash = h, us_TOTPSecret = [], us_TOTPEnabled = False,
                    us_Status = ''active'', us_IsAdmin = False\<rparr>"
  let ?m = "m\<lparr>ms_nextID := ms_nextID m + 1, ms_users := (ms_users m)(ms_nextID m + 1 \<mapsto> ?u), ms_byEmail := (ms_byEmail m)(e \<mapsto> ms_nextID m + 1)\<rparr>"
  have run: "MemStore_CreateUser e h m = (?m, Inr ?u)" using None id by (simp add: MemStore_CreateUser_def Let_def)
  have "mem_inv ?m" using assms fresh email None unfolding mem_inv_def mem_room_def by force
  with run fresh email show ?thesis by (simp add: mem_keys_def)
qed

lemma mem_set_totp:
  assumes "mem_inv m"
  shows "\<exists>m' r. MemStore_SetTOTP i sec b m = (m', r) \<and> mem_inv m' \<and> ms_sessions m' = ms_sessions m \<and> mem_keys m' = mem_keys m
      \<and> (case ms_users m i of None \<Rightarrow> r = Inl ErrAccountNotFound \<and> m' = m
         | Some u \<Rightarrow> r = Inr () \<and> ms_users m' = (ms_users m)(i \<mapsto> u\<lparr>us_TOTPSecret := sec, us_TOTPEnabled := b\<rparr>))"
proof (cases "ms_users m i")
  case None
  with assms show ?thesis by (simp add: MemStore_SetTOTP_def)
next
  case (Some u)
  let ?u = "u\<lparr>us_TOTPSecret := sec, us_TOTPEnabled := b\<rparr>"
  have "mem_inv (m\<lparr>ms_users := (ms_users m)(i \<mapsto> ?u)\<rparr>)"
    using assms Some mem_invD [OF assms] unfolding mem_inv_def by (simp, metis option.inject)
  with Some show ?thesis by (simp add: MemStore_SetTOTP_def mem_keys_def)
qed

interpretation mem: account_store mem mem_inv mem_room ms_users ms_sessions mem_keys
proof (unfold_locales, goal_cases)
  case (2 s i u j v)
  then show ?case using mem_invD(2) by (metis option.inject)
next
  case (4 s e)
  then show ?case using mem_invD [OF 4] by (fastforce simp: mem_def MemStore_UserByEmail_def split: option.split sum.split)
next
  case (5 s e h)
  then show ?case by (simp add: mem_def mem_create_user)
next
  case (6 s i sec b)
  then show ?case by (simp add: mem_def mem_set_totp)
next
  case (10 s k)
  then show ?case
    by (auto simp: mem_def MemStore_CreateAPIKey_def mem_inv_def mem_keys_def update_conv' distinct_update split: if_splits)
next
  case (12 s i)
  have d: "distinct (map snd (ms_apiKeys s))"
  proof -
    have "inj_on snd (set (ms_apiKeys s))"
    proof (rule inj_onI)
      fix x y assume xy: "x \<in> set (ms_apiKeys s)" "y \<in> set (ms_apiKeys s)" "snd x = snd y"
      have "map_of (ms_apiKeys s) (fst z) = Some (snd z)" if "z \<in> set (ms_apiKeys s)" for z
        by (rule map_of_is_SomeI) (use 12 that in \<open>simp_all add: mem_inv_def\<close>)
      from this [OF xy(1)] this [OF xy(2)] have "fst x = fst y" using 12 xy(3) unfolding mem_inv_def by metis
      with xy(3) show "x = y" by (simp add: prod_eq_iff)
    qed
    then show ?thesis using 12 by (simp add: mem_inv_def distinct_map)
  qed
  have m: "map_of (ms_apiKeys s) kid = Some k \<longleftrightarrow> (kid, k) \<in> set (ms_apiKeys s)" for kid k
    by (rule map_of_eq_Some_iff) (use 12 in \<open>simp add: mem_inv_def\<close>)
  have "set (filter (\<lambda>k. ak_UserID k = i) (map snd (ms_apiKeys s))) = {k. \<exists>kid. map_of (ms_apiKeys s) kid = Some k \<and> ak_UserID k = i}"
    unfolding m by force
  with d show ?case by (simp add: mem_def MemStore_APIKeysByUser_def mem_keys_def)
qed (auto simp: mem_def mem_keys_def MemStore_UserByID_def MemStore_CreateSession_def mem_inv_def
  MemStore_SessionByTokenHash_def MemStore_DeleteSession_def MemStore_APIKeyByID_def split: option.split)

end
