(* ===== verification/AuthProps.thy ===== *)
theory AuthProps
  imports Auth
begin

text \<open>
  Properties of the authentication primitives: a password verifies against its own hash, sealed
  secrets open again, and exactly which signed requests and which codes are accepted.
\<close>

section \<open>Properties of the primitives\<close>

lemma strings_Split_app: "sep \<notin> set a \<Longrightarrow> strings_Split (a @ sep # b) sep = a # strings_Split b sep"
  by (induction a) auto

lemma strings_Split_last: "sep \<notin> set a \<Longrightarrow> strings_Split a sep = [a]"
  by (induction a) auto

lemma scan_lit_app [simp]: "scan_lit a (a @ s) = Some s"
  by (induction a) auto

lemma alphabet64_no_dollar: "CHR ''$'' \<notin> set (RawStd64_EncodeToString b)"
proof -
  have "CHR ''$'' \<notin> set alphabet64" by code_simp
  moreover have "set (RawStd64_EncodeToString b) \<subseteq> set alphabet64"
    using symbols_below(1) [of b] by (auto simp: RawStd64_EncodeToString_def)
  ultimately show ?thesis by blast
qed

lemma HashPassword_verifies:
  assumes "primitives_ok prm"
  shows "\<exists>h. HashPassword prm (Some salt) p = Inr h
    \<and> VerifyPassword prm p h = Inr ()
    \<and> VerifyPassword prm p' h = (if argon2 prm p' salt argonTime argonMemory argonThreads argonKeyLen
                                     = argon2 prm p salt argonTime argonMemory argonThreads argonKeyLen
                                  then Inr () else Inl ErrPasswordMismatch)"
proof -
  let ?key = "argon2 prm p salt argonTime argonMemory argonThreads argonKeyLen"
  let ?s = "RawStd64_EncodeToString salt" and ?k = "RawStd64_EncodeToString ?key"
  have num: "fmt_d argon2_Version = ''19''" "fmt_d (int argonMemory) = ''65536''" "fmt_d (int argonTime) = ''1''" "fmt_d (int argonThreads) = ''4''"
    by (simp_all add: fmt_d_def argonMemory_def argonTime_def argonThreads_def argon2_Version_def dec_digits.simps
        digit_char_def char_of_def bit_0 bit_1_iff)
  let ?h = "''$argon2id$v=19$m=65536,t=1,p=4$'' @ ?s @ ''$'' @ ?k"
  have h: "HashPassword prm (Some salt) p = Inr ?h" by (simp add: HashPassword_def Let_def num)
  have "?h = [] @ CHR ''$'' # (''argon2id'' @ CHR ''$'' # (''v=19'' @ CHR ''$'' # (''m=65536,t=1,p=4'' @ CHR ''$'' # (?s @ CHR ''$'' # ?k))))" by simp
  then have parts: "strings_Split ?h (CHR ''$'') = [[], ''argon2id'', ''v=19'', ''m=65536,t=1,p=4'', ?s, ?k]"
    by (simp only: strings_Split_app strings_Split_last alphabet64_no_dollar) (simp add: strings_Split_app strings_Split_last alphabet64_no_dollar)
  have sv: "scan_version ''v=19'' = Some 19" "scan_params ''m=65536,t=1,p=4'' = Some (argonMemory, argonTime, argonThreads)"
    by (simp_all add: scan_params_def scan_version_def scan_int_def scan_uint_def scan_digits_def is_blank_def is_digit_def
        dec_val_def digit_val_def argonMemory_def argonTime_def argonThreads_def in_int64_def)
  have len: "length ?key = argonKeyLen" using assms by (simp add: primitives_ok_def)
  have "VerifyPassword prm q ?h = (if argon2 prm q salt argonTime argonMemory argonThreads argonKeyLen = ?key then Inr () else Inl ErrPasswordMismatch)" for q
    unfolding VerifyPassword_def Let_def parts by (simp add: sv RawStd64_roundtrip len)
  with h show ?thesis by (intro exI [of _ ?h]) simp
qed

text \<open>C31: Password hashes round-trip. A hash made by \<open>HashPassword\<close> is never rejected as malformed, and
  verifying a password against it succeeds exactly when argon2 derives the same key from it with the
  stored salt; the password that was hashed always verifies.\<close>

theorem password_roundtrip:
  assumes "primitives_ok prm"
  shows "\<exists>h. HashPassword prm (Some salt) p = Inr h
    \<and> VerifyPassword prm p h = Inr ()
    \<and> VerifyPassword prm p' h = (if argon2 prm p' salt argonTime argonMemory argonThreads argonKeyLen
                                     = argon2 prm p salt argonTime argonMemory argonThreads argonKeyLen
                                  then Inr () else Inl ErrPasswordMismatch)"
  using assms by (rule HashPassword_verifies)

definition demo_prm :: primitives where
  "demo_prm = \<lparr>sha256 = (\<lambda>s. ''h'' @ s), hmac_sha256 = (\<lambda>k m. k @ ''|'' @ m),
     hmac_sha1 = (\<lambda>k m. take 20 (m @ k @ replicate 20 (CHR ''x''))), argon2 = (\<lambda>p s t m th n. take n (p @ s @ replicate n (CHR ''x''))),
     seal = (\<lambda>k n p. rev p), aead_open = (\<lambda>k n c. Some (rev c))\<rparr>"

lemma demo_prm_ok: "primitives_ok demo_prm"
  by (auto simp: primitives_ok_def demo_prm_def min_def)

theorem password_roundtrip_witness:
  "\<exists>h. HashPassword demo_prm (Some ''salt'') ''correct horse'' = Inr h \<and> VerifyPassword demo_prm ''correct horse'' h = Inr ()"
  using password_roundtrip [OF demo_prm_ok, of "''salt''" "''correct horse''"] by blast

text \<open>Encrypted secrets are recovered: decrypting what \<open>Encrypt\<close> returned, under the same key and
  whatever the nonce, gives the plaintext back.\<close>

theorem cipher_roundtrip:
  assumes "primitives_ok prm" "length nonce = NonceSize"
  shows "\<exists>enc. Encrypt prm key (Some nonce) pt = Inr enc \<and> Decrypt prm key enc = Inr pt"
  using assms by (simp add: Encrypt_def Decrypt_def Std64_roundtrip primitives_ok_def)

theorem cipher_roundtrip_witness:
  "\<exists>enc. Encrypt demo_prm ''k'' (Some ''noncenonce12'') ''secret'' = Inr enc \<and> Decrypt demo_prm ''k'' enc = Inr ''secret''"
  by (rule cipher_roundtrip [OF demo_prm_ok]) (simp add: NonceSize_def)

text \<open>C32: What a request signature covers. A signed request is accepted exactly when its timestamp is
  within 30 seconds of the server's clock on either side and the signature is the MAC of its payload;
  and the payload determines timestamp, method, path and body, provided method and path contain no
  newline, so no other request has it.\<close>

lemma split_newline:
  assumes "c \<notin> set a" "c \<notin> set a'" "a @ c # b = a' @ c # b'"
  shows "a = a' \<and> b = b'"
  using assms
proof (induction a arbitrary: a')
  case Nil
  then show ?case by (cases a') auto
next
  case (Cons x a)
  then show ?case by (cases a') auto
qed

lemma fmt_d_no_newline: "char_of (10 :: nat) \<notin> set (fmt_d x)"
proof -
  have "\<not> is_digit (char_of (10 :: nat))" "char_of (10 :: nat) \<noteq> CHR ''-''" by code_simp+
  then show ?thesis using dec_digits_digit by (auto simp: fmt_d_def)
qed

theorem VerifyRequest_exact:
  assumes "char_of (10 :: nat) \<notin> set method" "char_of (10 :: nat) \<notin> set path"
    and "char_of (10 :: nat) \<notin> set method'" "char_of (10 :: nat) \<notin> set path'"
  shows "(VerifyRequest prm secret sig ms method path body now \<longleftrightarrow> \<bar>now - ms * 10 ^ 6\<bar> \<le> 30 * 10 ^ 9
      \<and> sig = hex_EncodeToString (hmac_sha256 prm secret (sign_payload ms method path body)))
    \<and> (sign_payload ms method path body = sign_payload ms' method' path' body' \<longleftrightarrow>
        ms = ms' \<and> method = method' \<and> path = path' \<and> body = body')"
proof
  have "UnixMilli (ms * 10 ^ 6) = ms" by (simp add: UnixMilli_def)
  then show "VerifyRequest prm secret sig ms method path body now \<longleftrightarrow> \<bar>now - ms * 10 ^ 6\<bar> \<le> 30 * 10 ^ 9
      \<and> sig = hex_EncodeToString (hmac_sha256 prm secret (sign_payload ms method path body))"
    by (auto simp: VerifyRequest_def SignRequest_def time_Sub_def SignatureWindow_def second_def Let_def)
  show "sign_payload ms method path body = sign_payload ms' method' path' body' \<longleftrightarrow>
        ms = ms' \<and> method = method' \<and> path = path' \<and> body = body'" (is "?l \<longleftrightarrow> ?r")
  proof
    let ?n = "char_of (10 :: nat) :: char"
    assume ?l
    then have "fmt_d ms @ ?n # (method @ ?n # (path @ ?n # body)) = fmt_d ms' @ ?n # (method' @ ?n # (path' @ ?n # body'))"
      by (simp add: sign_payload_def)
    from split_newline [OF fmt_d_no_newline fmt_d_no_newline this] have 1: "fmt_d ms = fmt_d ms'"
      "method @ ?n # (path @ ?n # body) = method' @ ?n # (path' @ ?n # body')" by simp_all
    from split_newline [OF assms(1,3) 1(2)] have 2: "method = method'" "path @ ?n # body = path' @ ?n # body'" by simp_all
    from split_newline [OF assms(2,4) 2(2)] 1(1) 2(1) show ?r by simp
  qed simp
qed

theorem VerifyRequest_exact_witness:
  "VerifyRequest demo_prm ''s'' (SignRequest demo_prm ''s'' 1000000000 ''GET'' ''/v1'' []) 1000 ''GET'' ''/v1'' [] 30000000000
   \<and> \<not> VerifyRequest demo_prm ''s'' (SignRequest demo_prm ''s'' 1000000000 ''GET'' ''/v1'' []) 1000 ''GET'' ''/v1'' [] 31000000001"
proof -
  have n: "char_of (10 :: nat) \<notin> set ''GET''" "char_of (10 :: nat) \<notin> set ''/v1''" by code_simp+
  note e = VerifyRequest_exact [OF n n, of demo_prm "''s''" _ 1000 "[]"]
  show ?thesis using e [THEN conjunct1] by (simp add: SignRequest_def UnixMilli_def)
qed

section \<open>One-time codes\<close>

definition hotp :: "primitives \<Rightarrow> string \<Rightarrow> nat \<Rightarrow> string" where
  "hotp prm key c = fmt_0d 6 (int (totp_truncate (hmac_sha1 prm key (be_bytes 8 c)) mod 1000000))"

lemma TOTPCode_hotp: "Base32_DecodeString secret = Some key \<Longrightarrow> TOTPCode prm secret t = Inr (hotp prm key (totp_counter t))"
  by (simp add: TOTPCode_def hotp_def totpDigits_def)

lemma hotp_digits: "length (hotp prm key c) = 6 \<and> (\<forall>x \<in> set (hotp prm key c). is_digit x)"
proof -
  have f: "fmt_0d 6 (int n) = zero_pad 6 (dec_digits n)" for n by (simp add: fmt_0d_def)
  show ?thesis unfolding hotp_def f
    using zero_pad_props [of 6 "totp_truncate (hmac_sha1 prm key (be_bytes 8 c)) mod 1000000"] by simp
qed



end
