(* ===== verification/AccountProps.thy ===== *)
theory AccountProps
  imports AccountStore AuthProps
begin

text \<open>
  Runs of account operations on the in-memory store and the properties of the account service.
\<close>

section \<open>Sequences of account operations\<close>

datatype account_op =
    ASignup "string option" string string
  | ALogin time time "string option" string string string
  | AAuthenticate time string
  | ASetupTOTP "string option" int64
  | AConfirmTOTP time int64 string
  | ACreateKey "string option" "string option" int64 string
  | ASetAdmin int64

fun account_exec :: "primitives \<Rightarrow> text_lib \<Rightarrow> string option \<Rightarrow> account_op \<Rightarrow> MemStore \<Rightarrow> MemStore" where
  "account_exec prm txt ck (ASignup rnd e p) m = fst (Signup prm txt mem rnd e p m)"
| "account_exec prm txt ck (ALogin now now2 rnd e p c) m = fst (Login prm txt mem now now2 rnd e p c m)"
| "account_exec prm txt ck (AAuthenticate now tok) m = fst (Authenticate prm mem now tok m)"
| "account_exec prm txt ck (ASetupTOTP rnd i) m = fst (SetupTOTP txt mem rnd i m)"
| "account_exec prm txt ck (AConfirmTOTP now i c) m = fst (ConfirmTOTP prm mem now i c m)"
| "account_exec prm txt ck (ACreateKey r1 r2 i l) m = fst (CreateAPIKey prm mem ck r1 r2 i l m)"
| "account_exec prm txt ck (ASetAdmin i) m = fst (MemStore_SetAdmin i m)"

fun account_run :: "primitives \<Rightarrow> text_lib \<Rightarrow> string option \<Rightarrow> account_op list \<Rightarrow> MemStore \<Rightarrow> MemStore" where
  "account_run prm txt ck [] m = m"
| "account_run prm txt ck (x # xs) m = account_run prm txt ck xs (account_exec prm txt ck x m)"

text \<open>Ids are handed out one by one, so a run of \<open>n\<close> operations uses at most \<open>n\<close> of them.\<close>

definition mem_upto :: "nat \<Rightarrow> MemStore \<Rightarrow> bool" where
  "mem_upto n m \<longleftrightarrow> mem_inv m \<and> ms_nextID m \<le> int n"

text \<open>
  What an operation keeps of the store follows from what the store's writes keep: every operation
  makes at most one write that may take \<open>P\<close> to \<open>Q\<close>, and the check of a session only deletes.
\<close>

locale store_kept =
  fixes P Q :: "MemStore \<Rightarrow> bool"
  assumes weaken: "P m \<Longrightarrow> Q m"
    and delete_session: "P m \<Longrightarrow> P (fst (MemStore_DeleteSession h m))"
    and create_user: "P m \<Longrightarrow> Q (fst (MemStore_CreateUser e h m))"
    and set_totp: "P m \<Longrightarrow> Q (fst (MemStore_SetTOTP i sec b m))"
    and create_session: "P m \<Longrightarrow> Q (fst (MemStore_CreateSession se m))"
    and create_key: "P m \<Longrightarrow> Q (fst (MemStore_CreateAPIKey k m))"
begin

lemma kept_read: "(\<And>s. fst (f s) = s) \<Longrightarrow> hoare P f (\<lambda>_. P) Q"
  unfolding hoare_def using weaken by (auto split: sum.split) (metis fst_conv)+

lemma kept_write: "(\<And>s. P s \<Longrightarrow> Q (fst (f s))) \<Longrightarrow> hoare P f (\<lambda>_. Q) Q"
  unfolding hoare_def by (auto split: sum.split) (metis fst_conv)+

lemma kept_fst: "hoare P f (\<lambda>_. Q) Q \<Longrightarrow> P m \<Longrightarrow> Q (fst (f m))"
  by (cases "f m") (auto dest!: hoareD split: sum.splits)

lemma kept_return: "hoare Q (\<lambda>s. (s, r)) (\<lambda>_. Q) Q" "hoare P (\<lambda>s. (s, r)) (\<lambda>_. Q) Q"
  using weaken by (auto simp: hoare_def split: sum.split)

lemma kept_ops:
  "hoare P (st_UserByID mem i) (\<lambda>_. P) Q" "hoare P (lift_auth r) (\<lambda>_. P) Q" "hoare P (st_SetTOTP mem i sec b) (\<lambda>_. Q) Q"
  "hoare P (st_CreateSession mem se) (\<lambda>_. Q) Q" "hoare P (st_CreateAPIKey mem k) (\<lambda>_. Q) Q" "hoare P (st_CreateUser mem e h) (\<lambda>_. Q) Q"
  by (rule kept_read kept_write, simp add: mem_def MemStore_UserByID_def lift_auth_def split: sum.split;
      auto simp: mem_def intro: set_totp create_session create_key create_user)+

lemma Authenticate_kept: "P m \<Longrightarrow> P (fst (Authenticate prm mem now tok m))"
  using delete_session by (auto simp: Authenticate_def mem_def MemStore_SessionByTokenHash_def MemStore_UserByID_def split: option.splits)

lemma account_exec_kept:
  assumes "P m" "\<And>i. x \<noteq> ASetAdmin i"
  shows "Q (account_exec prm txt ck x m)"
proof (cases x)
  case (ASignup rnd e p)
  have "hoare P (andThen (lift_auth (HashPassword prm rnd p)) (\<lambda>hash. st_CreateUser mem e' hash)) (\<lambda>_. Q) Q" for e'
    by (rule hoare_andThen, rule kept_ops, rule kept_ops)
  from kept_fst [OF this assms(1)] assms(1) weaken show ?thesis by (simp add: ASignup Signup_def Let_def)
next
  case (ALogin now now2 rnd e p c)
  have "hoare P (andThen (lift_auth (NewSessionToken prm rnd)) (\<lambda>(token, tokenHash).
             andThen (st_CreateSession mem \<lparr>se_TokenHash = tokenHash, se_UserID = us_ID u, se_ExpiresAt = now2 + SessionTTL\<rparr>) (\<lambda>_ s.
               (s, Inr (token, u))))) (\<lambda>_. Q) Q" for u
    by (rule hoare_andThen, rule kept_ops) (auto intro!: hoare_andThen kept_ops kept_return split: prod.split)
  from kept_fst [OF this assms(1)] assms(1) weaken show ?thesis
    by (auto simp: ALogin Login_def mem_def MemStore_UserByEmail_def split: prod.splits sum.splits option.splits)
next
  case (AAuthenticate now tok)
  then show ?thesis using Authenticate_kept [OF assms(1)] weaken by simp
next
  case (ASetupTOTP rnd i)
  have "hoare P (SetupTOTP txt mem rnd i) (\<lambda>_. Q) Q" unfolding SetupTOTP_def
    by (rule hoare_andThen, rule kept_ops, rule hoare_andThen, rule kept_ops, rule hoare_andThen, rule kept_ops, rule kept_return)
  from kept_fst [OF this assms(1)] show ?thesis by (simp add: ASetupTOTP)
next
  case (AConfirmTOTP now i c)
  have "hoare P (ConfirmTOTP prm mem now i c) (\<lambda>_. Q) Q" unfolding ConfirmTOTP_def
    by (rule hoare_andThen, rule kept_ops) (auto intro: kept_ops kept_return)
  from kept_fst [OF this assms(1)] show ?thesis by (simp add: AConfirmTOTP)
next
  case (ACreateKey r1 r2 i l)
  show ?thesis
  proof (cases ck)
    case (Some c)
    have "hoare P (CreateAPIKey prm mem ck r1 r2 i l) (\<lambda>_. Q) Q" unfolding CreateAPIKey_def Some option.case
      by (rule hoare_andThen, rule kept_ops) (auto intro!: hoare_andThen kept_ops kept_return split: prod.split)
    from kept_fst [OF this assms(1)] show ?thesis by (simp add: ACreateKey)
  qed (use assms(1) weaken in \<open>simp add: ACreateKey CreateAPIKey_def\<close>)
qed (use assms(2) in simp)

end

lemma CreateUser_upto:
  assumes "mem_upto n m" "int n < max_int64"
  shows "mem_upto (Suc n) (fst (MemStore_CreateUser e h m))"
proof -
  obtain m' r where r: "MemStore_CreateUser e h m = (m', r)" by fastforce
  have "mem_inv m" "mem_room m" using assms by (auto simp: mem_upto_def mem_room_def)
  with mem_create_user [of m e h] r have "mem_inv m'" by auto
  moreover have "ms_nextID m' = ms_nextID m \<or> ms_nextID m' = ms_nextID m + 1"
    using r assms by (auto simp: MemStore_CreateUser_def Let_def i64_add_def in_int64_def mem_upto_def mem_inv_def split: if_splits)
  ultimately show ?thesis using assms(1) r by (auto simp: mem_upto_def)
qed

lemma SetTOTP_upto: "mem_upto n m \<Longrightarrow> mem_upto n (fst (MemStore_SetTOTP i sec b m))"
  using mem.set_totp [of m i sec b] by (auto simp: mem_upto_def mem_def MemStore_SetTOTP_def split: option.splits)

lemma SetAdmin_upto:
  assumes "mem_upto n m"
  shows "mem_upto n (fst (MemStore_SetAdmin i m))"
proof (cases "ms_users m i")
  case (Some u)
  have "mem_inv m" using assms by (simp add: mem_upto_def)
  note i = this mem_invD [OF this]
  have "mem_inv (m\<lparr>ms_users := (ms_users m)(i \<mapsto> u\<lparr>us_IsAdmin := True\<rparr>)\<rparr>)"
    using Some i unfolding mem_inv_def by (simp, metis option.inject)
  then show ?thesis using assms Some by (simp add: MemStore_SetAdmin_def mem_upto_def)
qed (use assms in \<open>simp add: MemStore_SetAdmin_def\<close>)

lemma CreateAPIKey_upto: "mem_upto n m \<Longrightarrow> mem_upto n (fst (MemStore_CreateAPIKey k m))"
  using mem.create_key [of m k] by (auto simp: mem_upto_def mem_def MemStore_CreateAPIKey_def)

lemma session_upto:
  "mem_upto n m \<Longrightarrow> mem_upto n (fst (MemStore_CreateSession se m))" "mem_upto n m \<Longrightarrow> mem_upto n (fst (MemStore_DeleteSession h m))"
  by (auto simp: mem_upto_def mem_inv_def MemStore_CreateSession_def MemStore_DeleteSession_def)

lemma mem_upto_mono: "mem_upto m s \<Longrightarrow> m \<le> n \<Longrightarrow> mem_upto n s"
  by (simp add: mem_upto_def)

interpretation up: store_kept "\<lambda>m. mem_upto n m \<and> int n < max_int64" "mem_upto (Suc n)" for n
  by unfold_locales (auto intro: CreateUser_upto mem_upto_mono [of n] SetTOTP_upto session_upto CreateAPIKey_upto)

lemma account_exec_upto:
  assumes m: "mem_upto n m" and n: "int n < max_int64"
  shows "mem_upto (Suc n) (account_exec prm txt ck x m)"
proof (cases "\<exists>i. x = ASetAdmin i")
  case True
  then show ?thesis using mem_upto_mono [OF SetAdmin_upto [OF m], of "Suc n"] by auto
qed (use assms up.account_exec_kept in blast)

lemma account_run_upto:
  "mem_upto n m \<Longrightarrow> int (n + length xs) \<le> max_int64 \<Longrightarrow> mem_upto (n + length xs) (account_run prm txt ck xs m)"
proof (induction xs arbitrary: n m)
  case (Cons x xs)
  then show ?case using account_exec_upto [OF Cons.prems(1), of prm "txt" ck x] Cons.IH [of "Suc n"] by simp
qed simp

lemma NewMemStore_upto: "mem_upto 0 NewMemStore"
  by (simp add: mem_upto_def mem_inv_def NewMemStore_def)

section \<open>Properties of the account service\<close>

definition demo_text :: text_lib where
  "demo_text = \<lparr>ToLower = (\<lambda>s. s), TrimSpace = (\<lambda>s. s), ParseAddress = (\<lambda>s. CHR ''@'' \<in> set s), PathEscape = (\<lambda>s. s), QueryEscape = (\<lambda>s. s)\<rparr>"

definition demo_accounts :: "account_op list" where
  "demo_accounts = [ASignup (Some ''salt'') ''a@x'' ''password-a'', ASignup (Some ''salt'') ''a@x'' ''password-b'',
     ASignup (Some ''salt'') ''b@x'' ''password-b'']"

definition demo_store :: MemStore where
  "demo_store = account_run demo_prm demo_text None demo_accounts NewMemStore"

definition demo_user :: "int64 \<Rightarrow> string \<Rightarrow> string \<Rightarrow> User" where
  "demo_user i e h = \<lparr>us_ID = i, us_Email = e, us_PasswordHash = h, us_TOTPSecret = [], us_TOTPEnabled = False,
     us_Status = ''active'', us_IsAdmin = False\<rparr>"

lemma Signup_mem:
  "ParseAddress txt (ToLower txt (TrimSpace txt e)) \<Longrightarrow> 10 \<le> length p \<Longrightarrow> HashPassword prm rnd p = Inr h
   \<Longrightarrow> Signup prm txt mem rnd e p m = MemStore_CreateUser (ToLower txt (TrimSpace txt e)) h m"
  by (simp add: Signup_def Let_def lift_auth_def andThen_def mem_def)

lemma CreateUser_fresh:
  "ms_byEmail m e = None \<Longrightarrow> 0 \<le> ms_nextID m \<Longrightarrow> ms_nextID m < 1000 \<Longrightarrow> fst (MemStore_CreateUser e h m) =
     m\<lparr>ms_nextID := ms_nextID m + 1, ms_users := (ms_users m)(ms_nextID m + 1 \<mapsto> demo_user (ms_nextID m + 1) e h),
       ms_byEmail := (ms_byEmail m)(e \<mapsto> ms_nextID m + 1)\<rparr>"
  by (simp add: MemStore_CreateUser_def Let_def i64_add_def in_int64_def demo_user_def)

lemma demo_store_users:
  "\<exists>h1 h2. ms_users demo_store 2 = Some (demo_user 2 ''b@x'' h2) \<and> ms_byEmail demo_store ''a@x'' = Some 1
     \<and> ms_users demo_store 1 = Some (demo_user 1 ''a@x'' h1)
     \<and> VerifyPassword demo_prm ''password-a'' h1 = Inr ()"
proof -
  obtain h1 where h1: "HashPassword demo_prm (Some ''salt'') ''password-a'' = Inr h1" "VerifyPassword demo_prm ''password-a'' h1 = Inr ()"
    using HashPassword_verifies [OF demo_prm_ok] by blast
  obtain h2 where h2: "HashPassword demo_prm (Some ''salt'') ''password-b'' = Inr h2"
    using HashPassword_verifies [OF demo_prm_ok] by blast
  have signup: "Signup demo_prm demo_text mem (Some ''salt'') e p m = MemStore_CreateUser e h m"
    if "CHR ''@'' \<in> set e" "10 \<le> length p" "HashPassword demo_prm (Some ''salt'') p = Inr h" for e p h m
    using Signup_mem [of demo_text e p demo_prm "Some ''salt''" h m] that by (simp add: demo_text_def)
  have taken: "MemStore_CreateUser e h m = (m, Inl ErrEmailTaken)" if "ms_byEmail m e = Some i" for e h m i
    using that by (simp add: MemStore_CreateUser_def)
  let ?m1 = "fst (MemStore_CreateUser ''a@x'' h1 NewMemStore)"
  have m1: "?m1 = NewMemStore\<lparr>ms_nextID := 1, ms_users := [1 \<mapsto> demo_user 1 ''a@x'' h1], ms_byEmail := [''a@x'' \<mapsto> 1]\<rparr>"
    using CreateUser_fresh [of NewMemStore "''a@x''" h1] by (simp add: NewMemStore_def)
  have m2: "MemStore_CreateUser ''a@x'' h2 ?m1 = (?m1, Inl ErrEmailTaken)" by (rule taken [of _ _ 1]) (simp add: m1)
  have "demo_store = fst (MemStore_CreateUser ''b@x'' h2 ?m1)"
    unfolding demo_store_def demo_accounts_def account_run.simps account_exec.simps
    by (simp add: signup [OF _ _ h1(1)] signup [OF _ _ h2] m2)
  also have "\<dots> = ?m1\<lparr>ms_nextID := 2, ms_users := (ms_users ?m1)(2 \<mapsto> demo_user 2 ''b@x'' h2), ms_byEmail := (ms_byEmail ?m1)(''b@x'' \<mapsto> 2)\<rparr>"
    using CreateUser_fresh [of ?m1 "''b@x''" h2] unfolding m1 by (simp add: NewMemStore_def)
  finally have store: "demo_store = \<dots>" .
  have "ms_users demo_store 2 = Some (demo_user 2 ''b@x'' h2) \<and> ms_byEmail demo_store ''a@x'' = Some 1
     \<and> ms_users demo_store 1 = Some (demo_user 1 ''a@x'' h1)" unfolding store m1 by simp
  with h1(2) show ?thesis by metis
qed

lemma demo_store_inv: "mem_inv demo_store"
  using account_run_upto [OF NewMemStore_upto, of demo_accounts demo_prm demo_text None]
  by (simp add: mem_upto_def demo_store_def demo_accounts_def)

text \<open>Accounts stay consistent. After any sequence of account operations on an empty in-memory store
  (fewer than \<open>2^63\<close> of them), every user is stored under its own id, no two users share an email,
  and looking an email up never runs into a missing user: it finds the user of that email or none
  exists.\<close>

theorem accounts_consistent:
  assumes "int (length xs) \<le> max_int64" "m = account_run prm txt ck xs NewMemStore"
  shows "(\<forall>i u. ms_users m i = Some u \<longrightarrow> us_ID u = i)
    \<and> (\<forall>i u j v. ms_users m i = Some u \<and> ms_users m j = Some v \<and> us_Email u = us_Email v \<longrightarrow> i = j)
    \<and> (case snd (MemStore_UserByEmail e m) of
         Inl err \<Rightarrow> err = ErrAccountNotFound \<and> (\<forall>i u. ms_users m i = Some u \<longrightarrow> us_Email u \<noteq> e)
       | Inr u \<Rightarrow> us_Email u = e \<and> ms_users m (us_ID u) = Some u)"
proof -
  have inv: "mem_inv m" using account_run_upto [OF NewMemStore_upto, of xs prm "txt" ck] assms by (simp add: mem_upto_def)
  have "case snd (MemStore_UserByEmail e m) of
         Inl err \<Rightarrow> err = ErrAccountNotFound \<and> (\<forall>i u. ms_users m i = Some u \<longrightarrow> us_Email u \<noteq> e)
       | Inr u \<Rightarrow> us_Email u = e \<and> ms_users m (us_ID u) = Some u"
    using mem_invD [OF inv] by (fastforce simp: MemStore_UserByEmail_def split: option.split)
  with mem.user_id [OF inv] mem.email_unique [OF inv] show ?thesis by blast
qed

theorem accounts_consistent_witness:
  "\<exists>u. ms_users demo_store 2 = Some u \<and> us_Email u = ''b@x'' \<and> us_ID u = 2"
proof -
  have l: "int (length demo_accounts) \<le> max_int64" by (simp add: demo_accounts_def)
  note t = accounts_consistent [OF l demo_store_def, THEN conjunct1]
  obtain u where "ms_users demo_store 2 = Some u" "us_Email u = ''b@x''"
    using demo_store_users by (metis User.select_convs(2) demo_user_def)
  with spec [OF t, of 2] show ?thesis by blast
qed

text \<open>Sessions. When a login succeeded, the account of that email exists, its password verified, and
  when it has 2FA enabled a valid code was given; and the returned token then authenticates as exactly
  this user until 24 hours have passed, and is refused after that.\<close>

theorem login_session:
  assumes "mem_inv m" "Login prm txt mem now now2 rnd email password code m = (m', Inr (token, u))"
  shows "ms_users m (us_ID u) = Some u \<and> us_Email u = ToLower txt (TrimSpace txt email)
    \<and> VerifyPassword prm password (us_PasswordHash u) = Inr ()
    \<and> (us_TOTPEnabled u \<longrightarrow> VerifyTOTP prm (us_TOTPSecret u) code now)
    \<and> snd (Authenticate prm mem t token m') = (if t \<le> now2 + 24 * 60 * 60 * 10 ^ 9 then Inr u else Inl ErrInvalidCredentials)"
proof -
  note l = mem.Login_success [OF assms]
  from l have inv: "mem_inv m'" and us: "ms_users m' (us_ID u) = Some u" by auto
  from l show ?thesis
    using us by (auto simp: mem.Authenticate_result [OF inv] SessionTTL_def second_def)
qed

theorem login_session_witness:
  "\<exists>m' token u. Login demo_prm demo_text mem 5 5 (Some ''tok'') ''a@x'' ''password-a'' [] demo_store = (m', Inr (token, u))
     \<and> us_Email u = ''a@x'' \<and> snd (Authenticate demo_prm mem 6 token m') = Inr u"
proof -
  obtain h1 where d: "ms_byEmail demo_store ''a@x'' = Some 1" "VerifyPassword demo_prm ''password-a'' h1 = Inr ()"
     "ms_users demo_store 1 = Some (demo_user 1 ''a@x'' h1)" using demo_store_users by metis
  have e: "ToLower demo_text (TrimSpace demo_text s) = s" for s by (simp add: demo_text_def)
  have u: "st_UserByEmail mem ''a@x'' demo_store = (demo_store, Inr (demo_user 1 ''a@x'' h1))"
    by (simp add: mem_def MemStore_UserByEmail_def d)
  have p: "us_PasswordHash (demo_user 1 ''a@x'' h1) = h1" "second_factor demo_prm 5 [] (demo_user 1 ''a@x'' h1) = Inr ()"
    by (simp_all add: demo_user_def second_factor_def)
  obtain m' token where r: "Login demo_prm demo_text mem 5 5 (Some ''tok'') ''a@x'' ''password-a'' [] demo_store
      = (m', Inr (token, demo_user 1 ''a@x'' h1))"
    unfolding Login_def e u prod.case sum.case p d(2)
    by (simp add: lift_auth_def NewSessionToken_def Let_def andThen_def mem_def MemStore_CreateSession_def)
  note t = login_session [OF demo_store_inv r, of 6]
  have "snd (Authenticate demo_prm mem 6 token m') = Inr (demo_user 1 ''a@x'' h1)" using t by simp
  moreover have "us_Email (demo_user 1 ''a@x'' h1) = ''a@x''" by (simp add: demo_user_def)
  ultimately show ?thesis using r by (intro exI conjI)
qed

lemma CreateAPIKey_mem:
  "\<exists>m' kid secret. CreateAPIKey prm mem (Some ck) (Some buf) (Some nonce) uid label m = (m', Inr (kid, secret))"
  unfolding CreateAPIKey_def NewAPIKey_def Encrypt_def lift_auth_def Let_def andThen_def mem_def MemStore_CreateAPIKey_def
  by (simp del: append.simps)

text \<open>C34: API keys. A key that was just created authenticates exactly the requests that are signed with
  the returned secret within the 30-second window, as its owner; without a cipher no request is
  accepted.\<close>

theorem api_key_authenticates:
  assumes "primitives_ok prm" "mem_inv m" "length nonce = NonceSize" "ms_users m uid = Some u"
    and "CreateAPIKey prm mem (Some ck) (Some buf) (Some nonce) uid label m = (m', Inr (kid, secret))"
  shows "snd (VerifyAPIRequest prm mem (Some ck) now kid sig ms method path body m') =
      (if VerifyRequest prm secret sig ms method path body now then Inr u else Inl ErrInvalidCredentials)
    \<and> snd (VerifyAPIRequest prm mem None now kid sig ms method path body m') = Inl ErrAPIKeysDisabled"
proof -
  from mem.CreateAPIKey_success [OF assms(2,5)] obtain enc where c: "mem_inv m'" "ms_users m' = ms_users m"
      "Encrypt prm ck (Some nonce) secret = Inr enc" "mem_keys m' = (mem_keys m)(kid \<mapsto> \<lparr>ak_KeyID = kid, ak_UserID = uid,
        ak_SecretHash = HashSecret prm secret, ak_SecretEnc = enc, ak_Label = label, ak_Disabled = False\<rparr>)" by auto
  have "Decrypt prm ck enc = Inr secret"
    using c(3) assms(1,3) by (auto simp: Encrypt_def Decrypt_def Std64_roundtrip primitives_ok_def)
  with c assms(4) show ?thesis by (simp add: mem.VerifyAPIRequest_result [OF c(1)]) (simp add: VerifyAPIRequest_def)
qed

theorem api_key_authenticates_witness:
  "\<exists>m' kid secret u. CreateAPIKey demo_prm mem (Some ''ck'') (Some ''0123456789abcdefsecret'') (Some ''noncenonce12'') 1 ''bot'' demo_store = (m', Inr (kid, secret))
     \<and> snd (VerifyAPIRequest demo_prm mem (Some ''ck'') 0 kid (SignRequest demo_prm secret 0 ''GET'' ''/'' []) 0 ''GET'' ''/'' [] m') = Inr u"
proof -
  obtain u where u: "ms_users demo_store 1 = Some u" using demo_store_users by metis
  obtain m' kid secret where c: "CreateAPIKey demo_prm mem (Some ''ck'') (Some ''0123456789abcdefsecret'') (Some ''noncenonce12'') 1 ''bot'' demo_store
      = (m', Inr (kid, secret))"
    using CreateAPIKey_mem by metis
  have n: "length ''noncenonce12'' = NonceSize" by (simp add: NonceSize_def)
  have "VerifyRequest demo_prm secret (SignRequest demo_prm secret 0 ''GET'' ''/'' []) 0 ''GET'' ''/'' [] 0"
    by (simp add: VerifyRequest_def time_Sub_def SignatureWindow_def second_def)
  then have "snd (VerifyAPIRequest demo_prm mem (Some ''ck'') 0 kid (SignRequest demo_prm secret 0 ''GET'' ''/'' []) 0 ''GET'' ''/'' [] m') = Inr u"
    using api_key_authenticates [OF demo_prm_ok demo_store_inv n u c, THEN conjunct1,
      of 0 "SignRequest demo_prm secret 0 ''GET'' ''/'' []" 0 "''GET''" "''/''" "[]"] by simp
  with c show ?thesis by (intro exI conjI)
qed

text \<open>C35: Starting the 2FA setup switches 2FA off. \<open>SetupTOTP\<close> asks for nothing but a session: on an
  account with 2FA enabled it replaces the secret and disables the second factor at once, so that
  step-up checks refuse and a login needs the password only.\<close>

theorem SetupTOTP_disables_2FA:
  assumes "mem_inv m" "ms_users m uid = Some u" "SetupTOTP txt mem rnd uid m = (m', Inr (secret, uri))"
  shows "ms_users m' uid = Some (u\<lparr>us_TOTPSecret := secret, us_TOTPEnabled := False\<rparr>)
    \<and> (\<forall>now code. second_factor prm now code (u\<lparr>us_TOTPSecret := secret, us_TOTPEnabled := False\<rparr>) = Inr ())
    \<and> (\<forall>now code. snd (RequireTOTP prm mem now uid code m') = Inl ErrTOTPRequired)"
proof -
  from assms(3) obtain sec where r: "NewTOTPSecret rnd = Inr sec"
    by (cases "NewTOTPSecret rnd") (auto simp: SetupTOTP_def andThen_def lift_auth_def mem.by_id [OF assms(1)] assms(2))
  from mem.set_totp [OF assms(1), of uid sec False] obtain m1 where m1: "st_SetTOTP mem uid sec False m = (m1, Inr ())" "mem_inv m1"
    "ms_users m1 = (ms_users m)(uid \<mapsto> u\<lparr>us_TOTPSecret := sec, us_TOTPEnabled := False\<rparr>)" by (auto simp: assms(2))
  have "m' = m1 \<and> secret = sec" using assms(3) m1(1)
    by (auto simp: SetupTOTP_def andThen_def lift_auth_def mem.by_id [OF assms(1)] assms(2) r)
  with m1 show ?thesis by (simp add: second_factor_def RequireTOTP_def mem.by_id [OF m1(2)])
qed

theorem SetupTOTP_disables_2FA_witness:
  "\<exists>m m' secret uri u. ms_users m 1 = Some u \<and> us_TOTPEnabled u \<and> SetupTOTP demo_text mem (Some ''seed'') 1 m = (m', Inr (secret, uri))
     \<and> snd (RequireTOTP demo_prm mem 0 1 ''123456'' m') = Inl ErrTOTPRequired"
proof -
  obtain u where u: "ms_users demo_store 1 = Some u" using demo_store_users by metis
  let ?u = "u\<lparr>us_TOTPSecret := ''S'', us_TOTPEnabled := True\<rparr>"
  obtain m where m: "mem_inv m" "ms_users m 1 = Some ?u"
    using mem.set_totp [OF demo_store_inv, of 1 "''S''" True] by (auto simp: u)
  obtain m' secret uri where s: "SetupTOTP demo_text mem (Some ''seed'') 1 m = (m', Inr (secret, uri))"
    using m(2) by (simp add: SetupTOTP_def andThen_def lift_auth_def mem_def MemStore_UserByID_def MemStore_SetTOTP_def NewTOTPSecret_def)
  have "snd (RequireTOTP demo_prm mem 0 1 ''123456'' m') = Inl ErrTOTPRequired"
    using SetupTOTP_disables_2FA [OF m s, of demo_prm, THEN conjunct2, THEN conjunct2] by blast
  moreover have "us_TOTPEnabled ?u" by simp
  ultimately show ?thesis using m(2) s by (intro exI conjI)
qed

end
