(* ===== verification/PGStore.thy ===== *)
theory PGStore
  imports AccountProps Ledger
begin

text \<open>
  The PostgreSQL store of the account service (\<open>account-service/account/pgstore.go\<close>) over its tables, with failing
  statements; the contract of a store whose calls can fail as the locale \<open>faulty_store\<close>, what the service
  guarantees over every such store, and this store as an instance.
\<close>

section \<open>The tables\<close>

text \<open>
  The rows of \<open>users\<close>, \<open>sessions\<close> and \<open>api_keys\<close> in the order they were inserted, the identity sequence of
  \<open>users\<close>, and the schedule of the coming round trips.
\<close>

record PGStore =
  pg_users :: "User list"
  pg_sessions :: "Session list"
  pg_keys :: "APIKey list"
  pg_next :: int64
  pg_sched :: "db_io list"

definition empty_pg :: "db_io list \<Rightarrow> PGStore" where
  "empty_pg sched = \<lparr>pg_users = [], pg_sessions = [], pg_keys = [], pg_next = 0, pg_sched = sched\<rparr>"

text \<open>One statement: it runs, or it fails before its effect (which includes a value the database does
  not accept), or its effect is committed and the answer lost.\<close>

definition pg_query :: "(PGStore \<Rightarrow> PGStore \<times> (account_error + 'a)) \<Rightarrow> PGStore \<Rightarrow> PGStore \<times> (account_error + 'a)" where
  "pg_query f m =
     (case pg_sched m of
        [] \<Rightarrow> f m
      | DbOk # ios \<Rightarrow> f (m\<lparr>pg_sched := ios\<rparr>)
      | DbFail # ios \<Rightarrow> (m\<lparr>pg_sched := ios\<rparr>, Inl ErrStore)
      | DbAckLost # ios \<Rightarrow> (fst (f (m\<lparr>pg_sched := ios\<rparr>)), Inl ErrStore))"

definition pg_user :: "PGStore \<Rightarrow> int64 \<rightharpoonup> User" where "pg_user m i = find (\<lambda>u. us_ID u = i) (pg_users m)"
definition pg_session :: "PGStore \<Rightarrow> string \<rightharpoonup> Session" where "pg_session m h = find (\<lambda>se. se_TokenHash se = h) (pg_sessions m)"
definition pg_key :: "PGStore \<Rightarrow> string \<rightharpoonup> APIKey" where "pg_key m kid = find (\<lambda>k. ak_KeyID k = kid) (pg_keys m)"

section \<open>The store\<close>

text \<open>The identity sequence advances even when the insertion fails.\<close>

definition PGStore_CreateUser :: "string \<Rightarrow> string \<Rightarrow> PGStore \<Rightarrow> PGStore \<times> (account_error + User)" where
  "PGStore_CreateUser email passwordHash = pg_query (\<lambda>m.
     if pg_next m \<ge> max_int64 then (m, Inl ErrStore)
     else let i = pg_next m + 1; m = m\<lparr>pg_next := i\<rparr>
          in if email \<in> us_Email ` set (pg_users m) then (m, Inl ErrEmailTaken)
             else let u = \<lparr>us_ID = i, us_Email = email, us_PasswordHash = passwordHash, us_TOTPSecret = [], us_TOTPEnabled = False,
                           us_Status = ''active'', us_IsAdmin = False\<rparr>
                  in (m\<lparr>pg_users := pg_users m @ [u]\<rparr>, Inr u))"

definition scanUser :: "User option \<Rightarrow> account_error + User" where
  "scanUser row = (case row of None \<Rightarrow> Inl ErrAccountNotFound | Some u \<Rightarrow> Inr u)"

definition PGStore_UserByEmail :: "string \<Rightarrow> PGStore \<Rightarrow> PGStore \<times> (account_error + User)" where
  "PGStore_UserByEmail email = pg_query (\<lambda>m. (m, scanUser (find (\<lambda>u. us_Email u = email) (pg_users m))))"

definition PGStore_UserByID :: "int64 \<Rightarrow> PGStore \<Rightarrow> PGStore \<times> (account_error + User)" where
  "PGStore_UserByID i = pg_query (\<lambda>m. (m, scanUser (pg_user m i)))"

definition PGStore_SetTOTP :: "int64 \<Rightarrow> string \<Rightarrow> bool \<Rightarrow> PGStore \<Rightarrow> PGStore \<times> (account_error + unit)" where
  "PGStore_SetTOTP userID secret enabled = pg_query (\<lambda>m.
     (m\<lparr>pg_users := map (\<lambda>u. if us_ID u = userID then u\<lparr>us_TOTPSecret := secret, us_TOTPEnabled := enabled\<rparr> else u) (pg_users m)\<rparr>,
      if userID \<in> us_ID ` set (pg_users m) then Inr () else Inl ErrAccountNotFound))"

text \<open>The column \<open>expires_at\<close> holds microseconds.\<close>

definition pg_time :: "time \<Rightarrow> time" where "pg_time t = t div 1000 * 1000"

definition pg_row :: "Session \<Rightarrow> Session" where "pg_row se = se\<lparr>se_ExpiresAt := pg_time (se_ExpiresAt se)\<rparr>"

definition PGStore_CreateSession :: "Session \<Rightarrow> PGStore \<Rightarrow> PGStore \<times> (account_error + unit)" where
  "PGStore_CreateSession se = pg_query (\<lambda>m.
     if se_TokenHash se \<in> se_TokenHash ` set (pg_sessions m) \<or> se_UserID se \<notin> us_ID ` set (pg_users m) then (m, Inl ErrStore)
     else (m\<lparr>pg_sessions := pg_sessions m @ [pg_row se]\<rparr>, Inr ()))"

definition PGStore_SessionByTokenHash :: "string \<Rightarrow> PGStore \<Rightarrow> PGStore \<times> (account_error + Session)" where
  "PGStore_SessionByTokenHash tokenHash = pg_query (\<lambda>m.
     (m, case pg_session m tokenHash of None \<Rightarrow> Inl ErrAccountNotFound | Some se \<Rightarrow> Inr se))"

definition PGStore_DeleteSession :: "string \<Rightarrow> PGStore \<Rightarrow> PGStore \<times> (account_error + unit)" where
  "PGStore_DeleteSession tokenHash = pg_query (\<lambda>m.
     (m\<lparr>pg_sessions := filter (\<lambda>se. se_TokenHash se \<noteq> tokenHash) (pg_sessions m)\<rparr>, Inr ()))"

text \<open>The column \<open>disabled\<close> is not inserted and defaults to false.\<close>

definition PGStore_CreateAPIKey :: "APIKey \<Rightarrow> PGStore \<Rightarrow> PGStore \<times> (account_error + unit)" where
  "PGStore_CreateAPIKey k = pg_query (\<lambda>m.
     if ak_KeyID k \<in> ak_KeyID ` set (pg_keys m) \<or> ak_UserID k \<notin> us_ID ` set (pg_users m) then (m, Inl ErrStore)
     else (m\<lparr>pg_keys := pg_keys m @ [k\<lparr>ak_Disabled := False\<rparr>]\<rparr>, Inr ()))"

definition PGStore_APIKeysByUser :: "int64 \<Rightarrow> PGStore \<Rightarrow> PGStore \<times> (account_error + APIKey list)" where
  "PGStore_APIKeysByUser userID = pg_query (\<lambda>m. (m, Inr (filter (\<lambda>k. ak_UserID k = userID) (pg_keys m))))"

definition PGStore_APIKeyByID :: "string \<Rightarrow> PGStore \<Rightarrow> PGStore \<times> (account_error + APIKey)" where
  "PGStore_APIKeyByID keyID = pg_query (\<lambda>m. (m, case pg_key m keyID of None \<Rightarrow> Inl ErrAccountNotFound | Some k \<Rightarrow> Inr k))"

definition pg :: "PGStore Store" where
  "pg = \<lparr>st_CreateUser = PGStore_CreateUser, st_UserByEmail = PGStore_UserByEmail, st_UserByID = PGStore_UserByID,
     st_SetTOTP = PGStore_SetTOTP, st_CreateSession = PGStore_CreateSession, st_SessionByTokenHash = PGStore_SessionByTokenHash,
     st_DeleteSession = PGStore_DeleteSession, st_CreateAPIKey = PGStore_CreateAPIKey, st_APIKeysByUser = PGStore_APIKeysByUser,
     st_APIKeyByID = PGStore_APIKeyByID\<rparr>"

text \<open>\<open>main\<close>'s promotion of the bootstrap administrator.\<close>

definition pg_bootstrap :: "(string \<Rightarrow> string) \<Rightarrow> string \<Rightarrow> PGStore \<Rightarrow> PGStore" where
  "pg_bootstrap lower email m =
     (if email = [] then m
      else fst (pg_query (\<lambda>m. (m\<lparr>pg_users := map (\<lambda>u. if us_Email u = lower email then u\<lparr>us_IsAdmin := True\<rparr> else u) (pg_users m)\<rparr>, Inr ())) m))"

section \<open>Stores whose calls can fail\<close>

text \<open>
  What the account service can rely on when every call may fail, before or after its effect: an answer
  is right, and an effect is the whole effect or none. \<open>row\<close> is what is kept of a session.
\<close>

locale faulty_store =
  fixes S :: "'s Store" and sinv :: "'s \<Rightarrow> bool"
    and users :: "'s \<Rightarrow> int64 \<rightharpoonup> User" and sessions :: "'s \<Rightarrow> string \<rightharpoonup> Session" and keys :: "'s \<Rightarrow> string \<rightharpoonup> APIKey"
    and row :: "Session \<Rightarrow> Session"
  assumes user_id: "sinv s \<Longrightarrow> users s i = Some u \<Longrightarrow> us_ID u = i"
    and row_fields: "se_TokenHash (row se) = se_TokenHash se" "se_UserID (row se) = se_UserID se"
    and by_id: "sinv s \<Longrightarrow> st_UserByID S i s = (s', r) \<Longrightarrow> sinv s' \<and> users s' = users s \<and> sessions s' = sessions s \<and> keys s' = keys s
      \<and> (\<forall>u. r = Inr u \<longrightarrow> users s i = Some u)"
    and by_email: "sinv s \<Longrightarrow> st_UserByEmail S e s = (s', r) \<Longrightarrow> sinv s' \<and> users s' = users s \<and> sessions s' = sessions s \<and> keys s' = keys s
      \<and> (\<forall>u. r = Inr u \<longrightarrow> us_Email u = e \<and> users s (us_ID u) = Some u)"
    and session_by: "sinv s \<Longrightarrow> st_SessionByTokenHash S h s = (s', r1) \<Longrightarrow> sinv s' \<and> users s' = users s \<and> sessions s' = sessions s \<and> keys s' = keys s
      \<and> (\<forall>se. r1 = Inr se \<longrightarrow> sessions s h = Some se)"
    and key_by_id: "sinv s \<Longrightarrow> st_APIKeyByID S kid s = (s', r2) \<Longrightarrow> sinv s' \<and> users s' = users s \<and> sessions s' = sessions s \<and> keys s' = keys s
      \<and> (\<forall>k. r2 = Inr k \<longrightarrow> keys s kid = Some k)"
    and create_user: "sinv s \<Longrightarrow> st_CreateUser S e h s = (s', r) \<Longrightarrow> sinv s' \<and> sessions s' = sessions s \<and> keys s' = keys s
      \<and> (users s' = users s \<and> (\<forall>u. r \<noteq> Inr u) \<or> (\<exists>u. us_Email u = e \<and> us_PasswordHash u = h \<and> \<not> us_TOTPEnabled u \<and> \<not> us_IsAdmin u
            \<and> users s (us_ID u) = None \<and> users s' = (users s)(us_ID u \<mapsto> u) \<and> (\<forall>v. r = Inr v \<longrightarrow> v = u)))"
    and set_totp: "sinv s \<Longrightarrow> st_SetTOTP S i sec b s = (s', r3) \<Longrightarrow> sinv s' \<and> sessions s' = sessions s \<and> keys s' = keys s
      \<and> (users s' = users s \<and> r3 \<noteq> Inr () \<or> (\<exists>u. users s i = Some u \<and> users s' = (users s)(i \<mapsto> u\<lparr>us_TOTPSecret := sec, us_TOTPEnabled := b\<rparr>)))"
    and create_session: "sinv s \<Longrightarrow> st_CreateSession S se s = (s', r3) \<Longrightarrow> sinv s' \<and> users s' = users s \<and> keys s' = keys s
      \<and> (sessions s' = sessions s \<and> r3 \<noteq> Inr () \<or> sessions s' = (sessions s)(se_TokenHash se \<mapsto> row se))"
    and delete_session: "sinv s \<Longrightarrow> st_DeleteSession S h s = (s', r3) \<Longrightarrow> sinv s' \<and> users s' = users s \<and> keys s' = keys s
      \<and> (sessions s' = sessions s \<or> sessions s' = (sessions s)(h := None))"
    and create_key: "sinv s \<Longrightarrow> st_CreateAPIKey S k s = (s', r3) \<Longrightarrow> sinv s' \<and> users s' = users s \<and> sessions s' = sessions s
      \<and> (keys s' = keys s \<and> r3 \<noteq> Inr () \<or> keys s' = (keys s)(ak_KeyID k \<mapsto> k\<lparr>ak_Disabled := False\<rparr>))"
begin

lemma Login_sound:
  assumes inv: "sinv s" and l: "Login prm txt S now now2 rnd email password code s = (s', Inr (token, u))"
  shows "users s (us_ID u) = Some u \<and> us_Email u = ToLower txt (TrimSpace txt email) \<and> VerifyPassword prm password (us_PasswordHash u) = Inr ()
    \<and> (us_TOTPEnabled u \<longrightarrow> code \<noteq> [] \<and> VerifyTOTP prm (us_TOTPSecret u) code now)
    \<and> sinv s' \<and> users s' = users s
    \<and> sessions s' = (sessions s)(HashSecret prm token \<mapsto> row \<lparr>se_TokenHash = HashSecret prm token, se_UserID = us_ID u, se_ExpiresAt = now2 + SessionTTL\<rparr>)"
proof -
  let ?e = "ToLower txt (TrimSpace txt email)"
  obtain s1 r where e: "st_UserByEmail S ?e s = (s1, r)" by fastforce
  note e' = by_email [OF inv e]
  then obtain v where v: "r = Inr v" using l e by (cases r) (auto simp: Login_def)
  from l obtain buf where buf: "rnd = Some buf"
    by (cases rnd) (auto simp: Login_def e v lift_auth_def NewSessionToken_def split: sum.splits)
  let ?tok = "hex_EncodeToString buf"
  let ?se = "\<lparr>se_TokenHash = HashSecret prm ?tok, se_UserID = us_ID v, se_ExpiresAt = now2 + SessionTTL\<rparr>"
  obtain s2 r2 where c: "st_CreateSession S ?se s1 = (s2, r2)" by fastforce
  have ok: "VerifyPassword prm password (us_PasswordHash v) = Inr ()" "second_factor prm now code v = Inr ()"
    using l by (auto simp: Login_def e v split: sum.splits)
  then have "s' = s2 \<and> r2 = Inr () \<and> token = ?tok \<and> u = v"
    using l c by (cases r2) (auto simp: Login_def e v buf lift_auth_def NewSessionToken_def Let_def)
  with create_session [of s1 ?se s2 r2] c e' v ok show ?thesis
    by (auto simp: second_factor_def split: if_splits)
qed

lemma Authenticate_sound:
  assumes inv: "sinv s" and a: "Authenticate prm S now token s = (s', Inr u)"
  shows "(\<exists>se. sessions s (HashSecret prm token) = Some se \<and> now \<le> se_ExpiresAt se \<and> users s (se_UserID se) = Some u)
    \<and> sinv s' \<and> users s' = users s \<and> sessions s' = sessions s"
proof -
  obtain s1 r where h: "st_SessionByTokenHash S (HashSecret prm token) s = (s1, r)" by fastforce
  then obtain se where se: "r = Inr se" using a by (cases r) (auto simp: Authenticate_def)
  have n: "now \<le> se_ExpiresAt se" "st_UserByID S (se_UserID se) s1 = (s', Inr u)"
    using a by (auto simp: Authenticate_def h se split: if_splits)
  from session_by [OF inv h] by_id [OF _ n(2)] n(1) se show ?thesis by auto
qed

end

section \<open>The invariant of the tables\<close>

definition pg_inv :: "PGStore \<Rightarrow> bool" where
  "pg_inv m \<longleftrightarrow> distinct (map us_ID (pg_users m)) \<and> distinct (map us_Email (pg_users m)) \<and> (\<forall>u \<in> set (pg_users m). us_ID u \<le> pg_next m)
     \<and> distinct (map se_TokenHash (pg_sessions m)) \<and> distinct (map ak_KeyID (pg_keys m))
     \<and> (\<forall>se \<in> set (pg_sessions m). se_UserID se \<in> us_ID ` set (pg_users m)) \<and> (\<forall>k \<in> set (pg_keys m). ak_UserID k \<in> us_ID ` set (pg_users m))"

lemma pg_sched_simps [simp]:
  "pg_inv (m\<lparr>pg_sched := ios\<rparr>) = pg_inv m" "pg_user (m\<lparr>pg_sched := ios\<rparr>) = pg_user m"
  "pg_session (m\<lparr>pg_sched := ios\<rparr>) = pg_session m" "pg_key (m\<lparr>pg_sched := ios\<rparr>) = pg_key m"
  by (simp_all add: pg_inv_def pg_user_def pg_session_def pg_key_def fun_eq_iff)

text \<open>A statement ran on the same tables, or had no effect; only when it ran and was acknowledged is its
  answer given.\<close>

lemma pg_query_cases:
  assumes "pg_query f m = (m', r)"
  obtains (ran) ios where "f (m\<lparr>pg_sched := ios\<rparr>) = (m', r)"
  | (lost) ios r' where "f (m\<lparr>pg_sched := ios\<rparr>) = (m', r')" "r = Inl ErrStore"
  | (failed) ios where "m' = m\<lparr>pg_sched := ios\<rparr>" "r = Inl ErrStore"
proof (cases "pg_sched m")
  case Nil
  then have e: "m\<lparr>pg_sched := []\<rparr> = m" by (cases m) simp
  have "f (m\<lparr>pg_sched := []\<rparr>) = (m', r)" unfolding e using assms Nil by (simp add: pg_query_def)
  then show thesis by (rule ran)
next
  case (Cons io ios)
  then show thesis using assms ran [of ios] lost [of ios "snd (f (m\<lparr>pg_sched := ios\<rparr>))"] failed [of ios]
    by (cases io) (auto simp: pg_query_def)
qed

lemma find_key_None: "find (\<lambda>x. key x = k) xs = None \<longleftrightarrow> k \<notin> key ` set xs"
  by (induction xs) auto

lemma find_append: "find P (xs @ ys) = (case find P xs of None \<Rightarrow> find P ys | Some x \<Rightarrow> Some x)"
  by (induction xs) auto

lemma find_key_map: "(\<And>x. key (f x) = key x) \<Longrightarrow> find (\<lambda>x. key x = k) (map f xs) = map_option f (find (\<lambda>x. key x = k) xs)"
  by (induction xs) auto

lemma find_key_filter: "find (\<lambda>x. key x = k) (filter (\<lambda>x. key x \<noteq> h) xs) = (if k = h then None else find (\<lambda>x. key x = k) xs)"
  by (induction xs) auto

lemma find_key_some: "find (\<lambda>x. key x = k) xs = Some x \<Longrightarrow> x \<in> set xs \<and> key x = k"
  by (auto simp: find_Some_iff)

lemma distinct_key_find: "distinct (map key xs) \<Longrightarrow> x \<in> set xs \<Longrightarrow> find (\<lambda>y. key y = key x) xs = Some x"
  by (induction xs) (auto simp: image_iff)

lemma pg_update_inv:
  assumes "\<And>u. us_ID (f u) = us_ID u" "\<And>u. us_Email (f u) = us_Email u" "pg_inv m"
  shows "pg_inv (m\<lparr>pg_users := map f (pg_users m)\<rparr>)"
proof -
  have "us_ID \<circ> f = us_ID" "us_Email \<circ> f = us_Email" using assms(1,2) by auto
  then show ?thesis using assms by (simp add: pg_inv_def image_comp)
qed

lemma pg_reads:
  assumes "pg_query (\<lambda>m. (m, g m)) m = (m', r)" "pg_inv m" "\<And>ios. g (m\<lparr>pg_sched := ios\<rparr>) = g m"
  shows "pg_inv m' \<and> pg_user m' = pg_user m \<and> pg_session m' = pg_session m \<and> pg_key m' = pg_key m \<and> (\<forall>x. r = Inr x \<longrightarrow> g m = Inr x)"
  using assms(1) by (cases rule: pg_query_cases) (use assms(2,3) in auto)

lemma pg_create_user:
  assumes inv: "pg_inv m" and c: "PGStore_CreateUser e h m = (m', r)"
  shows "pg_inv m' \<and> pg_session m' = pg_session m \<and> pg_key m' = pg_key m
      \<and> (pg_user m' = pg_user m \<and> (\<forall>u. r \<noteq> Inr u) \<or> (\<exists>u. us_Email u = e \<and> us_PasswordHash u = h \<and> \<not> us_TOTPEnabled u \<and> \<not> us_IsAdmin u
            \<and> pg_user m (us_ID u) = None \<and> pg_user m' = (pg_user m)(us_ID u \<mapsto> u) \<and> (\<forall>v. r = Inr v \<longrightarrow> v = u)))"
proof -
  let ?f = "\<lambda>m. if pg_next m \<ge> max_int64 then (m, Inl ErrStore)
     else let i = pg_next m + 1; m = m\<lparr>pg_next := i\<rparr>
          in if e \<in> us_Email ` set (pg_users m) then (m, Inl ErrEmailTaken)
             else let u = \<lparr>us_ID = i, us_Email = e, us_PasswordHash = h, us_TOTPSecret = [], us_TOTPEnabled = False,
                           us_Status = ''active'', us_IsAdmin = False\<rparr>
                  in (m\<lparr>pg_users := pg_users m @ [u]\<rparr>, Inr u)"
  have fresh: "pg_next m + 1 \<notin> us_ID ` set (pg_users m)" using inv by (auto simp: pg_inv_def)
  have run: "pg_inv m1 \<and> pg_session m1 = pg_session m \<and> pg_key m1 = pg_key m
      \<and> (pg_user m1 = pg_user m \<and> (\<forall>u. r1 \<noteq> Inr u) \<or> (\<exists>u. us_Email u = e \<and> us_PasswordHash u = h \<and> \<not> us_TOTPEnabled u \<and> \<not> us_IsAdmin u
            \<and> pg_user m (us_ID u) = None \<and> pg_user m1 = (pg_user m)(us_ID u \<mapsto> u) \<and> (\<forall>v. r1 = Inr v \<longrightarrow> v = u)))"
    if "?f (m\<lparr>pg_sched := ios\<rparr>) = (m1, r1)" for ios m1 r1
  proof (cases "pg_next m \<ge> max_int64 \<or> e \<in> us_Email ` set (pg_users m)")
    case True
    have "\<forall>u \<in> set (pg_users m). us_ID u \<le> pg_next m + 1" using inv by (fastforce simp: pg_inv_def)
    with True show ?thesis using that inv
      by (auto simp: Let_def pg_inv_def pg_user_def pg_session_def pg_key_def fun_eq_iff split: if_splits)
  next
    case False
    let ?u = "\<lparr>us_ID = pg_next m + 1, us_Email = e, us_PasswordHash = h, us_TOTPSecret = [], us_TOTPEnabled = False, us_Status = ''active'', us_IsAdmin = False\<rparr>"
    have m1: "m1 = m\<lparr>pg_sched := ios, pg_next := pg_next m + 1, pg_users := pg_users m @ [?u]\<rparr>" "r1 = Inr ?u" using that False by (simp_all add: Let_def)
    have "pg_user m1 = (pg_user m)(us_ID ?u \<mapsto> ?u)"
      using fresh find_key_None [of us_ID "pg_next m + 1" "pg_users m"] by (auto simp: pg_user_def m1(1) find_append fun_eq_iff split: option.split)
    moreover have "pg_user m (us_ID ?u) = None" using fresh by (simp add: pg_user_def find_key_None)
    moreover have "pg_inv m1" using inv fresh False by (fastforce simp: pg_inv_def m1(1))
    ultimately show ?thesis using m1 by (auto simp: pg_session_def pg_key_def)
  qed
  from c show ?thesis unfolding PGStore_CreateUser_def
    by (cases rule: pg_query_cases) (use run inv in \<open>fastforce+\<close>)
qed

lemma pg_set_totp:
  assumes inv: "pg_inv m" and c: "PGStore_SetTOTP i sec b m = (m', r)"
  shows "pg_inv m' \<and> pg_session m' = pg_session m \<and> pg_key m' = pg_key m
      \<and> (pg_user m' = pg_user m \<and> r \<noteq> Inr () \<or> (\<exists>u. pg_user m i = Some u \<and> pg_user m' = (pg_user m)(i \<mapsto> u\<lparr>us_TOTPSecret := sec, us_TOTPEnabled := b\<rparr>)))"
proof -
  let ?g = "\<lambda>u. if us_ID u = i then u\<lparr>us_TOTPSecret := sec, us_TOTPEnabled := b\<rparr> else u"
  let ?m = "\<lambda>ios. m\<lparr>pg_sched := ios, pg_users := map ?g (pg_users m)\<rparr>"
  have g: "us_ID (?g u) = us_ID u" "us_Email (?g u) = us_Email u" for u by simp_all
  have p: "pg_inv (?m ios)" for ios using pg_update_inv [of ?g "m\<lparr>pg_sched := ios\<rparr>", OF g] inv by simp
  have u: "pg_user (?m ios) j = map_option ?g (pg_user m j)" for ios j
    using find_key_map [of us_ID ?g j "pg_users m", OF g(1)] by (simp add: pg_user_def)
  have k: "pg_user (?m ios) = (case pg_user m i of None \<Rightarrow> pg_user m | Some u \<Rightarrow> (pg_user m)(i \<mapsto> u\<lparr>us_TOTPSecret := sec, us_TOTPEnabled := b\<rparr>))" for ios
  proof
    fix j
    have "us_ID v = j" if "pg_user m j = Some v" for v using that by (auto simp: pg_user_def dest: find_key_some)
    then show "pg_user (?m ios) j = (case pg_user m i of None \<Rightarrow> pg_user m | Some u \<Rightarrow> (pg_user m)(i \<mapsto> u\<lparr>us_TOTPSecret := sec, us_TOTPEnabled := b\<rparr>)) j"
      by (cases "pg_user m j") (auto simp: u split: option.split)
  qed
  have n: "i \<notin> us_ID ` set (pg_users m) \<longleftrightarrow> pg_user m i = None" by (simp add: pg_user_def find_key_None)
  have s: "pg_session (?m ios) = pg_session m" "pg_key (?m ios) = pg_key m" for ios by (simp_all add: pg_session_def pg_key_def fun_eq_iff)
  from c show ?thesis unfolding PGStore_SetTOTP_def
  proof (cases rule: pg_query_cases)
    case (ran ios)
    then have "m' = ?m ios" "r = (if i \<in> us_ID ` set (pg_users m) then Inr () else Inl ErrAccountNotFound)" by simp_all
    then show ?thesis using p k s n by (auto split: option.splits if_splits)
  next
    case (lost ios r')
    then have "m' = ?m ios" by simp
    then show ?thesis using p k s n lost(2) by (auto split: option.splits)
  qed (use inv in auto)
qed

lemma pg_create_session:
  assumes inv: "pg_inv m" and c: "PGStore_CreateSession se m = (m', r)"
  shows "pg_inv m' \<and> pg_user m' = pg_user m \<and> pg_key m' = pg_key m
      \<and> (pg_session m' = pg_session m \<and> r \<noteq> Inr () \<or> pg_session m' = (pg_session m)(se_TokenHash se \<mapsto> pg_row se))"
proof -
  let ?bad = "se_TokenHash se \<in> se_TokenHash ` set (pg_sessions m) \<or> se_UserID se \<notin> us_ID ` set (pg_users m)"
  let ?m = "\<lambda>ios. m\<lparr>pg_sched := ios, pg_sessions := pg_sessions m @ [pg_row se]\<rparr>"
  have p: "pg_inv (?m ios)" if "\<not> ?bad" for ios using inv that by (auto simp: pg_inv_def pg_row_def)
  have q: "pg_session (?m ios) = (pg_session m)(se_TokenHash se \<mapsto> pg_row se)" if "\<not> ?bad" for ios
  proof
    fix h show "pg_session (?m ios) h = ((pg_session m)(se_TokenHash se \<mapsto> pg_row se)) h"
      using find_key_None [of se_TokenHash "se_TokenHash se" "pg_sessions m"] that
      by (auto simp: pg_session_def find_append pg_row_def split: option.split)
  qed
  have o: "pg_user (?m ios) = pg_user m" "pg_key (?m ios) = pg_key m" for ios by (simp_all add: pg_user_def pg_key_def fun_eq_iff)
  from c show ?thesis unfolding PGStore_CreateSession_def
    by (cases rule: pg_query_cases) (use inv p q o in \<open>auto split: if_splits\<close>)
qed

lemma pg_delete_session:
  assumes inv: "pg_inv m" and c: "PGStore_DeleteSession h m = (m', r)"
  shows "pg_inv m' \<and> pg_user m' = pg_user m \<and> pg_key m' = pg_key m \<and> (pg_session m' = pg_session m \<or> pg_session m' = (pg_session m)(h := None))"
proof -
  let ?m = "\<lambda>ios. m\<lparr>pg_sched := ios, pg_sessions := filter (\<lambda>se. se_TokenHash se \<noteq> h) (pg_sessions m)\<rparr>"
  have p: "pg_inv (?m ios)" for ios using inv by (auto simp: pg_inv_def distinct_map inj_on_def)
  have q: "pg_session (?m ios) = (pg_session m)(h := None)" for ios by (simp add: pg_session_def fun_eq_iff find_key_filter)
  have o: "pg_user (?m ios) = pg_user m" "pg_key (?m ios) = pg_key m" for ios by (simp_all add: pg_user_def pg_key_def fun_eq_iff)
  from c show ?thesis unfolding PGStore_DeleteSession_def by (cases rule: pg_query_cases) (use inv p q o in auto)
qed

lemma pg_create_key:
  assumes inv: "pg_inv m" and c: "PGStore_CreateAPIKey k m = (m', r)"
  shows "pg_inv m' \<and> pg_user m' = pg_user m \<and> pg_session m' = pg_session m
      \<and> (pg_key m' = pg_key m \<and> r \<noteq> Inr () \<or> pg_key m' = (pg_key m)(ak_KeyID k \<mapsto> k\<lparr>ak_Disabled := False\<rparr>))"
proof -
  let ?bad = "ak_KeyID k \<in> ak_KeyID ` set (pg_keys m) \<or> ak_UserID k \<notin> us_ID ` set (pg_users m)"
  let ?m = "\<lambda>ios. m\<lparr>pg_sched := ios, pg_keys := pg_keys m @ [k\<lparr>ak_Disabled := False\<rparr>]\<rparr>"
  have p: "pg_inv (?m ios)" if "\<not> ?bad" for ios using inv that by (auto simp: pg_inv_def)
  have q: "pg_key (?m ios) = (pg_key m)(ak_KeyID k \<mapsto> k\<lparr>ak_Disabled := False\<rparr>)" if "\<not> ?bad" for ios
  proof
    fix h show "pg_key (?m ios) h = ((pg_key m)(ak_KeyID k \<mapsto> k\<lparr>ak_Disabled := False\<rparr>)) h"
      using find_key_None [of ak_KeyID "ak_KeyID k" "pg_keys m"] that by (auto simp: pg_key_def find_append split: option.split)
  qed
  have o: "pg_user (?m ios) = pg_user m" "pg_session (?m ios) = pg_session m" for ios by (simp_all add: pg_user_def pg_session_def fun_eq_iff)
  from c show ?thesis unfolding PGStore_CreateAPIKey_def
    by (cases rule: pg_query_cases) (use inv p q o in \<open>auto split: if_splits\<close>)
qed

lemma scanUser_Inr: "scanUser row = Inr u \<longleftrightarrow> row = Some u"
  by (simp add: scanUser_def split: option.split)

lemma pg_by_email:
  assumes inv: "pg_inv m" and q: "PGStore_UserByEmail e m = (m', r)"
  shows "pg_inv m' \<and> pg_user m' = pg_user m \<and> pg_session m' = pg_session m \<and> pg_key m' = pg_key m
      \<and> (\<forall>u. r = Inr u \<longrightarrow> us_Email u = e \<and> pg_user m (us_ID u) = Some u)"
proof -
  let ?find = "find (\<lambda>u. us_Email u = e) (pg_users m)"
  have k: "us_Email u = e \<and> pg_user m (us_ID u) = Some u" if "?find = Some u" for u
    using find_key_some [OF that] distinct_key_find [of us_ID "pg_users m" u] inv unfolding pg_inv_def pg_user_def by blast
  have "pg_inv m' \<and> pg_user m' = pg_user m \<and> pg_session m' = pg_session m \<and> pg_key m' = pg_key m \<and> (\<forall>u. r = Inr u \<longrightarrow> scanUser ?find = Inr u)"
    by (rule pg_reads [OF q [unfolded PGStore_UserByEmail_def] inv]) simp
  with k show ?thesis unfolding scanUser_Inr by blast
qed

interpretation pgs: faulty_store pg pg_inv pg_user pg_session pg_key pg_row
proof unfold_locales
  fix s :: PGStore and s' i u r e h r1 r2 r3 kid sec b se k assume inv: "pg_inv s"
  show "pg_user s i = Some u \<Longrightarrow> us_ID u = i" by (auto simp: pg_user_def dest: find_key_some)
  show "st_UserByID pg i s = (s', r) \<Longrightarrow> pg_inv s' \<and> pg_user s' = pg_user s \<and> pg_session s' = pg_session s \<and> pg_key s' = pg_key s
      \<and> (\<forall>u. r = Inr u \<longrightarrow> pg_user s i = Some u)"
    using pg_reads [of "\<lambda>m. scanUser (pg_user m i)" s s' r] inv by (auto simp: pg_def PGStore_UserByID_def scanUser_Inr)
  show "st_SessionByTokenHash pg h s = (s', r1) \<Longrightarrow> pg_inv s' \<and> pg_user s' = pg_user s \<and> pg_session s' = pg_session s \<and> pg_key s' = pg_key s
      \<and> (\<forall>se. r1 = Inr se \<longrightarrow> pg_session s h = Some se)"
    using pg_reads [of "\<lambda>m. case pg_session m h of None \<Rightarrow> Inl ErrAccountNotFound | Some se \<Rightarrow> Inr se" s s' r1] inv
    by (auto simp: pg_def PGStore_SessionByTokenHash_def split: option.splits)
  show "st_APIKeyByID pg kid s = (s', r2) \<Longrightarrow> pg_inv s' \<and> pg_user s' = pg_user s \<and> pg_session s' = pg_session s \<and> pg_key s' = pg_key s
      \<and> (\<forall>k. r2 = Inr k \<longrightarrow> pg_key s kid = Some k)"
    using pg_reads [of "\<lambda>m. case pg_key m kid of None \<Rightarrow> Inl ErrAccountNotFound | Some k \<Rightarrow> Inr k" s s' r2] inv
    by (auto simp: pg_def PGStore_APIKeyByID_def split: option.splits)
qed ((rule pg_by_email pg_create_user pg_set_totp pg_create_session pg_delete_session pg_create_key; simp add: pg_def) | simp add: pg_row_def)+

end
