(* ===== verification/PGProps.thy ===== *)
theory PGProps
  imports PGStore "HOL-Library.Code_Target_Nat"
begin

text \<open>
  Runs of the account service on the PostgreSQL store, with any failures, and their properties.
\<close>

section \<open>Runs of the service\<close>

text \<open>The operations of the service on any store; making an administrator is not one of them.\<close>

fun service_exec :: "primitives \<Rightarrow> text_lib \<Rightarrow> string option \<Rightarrow> 's Store \<Rightarrow> account_op \<Rightarrow> 's \<Rightarrow> 's" where
  "service_exec prm txt ck S (ASignup rnd e p) s = fst (Signup prm txt S rnd e p s)"
| "service_exec prm txt ck S (ALogin now now2 rnd e p c) s = fst (Login prm txt S now now2 rnd e p c s)"
| "service_exec prm txt ck S (AAuthenticate now tok) s = fst (Authenticate prm S now tok s)"
| "service_exec prm txt ck S (ASetupTOTP rnd i) s = fst (SetupTOTP txt S rnd i s)"
| "service_exec prm txt ck S (AConfirmTOTP now i c) s = fst (ConfirmTOTP prm S now i c s)"
| "service_exec prm txt ck S (ACreateKey r1 r2 i l) s = fst (CreateAPIKey prm S ck r1 r2 i l s)"
| "service_exec prm txt ck S (ASetAdmin i) s = s"

context faulty_store
begin

text \<open>The invariant, with administrators only under the emails in \<open>G\<close>.\<close>

definition ok :: "(string \<Rightarrow> bool) \<Rightarrow> 's \<Rightarrow> bool" where
  "ok G s \<longleftrightarrow> sinv s \<and> (\<forall>i u. users s i = Some u \<and> us_IsAdmin u \<longrightarrow> G (us_Email u))"

lemma keepsI: "(\<And>s s' r. ok G s \<Longrightarrow> f s = (s', r) \<Longrightarrow> ok G s') \<Longrightarrow> keeps (ok G) f"
  by (auto simp: hoare_def split: prod.split sum.split)

lemma store_keeps:
  "keeps (ok G) (st_UserByID S i)" "keeps (ok G) (st_UserByEmail S e)" "keeps (ok G) (st_CreateUser S e h)" "keeps (ok G) (st_SetTOTP S i sec b)"
  "keeps (ok G) (st_CreateSession S se)" "keeps (ok G) (st_SessionByTokenHash S h)" "keeps (ok G) (st_DeleteSession S h)"
  "keeps (ok G) (st_CreateAPIKey S k)" "keeps (ok G) (lift_auth r)"
proof -
  show "keeps (ok G) (st_UserByID S i)" by (rule keepsI) (auto simp: ok_def dest: by_id)
  show "keeps (ok G) (st_UserByEmail S e)" by (rule keepsI) (auto simp: ok_def dest: by_email)
  show "keeps (ok G) (st_CreateSession S se)" by (rule keepsI) (auto simp: ok_def dest: create_session)
  show "keeps (ok G) (st_SessionByTokenHash S h)" by (rule keepsI) (auto simp: ok_def dest: session_by)
  show "keeps (ok G) (st_DeleteSession S h)" by (rule keepsI) (auto simp: ok_def dest: delete_session)
  show "keeps (ok G) (st_CreateAPIKey S k)" by (rule keepsI) (auto simp: ok_def dest: create_key)
  show "keeps (ok G) (lift_auth r)" by (rule keeps_same) (simp add: lift_auth_def)
  show "keeps (ok G) (st_CreateUser S e h)"
  proof (rule keepsI)
    fix s s' r assume "ok G s" "st_CreateUser S e h s = (s', r)"
    with create_user [of s e h s' r] show "ok G s'" by (auto simp: ok_def split: if_splits)
  qed
  show "keeps (ok G) (st_SetTOTP S i sec b)"
  proof (rule keepsI)
    fix s s' r assume "ok G s" "st_SetTOTP S i sec b s = (s', r)"
    with set_totp [of s i sec b s' r] show "ok G s'" by (auto simp: ok_def split: if_splits)
  qed
qed

lemma Login_keeps: "ok G s \<Longrightarrow> ok G (fst (Login prm txt S now now2 rnd e p c s))"
proof -
  assume s: "ok G s"
  obtain s1 r where u: "st_UserByEmail S (ToLower txt (TrimSpace txt e)) s = (s1, r)" by fastforce
  have s1: "ok G s1" using keepsD [OF store_keeps(2) s, of "ToLower txt (TrimSpace txt e)"] u by simp
  have "keeps (ok G) (andThen (lift_auth (NewSessionToken prm rnd)) (\<lambda>(token, tokenHash).
               andThen (st_CreateSession S \<lparr>se_TokenHash = tokenHash, se_UserID = us_ID v, se_ExpiresAt = now2 + SessionTTL\<rparr>) (\<lambda>_ s.
                 (s, Inr (token, v)))))" for v
    by (intro keeps_andThen store_keeps) (auto intro!: keeps_rules store_keeps split: prod.split)
  from keepsD [OF this s1] s1 u show ?thesis by (auto simp: Login_def split: sum.split)
qed

lemma Authenticate_keeps: "ok G s \<Longrightarrow> ok G (fst (Authenticate prm S now tok s))"
proof -
  assume s: "ok G s"
  obtain s1 r where h: "st_SessionByTokenHash S (HashSecret prm tok) s = (s1, r)" by fastforce
  have s1: "ok G s1" using keepsD [OF store_keeps(6) s, of "HashSecret prm tok"] h by simp
  show ?thesis using keepsD [OF store_keeps(7) s1] keepsD [OF store_keeps(1) s1] s1 h by (auto simp: Authenticate_def split: sum.split)
qed

lemma service_exec_ok: "ok G s \<Longrightarrow> ok G (service_exec prm txt ck S x s)"
proof (cases x)
  case (ASignup rnd e p)
  assume s: "ok G s"
  have "keeps (ok G) (andThen (lift_auth (HashPassword prm rnd p)) (\<lambda>hash. st_CreateUser S e' hash))" for e' by (intro keeps_rules store_keeps)
  from keepsD [OF this s] s show ?thesis by (simp add: ASignup Signup_def Let_def)
next
  case (ASetupTOTP rnd i)
  assume s: "ok G s"
  have "keeps (ok G) (SetupTOTP txt S rnd i)" unfolding SetupTOTP_def by (intro keeps_rules store_keeps)
  from keepsD [OF this s] show ?thesis by (simp add: ASetupTOTP)
next
  case (AConfirmTOTP now i c)
  assume s: "ok G s"
  have "keeps (ok G) (ConfirmTOTP prm S now i c)" unfolding ConfirmTOTP_def by (intro keeps_rules store_keeps)
  from keepsD [OF this s] show ?thesis by (simp add: AConfirmTOTP)
next
  case (ACreateKey r1 r2 i l)
  assume s: "ok G s"
  show ?thesis
  proof (cases ck)
    case (Some c)
    have "keeps (ok G) (CreateAPIKey prm S ck r1 r2 i l)" unfolding CreateAPIKey_def Some option.case
      by (intro keeps_andThen store_keeps) (auto intro!: keeps_rules store_keeps split: prod.split)
    from keepsD [OF this s] show ?thesis by (simp add: ACreateKey)
  qed (use s in \<open>simp add: ACreateKey CreateAPIKey_def\<close>)
qed (simp_all add: Login_keeps Authenticate_keeps)

end

datatype pg_op = PGCall account_op | PGBoot "string \<Rightarrow> string" string

fun pg_exec :: "primitives \<Rightarrow> text_lib \<Rightarrow> string option \<Rightarrow> pg_op \<Rightarrow> PGStore \<Rightarrow> PGStore" where
  "pg_exec prm txt ck (PGCall x) m = service_exec prm txt ck pg x m"
| "pg_exec prm txt ck (PGBoot lower email) m = pg_bootstrap lower email m"

fun pg_run :: "primitives \<Rightarrow> text_lib \<Rightarrow> string option \<Rightarrow> pg_op list \<Rightarrow> PGStore \<Rightarrow> PGStore" where
  "pg_run prm txt ck [] m = m"
| "pg_run prm txt ck (x # xs) m = pg_run prm txt ck xs (pg_exec prm txt ck x m)"

definition pg_ok :: "(string \<Rightarrow> bool) \<Rightarrow> PGStore \<Rightarrow> bool" where
  "pg_ok G m \<longleftrightarrow> pg_inv m \<and> (\<forall>u \<in> set (pg_users m). us_IsAdmin u \<longrightarrow> G (us_Email u))"

lemma pg_user_iff: "pg_inv m \<Longrightarrow> pg_user m i = Some u \<longleftrightarrow> u \<in> set (pg_users m) \<and> us_ID u = i"
  using distinct_key_find [of us_ID "pg_users m" u] by (auto simp: pg_user_def pg_inv_def dest: find_key_some)

lemma pg_ok_eq: "pgs.ok G m = pg_ok G m"
  unfolding pgs.ok_def pg_ok_def using pg_user_iff by blast

lemma pg_bootstrap_ok:
  assumes m: "pg_ok G m" and G: "email \<noteq> [] \<Longrightarrow> G (lower email)"
  shows "pg_ok G (pg_bootstrap lower email m)"
proof (cases "email = []")
  case False
  let ?f = "\<lambda>u. if us_Email u = lower email then u\<lparr>us_IsAdmin := True\<rparr> else u"
  have "pg_ok G (m\<lparr>pg_sched := ios, pg_users := map ?f (pg_users m)\<rparr>)" for ios
    using m G [OF False] pg_update_inv [of ?f "m\<lparr>pg_sched := ios\<rparr>"] by (auto simp: pg_ok_def)
  moreover have "pg_ok G (m\<lparr>pg_sched := ios\<rparr>)" for ios using m by (simp add: pg_ok_def)
  moreover obtain m' r where q: "pg_query (\<lambda>m. (m\<lparr>pg_users := map ?f (pg_users m)\<rparr>, Inr () :: account_error + unit)) m = (m', r)" by fastforce
  ultimately have "pg_ok G m'" by (cases rule: pg_query_cases [OF q]) auto
  then show ?thesis using False q by (simp add: pg_bootstrap_def)
qed (use m in \<open>simp add: pg_bootstrap_def\<close>)

lemma pg_run_ok:
  "pg_ok G m \<Longrightarrow> (\<And>lower email. PGBoot lower email \<in> set xs \<Longrightarrow> email \<noteq> [] \<Longrightarrow> G (lower email)) \<Longrightarrow> pg_ok G (pg_run prm txt ck xs m)"
proof (induction xs arbitrary: m)
  case (Cons x xs)
  have "pg_ok G (pg_exec prm txt ck x m)"
  proof (cases x)
    case (PGCall y)
    then show ?thesis using pgs.service_exec_ok Cons.prems(1) by (simp add: pg_ok_eq)
  next
    case (PGBoot lower email)
    then show ?thesis using pg_bootstrap_ok [OF Cons.prems(1)] Cons.prems(2) by simp
  qed
  then show ?case using Cons.IH Cons.prems(2) by simp
qed simp

section \<open>Properties of the PostgreSQL store\<close>

text \<open>C16: The accounts in the database stay consistent. Whatever the account service is asked to do and
  whichever statements fail or lose their answer, from empty tables: no two users share an id or an
  email, every session and API key belongs to a user and is unique, and the only administrators are
  the users whose email the operator configured at a boot.\<close>

theorem pg_accounts_sound:
  assumes "m = pg_run prm txt ck xs (empty_pg sched)"
  shows "(\<forall>u \<in> set (pg_users m). \<forall>v \<in> set (pg_users m). us_ID u = us_ID v \<or> us_Email u = us_Email v \<longrightarrow> u = v)
    \<and> distinct (map se_TokenHash (pg_sessions m)) \<and> distinct (map ak_KeyID (pg_keys m))
    \<and> se_UserID ` set (pg_sessions m) \<union> ak_UserID ` set (pg_keys m) \<subseteq> us_ID ` set (pg_users m)
    \<and> (\<forall>u \<in> set (pg_users m). us_IsAdmin u \<longrightarrow> (\<exists>lower email. PGBoot lower email \<in> set xs \<and> email \<noteq> [] \<and> us_Email u = lower email))"
proof -
  let ?G = "\<lambda>e. \<exists>lower email. PGBoot lower email \<in> set xs \<and> email \<noteq> [] \<and> e = lower email"
  have "pg_ok ?G (empty_pg sched)" by (simp add: pg_ok_def pg_inv_def empty_pg_def)
  then have ok: "pg_ok ?G m" unfolding assms by (rule pg_run_ok) blast
  then have "inj_on us_ID (set (pg_users m))" "inj_on us_Email (set (pg_users m))" by (auto simp: pg_ok_def pg_inv_def distinct_map)
  then have "\<forall>u \<in> set (pg_users m). \<forall>v \<in> set (pg_users m). us_ID u = us_ID v \<or> us_Email u = us_Email v \<longrightarrow> u = v" by (auto dest: inj_onD)
  with ok show ?thesis by (auto simp: pg_ok_def pg_inv_def)
qed

definition demo_pg :: PGStore where
  "demo_pg = pg_run demo_prm demo_text None [PGCall (ASignup (Some ''salt'') ''a@x'' ''password-a''), PGCall (ASignup (Some ''salt'') ''a@x'' ''password-b''),
     PGBoot (\<lambda>s. s) ''a@x'', PGCall (ALogin 0 0 (Some ''a'') ''a@x'' ''password-a'' [])] (empty_pg [DbAckLost])"

theorem pg_accounts_sound_witness:
  "map us_Email (pg_users demo_pg) = [''a@x''] \<and> se_UserID ` set (pg_sessions demo_pg) \<union> ak_UserID ` set (pg_keys demo_pg) \<subseteq> us_ID ` set (pg_users demo_pg)"
proof -
  have "map us_Email (pg_users demo_pg) = [''a@x'']" by code_simp
  with pg_accounts_sound [OF demo_pg_def] show ?thesis by blast
qed

text \<open>C15: Sessions in the database. A login that succeeds over PostgreSQL, whatever failed around it, was for
  the user of that email with the right password and, when 2FA is on, a valid code; the token then
  authenticates nobody else and not after 24 hours; and while the database answers, it does
  authenticate this user until then, up to the microsecond the column can hold.\<close>

theorem pg_login_sound:
  assumes "pg_inv m" "Login prm txt pg now now2 rnd email password code m = (m', Inr (token, u))"
  shows "u \<in> set (pg_users m) \<and> us_Email u = ToLower txt (TrimSpace txt email) \<and> VerifyPassword prm password (us_PasswordHash u) = Inr ()
    \<and> (us_TOTPEnabled u \<longrightarrow> code \<noteq> [] \<and> VerifyTOTP prm (us_TOTPSecret u) code now)
    \<and> (\<forall>t m'' v. Authenticate prm pg t token m' = (m'', Inr v) \<longrightarrow> v = u \<and> t \<le> now2 + SessionTTL)
    \<and> (\<forall>t. pg_sched m' = [] \<and> t \<le> now2 + SessionTTL - 1000 \<longrightarrow> snd (Authenticate prm pg t token m') = Inr u)"
proof -
  note l = pgs.Login_sound [OF assms]
  let ?se = "pg_row \<lparr>se_TokenHash = HashSecret prm token, se_UserID = us_ID u, se_ExpiresAt = now2 + SessionTTL\<rparr>"
  have s: "pg_session m' (HashSecret prm token) = Some ?se" "pg_inv m'" "pg_user m' (us_ID u) = Some u" using l by auto
  have e: "se_ExpiresAt ?se \<le> now2 + SessionTTL" "now2 + SessionTTL - 1000 \<le> se_ExpiresAt ?se"
    using mult_div_mod_eq [of 1000 "now2 + SessionTTL"] pos_mod_bound [of 1000 "now2 + SessionTTL"] pos_mod_sign [of 1000 "now2 + SessionTTL"]
    by (auto simp: pg_row_def pg_time_def)
  have u: "se_UserID ?se = us_ID u" by (simp add: pg_row_def)
  have "v = u \<and> t \<le> now2 + SessionTTL" if "Authenticate prm pg t token m' = (m'', Inr v)" for t m'' v
    using pgs.Authenticate_sound [OF s(2) that] s(1,3) e(1) u by auto
  moreover have "snd (Authenticate prm pg t token m') = Inr u" if "pg_sched m' = []" "t \<le> now2 + SessionTTL - 1000" for t
    using that s(1,3) e(2) u
    by (simp add: Authenticate_def pg_def PGStore_SessionByTokenHash_def PGStore_UserByID_def pg_query_def scanUser_def)
  moreover have "u \<in> set (pg_users m)" using l pg_user_iff [OF assms(1)] by blast
  ultimately show ?thesis using l by blast
qed

definition demo_pg_user :: PGStore where
  "demo_pg_user = pg_run demo_prm demo_text None [PGCall (ASignup (Some ''salt'') ''a@x'' ''password-a'')] (empty_pg [])"

theorem pg_login_sound_witness:
  "\<exists>m' token u. Login demo_prm demo_text pg 0 5 (Some ''a'') ''a@x'' ''password-a'' [] demo_pg_user = (m', Inr (token, u))
     \<and> u \<in> set (pg_users demo_pg_user) \<and> snd (Authenticate demo_prm pg 1000 token m') = Inr u"
proof -
  let ?l = "Login demo_prm demo_text pg 0 5 (Some ''a'') ''a@x'' ''password-a'' [] demo_pg_user"
  have c: "map_sum (\<lambda>_. ()) (\<lambda>_. ()) (snd ?l) = Inr ()" "pg_sched (fst ?l) = []" by code_simp+
  then obtain m' token u where l: "?l = (m', Inr (token, u))" by (cases ?l; cases "snd ?l") auto
  have "pg_ok (\<lambda>_. True) demo_pg_user" unfolding demo_pg_user_def
    by (rule pg_run_ok) (simp_all add: pg_ok_def pg_inv_def empty_pg_def)
  then have "pg_inv demo_pg_user" by (simp add: pg_ok_def)
  from pg_login_sound [OF this l] c l show ?thesis by (auto simp: SessionTTL_def second_def)
qed

end
