(* ===== verification/Float64.thy ===== *)
theory Float64
  imports Support "HOL-Library.Log_Nat"
begin

text \<open>
  The rounding of \<open>float64\<close> arithmetic, as far as the rate limiter depends on it.
\<close>

section \<open>Floating point\<close>

text \<open>
  A \<open>float64\<close> operation is the exact operation followed by rounding to 53 significant bits, ties to
  even. The exponent is not bounded, so infinities and subnormal numbers do not occur.
\<close>

definition flog2 :: "rat \<Rightarrow> int" where
  "flog2 x = (let (a, b) = quotient_of x; k = bitlen a - bitlen b in if 2 powi k \<le> x then k else k - 1)"

definition round_even :: "rat \<Rightarrow> int" where
  "round_even y = (let n = \<lfloor>y\<rfloor>; d = y - of_int n
     in if d < 1 / 2 then n else if d > 1 / 2 then n + 1 else if even n then n else n + 1)"

definition fl64 :: "rat \<Rightarrow> rat" where
  "fl64 x = (if x = 0 then 0 else let e = flog2 \<bar>x\<bar> - 52 in of_int (round_even (x / 2 powi e)) * 2 powi e)"

lemma round_even_error: "\<bar>of_int (round_even y) - y\<bar> \<le> 1 / 2"
proof -
  have "of_int \<lfloor>y\<rfloor> \<le> y" "y < of_int \<lfloor>y\<rfloor> + 1" by linarith+
  then show ?thesis by (auto simp: round_even_def Let_def abs_le_iff)
qed

lemma round_even_int [simp]: "round_even (of_int n) = n"
  by (simp add: round_even_def)

lemma flog2_bound:
  assumes "0 < x"
  shows "2 powi flog2 x \<le> x"
proof -
  obtain a b where q: "quotient_of x = (a, b)" by fastforce
  have b: "0 < b" using quotient_of_denom_pos [OF q] .
  have x: "x = of_int a / of_int b" using quotient_of_div [OF q] .
  have a: "0 < a" using assms b unfolding x by (simp add: zero_less_divide_iff)
  have "2 powi (bitlen a - 1) \<le> (of_int a :: rat)"
  proof -
    have "2 ^ nat (bitlen a - 1) \<le> a" using bitlen_bounds [OF a] by simp
    then have "(2 :: rat) ^ nat (bitlen a - 1) \<le> of_int a" by (metis of_int_le_iff of_int_numeral of_int_power)
    moreover have "1 \<le> bitlen a" using a bitlen_eq_zero_iff [of a] bitlen_nonneg [of a] by linarith
    ultimately show ?thesis by (simp add: power_int_def)
  qed
  moreover have "(of_int b :: rat) \<le> 2 powi bitlen b"
  proof -
    have "b < 2 ^ nat (bitlen b)" using bitlen_bounds [OF b] by simp
    then have "(of_int b :: rat) \<le> 2 ^ nat (bitlen b)" by (metis less_imp_le of_int_le_iff of_int_numeral of_int_power)
    then show ?thesis by (simp add: power_int_def bitlen_nonneg)
  qed
  ultimately have "2 powi (bitlen a - 1) / 2 powi bitlen b \<le> x"
    unfolding x using a b by (intro frac_le) simp_all
  then have "2 powi (bitlen a - bitlen b - 1) \<le> x" by (simp add: power_int_diff)
  then show ?thesis by (auto simp: flog2_def q Let_def)
qed

lemma fl64_error: "\<bar>fl64 x - x\<bar> \<le> \<bar>x\<bar> / 2 ^ 53"
proof (cases "x = 0")
  case False
  define e where "e = flog2 \<bar>x\<bar> - 52"
  have p: "(0 :: rat) < 2 powi e" by simp
  have "2 powi e * 2 ^ 52 = (2 powi flog2 \<bar>x\<bar> :: rat)" unfolding e_def by (simp add: power_int_diff)
  with flog2_bound [of "\<bar>x\<bar>"] False have le: "2 powi e * 2 ^ 52 \<le> \<bar>x\<bar>" by simp
  let ?y = "x / 2 powi e"
  have "fl64 x - x = (of_int (round_even ?y) - ?y) * 2 powi e"
    using False p by (simp add: fl64_def e_def Let_def left_diff_distrib)
  then have "\<bar>fl64 x - x\<bar> = \<bar>of_int (round_even ?y) - ?y\<bar> * 2 powi e" using p by (simp add: abs_mult)
  also have "\<dots> \<le> 1 / 2 * 2 powi e" using round_even_error p by (intro mult_right_mono) simp_all
  finally show ?thesis using le by simp
qed (simp add: fl64_def)

lemma fl64_int: "\<bar>n\<bar> < 2 ^ 53 \<Longrightarrow> fl64 (of_int n) = of_int n"
proof (cases "n = 0")
  case False
  assume n: "\<bar>n\<bar> < 2 ^ 53"
  define k where "k = flog2 \<bar>of_int n :: rat\<bar>"
  have "2 powi k \<le> (of_int \<bar>n\<bar> :: rat)" using flog2_bound [of "\<bar>of_int n\<bar>"] False by (simp add: k_def)
  also have "\<dots> < of_int (2 ^ 53)" using n by (simp only: of_int_less_iff)
  finally have lt: "(2 :: rat) powi k < 2 powi 53" by simp
  have k: "k < 53"
  proof (rule ccontr)
    assume "\<not> k < 53"
    then have "(2 :: rat) powi 53 \<le> 2 powi k" by (intro power_int_increasing) simp_all
    with lt show False by simp
  qed
  have "(of_int n :: rat) / 2 powi (k - 52) = of_int (n * 2 ^ nat (52 - k))"
    using k by (simp add: power_int_def divide_simps)
  moreover have "(2 :: rat) powi (k - 52) * 2 ^ nat (52 - k) = 1"
    using k by (simp add: power_int_def divide_simps)
  ultimately show ?thesis using False unfolding fl64_def Let_def k_def [symmetric]
    by (simp only: round_even_int) (simp add: mult.assoc [symmetric], simp add: mult.commute mult.left_commute)
qed (simp add: fl64_def)

end
