(* ===== verification/RateLimit.thy ===== *)
theory RateLimit
  imports Float64
begin

text \<open>
  The token-bucket rate limiters (\<open>src/libs/ratelimit/ratelimit.go\<close>): the in-memory one, and the
  shared one with its Redis script, a database with expiring keys and failing calls. Products and sums
  are rounded separately (no fused multiply-add). The lemmas about one call hold for every rounding
  with a relative error.
\<close>

section \<open>The token bucket\<close>

record Config =
  cf_Rate :: rat
  cf_Burst :: rat

record bucket =
  bk_tokens :: rat
  bk_last :: time

type_synonym MemoryLimiter = "string \<rightharpoonup> bucket"

definition NewMemory :: MemoryLimiter where "NewMemory = Map.empty"

text \<open>\<open>Duration.Seconds\<close> adds the whole seconds and the fraction, both as floats.\<close>

definition Seconds :: "(rat \<Rightarrow> rat) \<Rightarrow> int64 \<Rightarrow> rat" where
  "Seconds fl d = fl (fl (of_int (d sdiv second)) + fl (fl (of_int (d smod second)) / 10 ^ 9))"

text \<open>The steps of both limiters after the elapsed time is known: refill up to the burst, then take one.\<close>

definition refill :: "(rat \<Rightarrow> rat) \<Rightarrow> Config \<Rightarrow> rat \<Rightarrow> rat \<Rightarrow> rat" where
  "refill fl cfg tokens elapsed = min (cf_Burst cfg) (fl (tokens + fl (elapsed * cf_Rate cfg)))"

definition take_token :: "(rat \<Rightarrow> rat) \<Rightarrow> rat \<Rightarrow> rat \<times> bool" where
  "take_token fl tokens = (if tokens \<ge> 1 then (fl (tokens - 1), True) else (tokens, False))"

definition MemoryLimiter_Allow :: "(rat \<Rightarrow> rat) \<Rightarrow> Config \<Rightarrow> time \<Rightarrow> string \<Rightarrow> MemoryLimiter \<Rightarrow> MemoryLimiter \<times> bool" where
  "MemoryLimiter_Allow fl cfg now key m =
     (let b = (case m key of None \<Rightarrow> \<lparr>bk_tokens = cf_Burst cfg, bk_last = now\<rparr> | Some b \<Rightarrow> b);
          elapsed = Seconds fl (time_Sub now (bk_last b));
          (tokens, ok) = take_token fl (refill fl cfg (bk_tokens b) elapsed)
      in (m(key \<mapsto> \<lparr>bk_tokens = tokens, bk_last = now\<rparr>), ok))"

section \<open>The shared limiter\<close>

text \<open>
  A key of the Redis database holds the bucket and the instant, on the server's clock in seconds, at
  which it expires. A call can fail before the script ran or after it.
\<close>

record redis_entry =
  re_tokens :: rat
  re_ts :: int
  re_expires :: int

type_synonym redis_db = "string \<rightharpoonup> redis_entry"

datatype redis_io = RedisOk | RedisFail | RedisLost

definition redis_get :: "int \<Rightarrow> string \<Rightarrow> redis_db \<Rightarrow> redis_entry option" where
  "redis_get clock key db = (case db key of None \<Rightarrow> None | Some e \<Rightarrow> if clock < re_expires e then Some e else None)"

definition tokenBucketScript :: "(rat \<Rightarrow> rat) \<Rightarrow> string \<Rightarrow> Config \<Rightarrow> int \<Rightarrow> int \<Rightarrow> int \<Rightarrow> redis_db \<Rightarrow> redis_db \<times> bool" where
  "tokenBucketScript fl key cfg now ttl clock db =
     (let (tokens, ts) = (case redis_get clock key db of None \<Rightarrow> (cf_Burst cfg, now) | Some e \<Rightarrow> (re_tokens e, re_ts e));
          elapsed = max 0 (fl (of_int (now - ts)));
          (tokens, allowed) = take_token fl (refill fl cfg tokens elapsed)
      in (db(key \<mapsto> \<lparr>re_tokens = tokens, re_ts = now, re_expires = clock + ttl\<rparr>), allowed))"

definition redis_ttl :: "(rat \<Rightarrow> rat) \<Rightarrow> Config \<Rightarrow> int" where
  "redis_ttl fl cfg = i64_add (wrap64 \<lfloor>fl (cf_Burst cfg / cf_Rate cfg)\<rfloor>) 60"

definition redis_key :: "string \<Rightarrow> string \<Rightarrow> string" where
  "redis_key prefix key = prefix @ '':'' @ key"

lemma redis_key_inject [simp]: "redis_key p k = redis_key p k' \<longleftrightarrow> k = k'"
  by (simp add: redis_key_def)

definition RedisLimiter_Allow :: "(rat \<Rightarrow> rat) \<Rightarrow> Config \<Rightarrow> string \<Rightarrow> redis_io \<Rightarrow> int \<Rightarrow> time \<Rightarrow> string \<Rightarrow> redis_db \<Rightarrow> redis_db \<times> (unit + bool)" where
  "RedisLimiter_Allow fl cfg prefix io clock now key db =
     (case io of
        RedisFail \<Rightarrow> (db, Inl ())
      | _ \<Rightarrow> (case tokenBucketScript fl (redis_key prefix key) cfg (wrap64 now sdiv second) (redis_ttl fl cfg) clock db of
               (db, allowed) \<Rightarrow> (db, if io = RedisLost then Inl () else Inr allowed)))"

section \<open>Rounding\<close>

text \<open>What the limiters need of rounding: a relative error, and exact small integers.\<close>

definition eps :: rat where "eps = 1 / 2 ^ 53"

lemma eps_bounds: "0 < eps" "eps < 1" "0 \<le> eps"
  by (simp_all add: eps_def)

locale rounding =
  fixes fl :: "rat \<Rightarrow> rat"
  assumes fl_error: "\<bar>fl x - x\<bar> \<le> eps * \<bar>x\<bar>"
    and fl_int: "\<bar>n\<bar> < 2 ^ 53 \<Longrightarrow> fl (of_int n) = of_int n"
begin

lemma fl_up:
  assumes "0 \<le> x" "x \<le> a"
  shows "fl x \<le> a * (1 + eps)"
proof -
  have "fl x \<le> x + eps * x" using fl_error [of x] assms by (simp add: abs_le_iff)
  also have "\<dots> \<le> a + eps * a" using assms eps_bounds by (intro add_mono mult_left_mono) simp_all
  finally show ?thesis by (simp add: algebra_simps)
qed

lemma fl_low:
  assumes "0 \<le> a" "a \<le> x"
  shows "a * (1 - eps) \<le> fl x"
proof -
  have "a * (1 - eps) \<le> x * (1 - eps)" using assms eps_bounds by (intro mult_right_mono) simp_all
  also have "\<dots> \<le> fl x" using fl_error [of x] assms by (simp add: abs_le_iff algebra_simps)
  finally show ?thesis .
qed

lemma fl_nonneg: "0 \<le> x \<Longrightarrow> 0 \<le> fl x"
  using fl_low [of 0 x] by simp

lemma Seconds_bounds:
  assumes "0 \<le> d"
  shows "0 \<le> Seconds fl d" "Seconds fl d \<le> of_int d / 10 ^ 9 * (1 + eps) ^ 3" "of_int d / 10 ^ 9 * (1 - eps) ^ 3 \<le> Seconds fl d"
proof -
  have q: "d sdiv second = d div second" "d smod second = d mod second"
    using assms by (cases "d = 0"; simp add: second_def signed_divide_int_def signed_modulo_int_def)+
  let ?s = "of_int (d div second) :: rat" and ?n = "of_int (d mod second) / 10 ^ 9 :: rat"
  have nn: "0 \<le> ?s" "0 \<le> ?n" using assms by (simp_all add: second_def)
  have dd: "of_int d / 10 ^ 9 = ?s + ?n"
  proof -
    have "(of_int d :: rat) = of_int (second * (d div second) + d mod second)" by simp
    then have "(of_int d :: rat) = 10 ^ 9 * ?s + of_int (d mod second)" unfolding of_int_add of_int_mult by (simp add: second_def)
    then show ?thesis by (simp add: add_divide_distrib)
  qed
  have up: "fl ?s \<le> ?s * (1 + eps)" "fl (fl (of_int (d mod second)) / 10 ^ 9) \<le> ?n * (1 + eps) * (1 + eps)"
  proof -
    show "fl ?s \<le> ?s * (1 + eps)" using nn by (intro fl_up) simp_all
    have "fl (of_int (d mod second)) \<le> of_int (d mod second) * (1 + eps)" by (intro fl_up) (simp_all add: second_def)
    then have "fl (of_int (d mod second)) / 10 ^ 9 \<le> ?n * (1 + eps)" by (simp add: divide_right_mono)
    moreover have "0 \<le> fl (of_int (d mod second))" by (intro fl_nonneg) (simp add: second_def)
    ultimately show "fl (fl (of_int (d mod second)) / 10 ^ 9) \<le> ?n * (1 + eps) * (1 + eps)" by (intro fl_up) simp_all
  qed
  have low: "?s * (1 - eps) \<le> fl ?s" "?n * (1 - eps) * (1 - eps) \<le> fl (fl (of_int (d mod second)) / 10 ^ 9)"
  proof -
    show "?s * (1 - eps) \<le> fl ?s" using nn by (intro fl_low) simp_all
    have "of_int (d mod second) * (1 - eps) \<le> fl (of_int (d mod second))" by (intro fl_low) (simp_all add: second_def)
    then have "?n * (1 - eps) \<le> fl (of_int (d mod second)) / 10 ^ 9" by (simp add: divide_right_mono)
    then show "?n * (1 - eps) * (1 - eps) \<le> fl (fl (of_int (d mod second)) / 10 ^ 9)"
      using nn(2) eps_bounds by (intro fl_low mult_nonneg_nonneg) simp_all
  qed
  have e1: "?s * (1 + eps) \<le> ?s * (1 + eps) * (1 + eps)"
    using mult_left_mono [of 1 "1 + eps" "?s * (1 + eps)"] nn(1) eps_bounds by simp
  have e2: "?s * (1 - eps) * (1 - eps) \<le> ?s * (1 - eps)"
    using nn(1) eps_bounds by (intro mult_left_le) simp_all
  have pos: "0 \<le> fl ?s + fl (fl (of_int (d mod second)) / 10 ^ 9)"
    using fl_nonneg nn by (simp add: second_def)
  show "0 \<le> Seconds fl d" unfolding Seconds_def q using pos by (rule fl_nonneg)
  have "fl ?s + fl (fl (of_int (d mod second)) / 10 ^ 9) \<le> (?s + ?n) * (1 + eps) * (1 + eps)"
    unfolding distrib_right [of ?s ?n] distrib_right [of "?s * _"] using up e1 by linarith
  from fl_up [OF pos this] show "Seconds fl d \<le> of_int d / 10 ^ 9 * (1 + eps) ^ 3"
    unfolding Seconds_def q dd by (simp add: power3_eq_cube mult.assoc)
  have "(?s + ?n) * (1 - eps) * (1 - eps) \<le> fl ?s + fl (fl (of_int (d mod second)) / 10 ^ 9)"
    unfolding distrib_right [of ?s ?n] distrib_right [of "?s * _"] using low e2 by linarith
  from fl_low [OF _ this] show "of_int d / 10 ^ 9 * (1 - eps) ^ 3 \<le> Seconds fl d"
    unfolding Seconds_def q dd using nn eps_bounds by (simp add: power3_eq_cube mult.assoc)
qed

text \<open>One call: the bucket stays within its bounds, and what it gives out it had or was refilled with.\<close>

lemma bucket_step:
  assumes "0 \<le> t" "t \<le> cf_Burst cfg" "cf_Burst cfg \<le> 2 ^ 50" "0 < cf_Rate cfg" "0 \<le> elapsed"
    and "take_token fl (refill fl cfg t elapsed) = (t', ok)"
  shows "0 \<le> t' \<and> t' \<le> cf_Burst cfg \<and> t' + of_bool ok \<le> cf_Burst cfg * (1 + eps)
    \<and> t' + of_bool ok \<le> t + elapsed * cf_Rate cfg * (1 + eps) ^ 2 + 2 * eps * cf_Burst cfg"
proof -
  let ?B = "cf_Burst cfg" and ?p = "fl (elapsed * cf_Rate cfg)"
  define s where "s = fl (t + ?p)"
  have p: "0 \<le> ?p" "?p \<le> elapsed * cf_Rate cfg * (1 + eps)" using assms by (auto intro!: fl_nonneg fl_up)
  have s0: "0 \<le> s" unfolding s_def using assms(1) p(1) by (intro fl_nonneg) simp
  have "s \<le> (t + ?p) * (1 + eps)" unfolding s_def using assms(1) p(1) by (intro fl_up) simp_all
  also have "\<dots> = t + ?p * (1 + eps) + eps * t" by (simp add: algebra_simps)
  also have "\<dots> \<le> t + elapsed * cf_Rate cfg * (1 + eps) * (1 + eps) + eps * ?B"
    using p(2) assms(2) eps_bounds by (intro add_mono mult_left_mono mult_right_mono) simp_all
  finally have s: "s \<le> t + elapsed * cf_Rate cfg * (1 + eps) ^ 2 + eps * ?B" by (simp add: power2_eq_square mult.assoc)
  have B: "0 \<le> ?B" "eps * ?B \<le> 1" using assms(1-3) by (simp_all add: eps_def)
  let ?r = "min ?B s"
  have r: "refill fl cfg t elapsed = ?r" by (simp add: refill_def s_def)
  show ?thesis
  proof (cases "?r \<ge> 1")
    case True
    then have t': "t' = fl (?r - 1)" "ok" using assms(6) by (simp_all add: r take_token_def)
    have "t' \<le> (?r - 1) * (1 + eps)" unfolding t'(1) using True by (intro fl_up) simp_all
    also have "\<dots> = ?r - 1 + eps * ?r - eps" by (simp add: algebra_simps)
    also have "\<dots> \<le> ?r - 1 + eps * ?B" using mult_left_mono [of ?r ?B eps, OF min.cobounded1 eps_bounds(3)] eps_bounds(1) by linarith
    finally have le: "t' + 1 \<le> ?r + eps * ?B" by simp
    have t0: "0 \<le> t'" unfolding t'(1) using True by (intro fl_nonneg) simp
    have "t' + 1 \<le> ?B * (1 + eps)" using le by (simp add: algebra_simps)
    moreover have "t' + 1 \<le> t + elapsed * cf_Rate cfg * (1 + eps) ^ 2 + 2 * eps * ?B" using le s by simp
    moreover have "t' \<le> ?B" using le B(2) by simp
    ultimately show ?thesis using t0 t'(2) by simp
  next
    case False
    then have t': "t' = ?r" "\<not> ok" using assms(6) by (auto simp: r take_token_def)
    have b: "?B \<le> ?B * (1 + eps)" using B(1) eps_bounds by (simp add: algebra_simps)
    have r2: "?r \<le> ?B" "?r \<le> s" "0 \<le> ?r" using B(1) s0 by simp_all
    have "0 \<le> eps * ?B" using B(1) eps_bounds by simp
    moreover have "2 * eps * ?B = eps * ?B + eps * ?B" by simp
    ultimately have "?r \<le> ?B * (1 + eps)" "?r \<le> t + elapsed * cf_Rate cfg * (1 + eps) ^ 2 + 2 * eps * ?B" using r2 s b by linarith+
    then show ?thesis using t' r2 by simp
  qed
qed

end

interpretation fl64: rounding fl64
proof
  show "\<bar>fl64 x - x\<bar> \<le> eps * \<bar>x\<bar>" for x using fl64_error [of x] by (simp add: eps_def)
qed (rule fl64_int)

end
