(* ===== verification/RateLimitProps.thy ===== *)
theory RateLimitProps
  imports RateLimit
begin

text \<open>
  Runs of the limiters: the rate bound, progress, and the equivalence of the two limiters.
\<close>

section \<open>Runs of the in-memory limiter\<close>

definition config_ok :: "Config \<Rightarrow> bool" where
  "config_ok cfg \<longleftrightarrow> 0 < cf_Rate cfg \<and> 0 \<le> cf_Burst cfg \<and> cf_Burst cfg \<le> 2 ^ 50 \<and> cf_Burst cfg \<le> 2 ^ 50 * cf_Rate cfg"

text \<open>A list of calls, each with its time and key, and their answers.\<close>

fun limiter_run :: "(rat \<Rightarrow> rat) \<Rightarrow> Config \<Rightarrow> (time \<times> string) list \<Rightarrow> MemoryLimiter \<Rightarrow> MemoryLimiter \<times> bool list" where
  "limiter_run fl cfg [] m = (m, [])"
| "limiter_run fl cfg ((now, key) # cs) m =
     (case MemoryLimiter_Allow fl cfg now key m of (m, ok) \<Rightarrow>
      case limiter_run fl cfg cs m of (m, oks) \<Rightarrow> (m, ok # oks))"

definition requested :: "string \<Rightarrow> (time \<times> string) list \<Rightarrow> nat" where
  "requested key cs = length (filter (\<lambda>c. snd c = key) cs)"

definition admitted :: "string \<Rightarrow> (time \<times> string) list \<Rightarrow> bool list \<Rightarrow> nat" where
  "admitted key cs oks = length (filter (\<lambda>(c, ok). snd c = key \<and> ok) (zip cs oks))"

lemma count_simps [simp]:
  "requested k [] = 0" "requested k (c # cs) = of_bool (snd c = k) + requested k cs"
  "admitted k [] oks = 0" "admitted k (c # cs) (ok # oks) = of_bool (snd c = k \<and> ok) + admitted k cs oks"
  by (simp_all add: requested_def admitted_def)

text \<open>Times do not run backwards and fit \<open>int64\<close> nanoseconds.\<close>

fun times_from :: "time \<Rightarrow> (time \<times> string) list \<Rightarrow> bool" where
  "times_from t [] = (0 \<le> t \<and> t \<le> max_int64)"
| "times_from t ((now, key) # cs) = (0 \<le> t \<and> t \<le> now \<and> times_from now cs)"

lemma times_from_bounds: "times_from t cs \<Longrightarrow> 0 \<le> t \<and> t \<le> max_int64"
  by (induction t cs rule: times_from.induct) auto

lemma times_from_append: "times_from t (xs @ ys) \<longleftrightarrow> times_from t xs \<and> times_from (last (t # map fst xs)) ys"
proof (induction t xs rule: times_from.induct)
  case (1 t)
  then show ?case using times_from_bounds by auto
next
  case (2 t now key cs)
  then show ?case by (cases cs) auto
qed

lemma last_times_le: "t \<le> e \<Longrightarrow> \<forall>c \<in> set cs. a \<le> fst c \<and> fst c \<le> e \<Longrightarrow> last (t # map fst cs) \<le> e"
  by (cases cs rule: rev_cases) auto

definition limiter_inv :: "Config \<Rightarrow> time \<Rightarrow> MemoryLimiter \<Rightarrow> bool" where
  "limiter_inv cfg t m \<longleftrightarrow> (\<forall>k b. m k = Some b \<longrightarrow> 0 \<le> bk_tokens b \<and> bk_tokens b \<le> cf_Burst cfg \<and> 0 \<le> bk_last b \<and> bk_last b \<le> t)"

lemma limiter_invD:
  "limiter_inv cfg t m \<Longrightarrow> m k = Some b \<Longrightarrow> 0 \<le> bk_tokens b \<and> bk_tokens b \<le> cf_Burst cfg \<and> 0 \<le> bk_last b \<and> bk_last b \<le> t"
  by (simp add: limiter_inv_def)

lemma limiter_inv_upd:
  "limiter_inv cfg t m \<Longrightarrow> t \<le> now \<Longrightarrow> 0 \<le> now \<Longrightarrow> 0 \<le> x \<Longrightarrow> x \<le> cf_Burst cfg
   \<Longrightarrow> limiter_inv cfg now (m(k \<mapsto> \<lparr>bk_tokens = x, bk_last = now\<rparr>))"
  unfolding limiter_inv_def by (simp add: order_trans) (meson order_trans)

context rounding
begin

text \<open>One call, in terms of the bucket it finds (a new one is full).\<close>

lemma Allow_step:
  assumes "config_ok cfg" "limiter_inv cfg t m" "t \<le> now" "0 \<le> now" "now \<le> max_int64"
  shows "\<exists>x ok. MemoryLimiter_Allow fl cfg now key m = (m(key \<mapsto> \<lparr>bk_tokens = x, bk_last = now\<rparr>), ok)
    \<and> 0 \<le> x \<and> x \<le> cf_Burst cfg \<and> x + of_bool ok \<le> cf_Burst cfg * (1 + eps)
    \<and> (\<forall>b. m key = Some b \<longrightarrow> x + of_bool ok \<le> bk_tokens b
       + of_int (now - bk_last b) / 10 ^ 9 * cf_Rate cfg * (1 + eps) ^ 5 + 2 * eps * cf_Burst cfg)"
proof -
  define b where "b = (case m key of None \<Rightarrow> \<lparr>bk_tokens = cf_Burst cfg, bk_last = now\<rparr> | Some b \<Rightarrow> b)"
  have c: "0 \<le> cf_Burst cfg" "cf_Burst cfg \<le> 2 ^ 50" "0 < cf_Rate cfg" using assms(1) by (simp_all add: config_ok_def)
  have b: "0 \<le> bk_tokens b" "bk_tokens b \<le> cf_Burst cfg" "0 \<le> bk_last b" "bk_last b \<le> now"
    using limiter_invD [OF assms(2), of key] assms(3,4) c by (auto simp: b_def split: option.split)
  have d: "time_Sub now (bk_last b) = now - bk_last b" using b assms(5) by (simp add: time_Sub_def)
  let ?e = "Seconds fl (now - bk_last b)" and ?d = "of_int (now - bk_last b) / 10 ^ 9 :: rat"
  have e: "0 \<le> ?e" "?e \<le> ?d * (1 + eps) ^ 3" using Seconds_bounds [of "now - bk_last b"] b(4) by simp_all
  obtain x ok where x: "take_token fl (refill fl cfg (bk_tokens b) ?e) = (x, ok)" by fastforce
  note s = bucket_step [OF b(1,2) c(2,3) e(1) x]
  have "?e * cf_Rate cfg * (1 + eps) ^ 2 \<le> ?d * (1 + eps) ^ 3 * cf_Rate cfg * (1 + eps) ^ 2"
    using e(2) c(3) eps_bounds by (intro mult_right_mono) simp_all
  also have "\<dots> = ?d * cf_Rate cfg * (1 + eps) ^ 5" by (simp add: power_add [of _ 3 2, simplified])
  finally have le: "x + of_bool ok \<le> bk_tokens b + ?d * cf_Rate cfg * (1 + eps) ^ 5 + 2 * eps * cf_Burst cfg" using s by linarith
  have "MemoryLimiter_Allow fl cfg now key m = (m(key \<mapsto> \<lparr>bk_tokens = x, bk_last = now\<rparr>), ok)"
    by (simp add: MemoryLimiter_Allow_def b_def [symmetric] d x)
  moreover have "x + of_bool ok \<le> bk_tokens b' + of_int (now - bk_last b') / 10 ^ 9 * cf_Rate cfg * (1 + eps) ^ 5 + 2 * eps * cf_Burst cfg"
    if "m key = Some b'" for b' using le that by (simp add: b_def)
  ultimately show ?thesis using s by blast
qed

lemma limiter_run_inv:
  "config_ok cfg \<Longrightarrow> times_from t cs \<Longrightarrow> limiter_inv cfg t m \<Longrightarrow> limiter_inv cfg (last (t # map fst cs)) (fst (limiter_run fl cfg cs m))"
proof (induction t cs arbitrary: m rule: times_from.induct)
  case (2 t now key cs)
  then have n: "t \<le> now" "0 \<le> now" "now \<le> max_int64" using times_from_bounds [of now cs] by auto
  obtain x ok where a: "MemoryLimiter_Allow fl cfg now key m = (m(key \<mapsto> \<lparr>bk_tokens = x, bk_last = now\<rparr>), ok)" "0 \<le> x" "x \<le> cf_Burst cfg"
    using Allow_step [OF 2(2,4) n, of key] by blast
  let ?m = "m(key \<mapsto> \<lparr>bk_tokens = x, bk_last = now\<rparr>)"
  have i: "limiter_inv cfg now ?m" by (rule limiter_inv_upd [OF 2(4) n(1,2) a(2,3)])
  obtain m' oks where r: "limiter_run fl cfg cs ?m = (m', oks)" by fastforce
  have "times_from now cs" using 2(3) by simp
  from "2.IH" [OF 2(2) this i] show ?case by (simp add: a(1) r del: fun_upd_apply)
qed simp

lemma admitted_from:
  "config_ok cfg \<Longrightarrow> times_from t cs \<Longrightarrow> limiter_inv cfg t m \<Longrightarrow> m k = Some b \<Longrightarrow> last (t # map fst cs) \<le> e
   \<Longrightarrow> of_nat (admitted k cs (snd (limiter_run fl cfg cs m))) \<le> bk_tokens b
        + of_int (e - bk_last b) / 10 ^ 9 * cf_Rate cfg * (1 + eps) ^ 5 + 2 * eps * cf_Burst cfg * of_nat (requested k cs)"
proof (induction t cs arbitrary: m b rule: times_from.induct)
  case (1 t)
  then have "bk_last b \<le> e" "0 \<le> bk_tokens b" using limiter_invD [of cfg t m k b] by auto
  then show ?case using 1(1) eps_bounds by (simp add: config_ok_def)
next
  case (2 t now key cs)
  then have n: "t \<le> now" "0 \<le> now" "now \<le> max_int64" using times_from_bounds [of now cs] by auto
  obtain x ok where a: "MemoryLimiter_Allow fl cfg now key m = (m(key \<mapsto> \<lparr>bk_tokens = x, bk_last = now\<rparr>), ok)" "0 \<le> x" "x \<le> cf_Burst cfg"
    "\<And>b. m key = Some b \<Longrightarrow> x + of_bool ok \<le> bk_tokens b
       + of_int (now - bk_last b) / 10 ^ 9 * cf_Rate cfg * (1 + eps) ^ 5 + 2 * eps * cf_Burst cfg"
    using Allow_step [OF 2(2,4) n, of key] by blast
  let ?m = "m(key \<mapsto> \<lparr>bk_tokens = x, bk_last = now\<rparr>)" and ?c = "cf_Rate cfg * (1 + eps) ^ 5" and ?z = "2 * eps * cf_Burst cfg"
  have i: "limiter_inv cfg now ?m" by (rule limiter_inv_upd [OF 2(4) n(1,2) a(2,3)])
  have tf: "times_from now cs" "last (now # map fst cs) \<le> e" using 2(3,6) by auto
  obtain m' oks where r: "limiter_run fl cfg cs ?m = (m', oks)" by fastforce
  have run: "limiter_run fl cfg ((now, key) # cs) m = (m', ok # oks)" by (simp add: a(1) r del: fun_upd_apply)
  show ?case
  proof (cases "key = k")
    case True
    then have "?m k = Some \<lparr>bk_tokens = x, bk_last = now\<rparr>" by simp
    from "2.IH" [OF 2(2) tf(1) i this tf(2)] have "of_nat (admitted k cs oks) \<le> x + of_int (e - now) / 10 ^ 9 * ?c + ?z * of_nat (requested k cs)"
      by (simp add: r mult.assoc del: fun_upd_apply)
    moreover have "x + of_bool ok \<le> bk_tokens b + of_int (now - bk_last b) / 10 ^ 9 * ?c + ?z" using a(4) [of b] 2(5) True by (simp add: mult.assoc)
    moreover have "of_int (now - bk_last b) / 10 ^ 9 * ?c + of_int (e - now) / 10 ^ 9 * ?c = of_int (e - bk_last b) / 10 ^ 9 * ?c"
      by (simp add: distrib_right [symmetric] add_divide_distrib [symmetric])
    moreover have "?z * of_nat (Suc (requested k cs)) = ?z + ?z * of_nat (requested k cs)" by (simp add: distrib_left)
    ultimately have "of_bool ok + of_nat (admitted k cs oks) \<le> bk_tokens b + of_int (e - bk_last b) / 10 ^ 9 * ?c + ?z * of_nat (Suc (requested k cs))"
      by linarith
    then show ?thesis unfolding run using True by (simp add: mult.assoc)
  next
    case False
    then have "?m k = Some b" using 2(5) by simp
    from "2.IH" [OF 2(2) tf(1) i this tf(2)] show ?thesis unfolding run using False by (simp add: r del: fun_upd_apply)
  qed
qed

lemma admitted_window:
  "config_ok cfg \<Longrightarrow> times_from t cs \<Longrightarrow> limiter_inv cfg t m \<Longrightarrow> a \<le> e \<Longrightarrow> \<forall>c \<in> set cs. a \<le> fst c \<and> fst c \<le> e
   \<Longrightarrow> of_nat (admitted k cs (snd (limiter_run fl cfg cs m))) \<le> cf_Burst cfg
        + of_int (e - a) / 10 ^ 9 * cf_Rate cfg * (1 + eps) ^ 5 + 2 * eps * cf_Burst cfg * of_nat (requested k cs)"
proof (induction t cs arbitrary: m rule: times_from.induct)
  case (1 t)
  then show ?case using eps_bounds by (simp add: config_ok_def)
next
  case (2 t now key cs)
  then have n: "t \<le> now" "0 \<le> now" "now \<le> max_int64" using times_from_bounds [of now cs] by auto
  obtain x ok where a: "MemoryLimiter_Allow fl cfg now key m = (m(key \<mapsto> \<lparr>bk_tokens = x, bk_last = now\<rparr>), ok)" "0 \<le> x" "x \<le> cf_Burst cfg"
    "x + of_bool ok \<le> cf_Burst cfg * (1 + eps)" using Allow_step [OF 2(2,4) n, of key] by blast
  let ?m = "m(key \<mapsto> \<lparr>bk_tokens = x, bk_last = now\<rparr>)" and ?c = "cf_Rate cfg * (1 + eps) ^ 5" and ?z = "2 * eps * cf_Burst cfg"
  have i: "limiter_inv cfg now ?m" by (rule limiter_inv_upd [OF 2(4) n(1,2) a(2,3)])
  have tf: "times_from now cs" "last (now # map fst cs) \<le> e" "a \<le> now" "\<forall>c \<in> set cs. a \<le> fst c \<and> fst c \<le> e"
    using 2(3,6) last_times_le [of now e cs a] by (simp_all del: last.simps)
  have c: "0 \<le> ?c" "0 \<le> ?z" using 2(2) eps_bounds by (simp_all add: config_ok_def)
  obtain m' oks where r: "limiter_run fl cfg cs ?m = (m', oks)" by fastforce
  have run: "limiter_run fl cfg ((now, key) # cs) m = (m', ok # oks)" by (simp add: a(1) r del: fun_upd_apply)
  show ?case
  proof (cases "key = k")
    case True
    then have "?m k = Some \<lparr>bk_tokens = x, bk_last = now\<rparr>" by simp
    from admitted_from [OF 2(2) tf(1) i this tf(2)]
    have "of_nat (admitted k cs oks) \<le> x + of_int (e - now) / 10 ^ 9 * ?c + ?z * of_nat (requested k cs)" by (simp add: r mult.assoc del: fun_upd_apply)
    moreover have "(of_int (e - now) / 10 ^ 9 :: rat) * ?c \<le> of_int (e - a) / 10 ^ 9 * ?c"
      using tf(3) c by (intro mult_right_mono divide_right_mono) simp_all
    moreover have "?z * of_nat (Suc (requested k cs)) = ?z + ?z * of_nat (requested k cs)" by (simp add: distrib_left)
    moreover have "cf_Burst cfg * (1 + eps) + eps * cf_Burst cfg = cf_Burst cfg + ?z" "0 \<le> eps * cf_Burst cfg"
      using 2(2) eps_bounds by (simp_all add: algebra_simps config_ok_def)
    ultimately have "of_bool ok + of_nat (admitted k cs oks) \<le> cf_Burst cfg + of_int (e - a) / 10 ^ 9 * ?c + ?z * of_nat (Suc (requested k cs))"
      using a(4) by linarith
    then show ?thesis unfolding run using True by (simp add: mult.assoc)
  next
    case False
    with "2.IH" [OF 2(2) tf(1) i 2(5) tf(4)] show ?thesis unfolding run by (simp add: r del: fun_upd_apply)
  qed
qed

end

context rounding
begin

lemma fl_0 [simp]: "fl 0 = 0"
  using fl_int [of 0] by simp

lemma limiter_run_last:
  "fst (limiter_run fl cfg cs m) k = Some b \<Longrightarrow> (bk_last b, k) \<in> set cs \<or> m k = Some b"
proof (induction cs arbitrary: m)
  case (Cons c cs)
  obtain now key where c: "c = (now, key)" by fastforce
  obtain x ok where a: "MemoryLimiter_Allow fl cfg now key m = (m(key \<mapsto> \<lparr>bk_tokens = x, bk_last = now\<rparr>), ok)"
    by (auto simp: MemoryLimiter_Allow_def Let_def case_prod_unfold)
  let ?m = "m(key \<mapsto> \<lparr>bk_tokens = x, bk_last = now\<rparr>)"
  have "fst (limiter_run fl cfg cs ?m) k = Some b" using Cons.prems by (simp add: c a case_prod_unfold del: fun_upd_apply)
  from Cons.IH [OF this] show ?case by (auto simp: c split: if_splits)
qed simp

text \<open>A bucket that had the time to earn one token has one.\<close>

lemma refill_earned:
  assumes "1 \<le> cf_Burst cfg" "0 < cf_Rate cfg" "0 \<le> t" "0 \<le> d" "1 + 1 / 2 ^ 50 \<le> of_int d / 10 ^ 9 * cf_Rate cfg"
  shows "1 \<le> refill fl cfg t (Seconds fl d)"
proof -
  let ?x = "of_int d / 10 ^ 9 * cf_Rate cfg" and ?e = "Seconds fl d"
  have x: "0 \<le> ?x * (1 - eps) ^ 3" "0 \<le> ?x * (1 - eps) ^ 3 * (1 - eps)" using assms eps_bounds by simp_all
  have "of_int d / 10 ^ 9 * (1 - eps) ^ 3 * cf_Rate cfg \<le> ?e * cf_Rate cfg"
    using Seconds_bounds(3) [OF assms(4)] assms(2) by (intro mult_right_mono) simp_all
  then have e: "?x * (1 - eps) ^ 3 \<le> ?e * cf_Rate cfg" by (simp add: mult_ac)
  from fl_low [OF x(1) e] have "?x * (1 - eps) ^ 3 * (1 - eps) \<le> t + fl (?e * cf_Rate cfg)" using assms(3) by linarith
  from fl_low [OF x(2) this] have "?x * (1 - eps) ^ 5 \<le> fl (t + fl (?e * cf_Rate cfg))"
    by (simp add: power_numeral_reduce mult.assoc)
  moreover have "1 \<le> (1 + 1 / 2 ^ 50) * (1 - eps) ^ 5" by (simp add: eps_def power_numeral_reduce)
  moreover have "(1 + 1 / 2 ^ 50) * (1 - eps) ^ 5 \<le> ?x * (1 - eps) ^ 5" using assms(5) eps_bounds by (intro mult_right_mono) simp_all
  ultimately have "1 \<le> fl (t + fl (?e * cf_Rate cfg))" by linarith
  then show ?thesis using assms(1) by (simp add: refill_def)
qed

lemma Seconds_whole: "0 \<le> n \<Longrightarrow> n < 2 ^ 53 \<Longrightarrow> Seconds fl (second * n) = of_int n"
  using fl_int [of n]
  by (cases "n = 0") (simp_all add: Seconds_def second_def signed_divide_int_def signed_modulo_int_def sgn_mult)

lemma redis_ttl_eq:
  assumes "config_ok cfg"
  shows "redis_ttl fl cfg = \<lfloor>fl (cf_Burst cfg / cf_Rate cfg)\<rfloor> + 60"
proof -
  have b: "0 \<le> cf_Burst cfg / cf_Rate cfg" "cf_Burst cfg / cf_Rate cfg \<le> 2 ^ 50" using assms by (simp_all add: config_ok_def divide_simps)
  have "0 \<le> fl (cf_Burst cfg / cf_Rate cfg)" "fl (cf_Burst cfg / cf_Rate cfg) \<le> 2 ^ 50 * (1 + eps)"
    by (rule fl_nonneg [OF b(1)], rule fl_up [OF b])
  then have "0 \<le> \<lfloor>fl (cf_Burst cfg / cf_Rate cfg)\<rfloor>" "\<lfloor>fl (cf_Burst cfg / cf_Rate cfg)\<rfloor> \<le> 2 ^ 50 + 1"
    by (simp_all add: eps_def floor_le_iff)
  then show ?thesis by (simp add: redis_ttl_def i64_add_def in_int64_def)
qed

text \<open>A bucket whose key expired would have been full again.\<close>

lemma refill_full:
  assumes "config_ok cfg" "0 \<le> t" "0 \<le> n" "redis_ttl fl cfg - 58 \<le> n"
  shows "refill fl cfg t (of_int n) = cf_Burst cfg"
proof -
  let ?b = "cf_Burst cfg" and ?r = "cf_Rate cfg"
  have c: "0 < ?r" "0 \<le> ?b" "?b \<le> 2 ^ 50 * ?r" using assms(1) by (simp_all add: config_ok_def)
  have "?b / ?r * (1 - eps) \<le> fl (?b / ?r)" using c by (intro fl_low) simp_all
  moreover have "fl (?b / ?r) + 1 \<le> of_int n"
  proof -
    have "\<lfloor>fl (?b / ?r)\<rfloor> + 2 \<le> n" using assms(4) by (simp add: redis_ttl_eq [OF assms(1)])
    then show ?thesis by linarith
  qed
  ultimately have "?b / ?r * (1 - eps) + 1 \<le> of_int n" by linarith
  then have "(?b / ?r * (1 - eps) + 1) * ?r \<le> of_int n * ?r" using c(1) by (intro mult_right_mono) simp_all
  moreover have "(?b / ?r * (1 - eps) + 1) * ?r = ?b * (1 - eps) + ?r" using c(1) by (simp add: field_simps)
  ultimately have n: "?b * (1 - eps) + ?r \<le> of_int n * ?r" by simp
  have "?b \<le> (?b * (1 - eps) + ?r) * (1 - eps) * (1 - eps)"
  proof -
    have "?b * (1 - (1 - eps) ^ 3) \<le> 2 ^ 50 * ?r * (1 - (1 - eps) ^ 3)" using c by (intro mult_right_mono) (simp_all add: eps_def power_numeral_reduce)
    also have "\<dots> = ?r * (2 ^ 50 * (1 - (1 - eps) ^ 3))" by simp
    also have "\<dots> \<le> ?r * (1 - eps) ^ 2" using c(1) by (intro mult_left_mono) (simp_all add: eps_def power_numeral_reduce)
    finally show ?thesis by (simp add: algebra_simps power_numeral_reduce)
  qed
  also have "\<dots> \<le> of_int n * ?r * (1 - eps) * (1 - eps)" using n eps_bounds by (intro mult_right_mono) simp_all
  also have "\<dots> \<le> fl (t + fl (of_int n * ?r))"
  proof -
    have x: "0 \<le> of_int n * ?r" using assms(3) c(1) by simp
    have "of_int n * ?r * (1 - eps) \<le> t + fl (of_int n * ?r)" using fl_low [OF x order_refl] assms(2) by linarith
    then show ?thesis using x eps_bounds by (intro fl_low) simp_all
  qed
  finally show ?thesis by (simp add: refill_def)
qed

end

section \<open>Runs of the shared limiter\<close>

text \<open>A list of calls, each with the server's clock, the client's time and the key.\<close>

fun redis_run :: "(rat \<Rightarrow> rat) \<Rightarrow> Config \<Rightarrow> string \<Rightarrow> (int \<times> time \<times> string) list \<Rightarrow> redis_db \<Rightarrow> redis_db \<times> (unit + bool) list" where
  "redis_run fl cfg prefix [] db = (db, [])"
| "redis_run fl cfg prefix ((clock, now, key) # cs) db =
     (case RedisLimiter_Allow fl cfg prefix RedisOk clock now key db of (db, r) \<Rightarrow>
      case redis_run fl cfg prefix cs db of (db, rs) \<Rightarrow> (db, r # rs))"

text \<open>The same calls for the in-memory limiter, with a clock that shows whole seconds.\<close>

definition whole_seconds :: "(int \<times> time \<times> string) list \<Rightarrow> (time \<times> string) list" where
  "whole_seconds cs = map (\<lambda>(clock, now, key). (second * (now div second), key)) cs"

text \<open>\<open>drift c\<close>: the two clocks differ by \<open>c\<close> seconds, up to 58 seconds more.\<close>

definition drift :: "int \<Rightarrow> (int \<times> time \<times> string) list \<Rightarrow> bool" where
  "drift c cs \<longleftrightarrow> (\<forall>(clock, now, key) \<in> set cs. c \<le> clock - now div second \<and> clock - now div second \<le> c + 58)"

definition limiter_rel :: "(rat \<Rightarrow> rat) \<Rightarrow> Config \<Rightarrow> string \<Rightarrow> int \<Rightarrow> MemoryLimiter \<Rightarrow> redis_db \<Rightarrow> bool" where
  "limiter_rel fl cfg prefix c m db \<longleftrightarrow> (\<forall>k. case m k of
       None \<Rightarrow> db (redis_key prefix k) = None
     | Some b \<Rightarrow> (\<exists>e. db (redis_key prefix k) = Some e \<and> re_tokens e = bk_tokens b \<and> bk_last b = second * re_ts e
         \<and> re_ts e + c + redis_ttl fl cfg \<le> re_expires e))"

lemma limiter_relD:
  assumes "limiter_rel fl cfg prefix c m db"
  shows "m k = None \<Longrightarrow> db (redis_key prefix k) = None"
    "m k = Some b \<Longrightarrow> \<exists>e. db (redis_key prefix k) = Some e \<and> re_tokens e = bk_tokens b \<and> bk_last b = second * re_ts e
         \<and> re_ts e + c + redis_ttl fl cfg \<le> re_expires e"
  using spec [OF assms [unfolded limiter_rel_def], of k] by (simp_all del: append.simps)

lemma limiter_rel_upd:
  "limiter_rel fl cfg prefix c m db \<Longrightarrow> c + s \<le> clock
   \<Longrightarrow> limiter_rel fl cfg prefix c (m(key \<mapsto> \<lparr>bk_tokens = x, bk_last = second * s\<rparr>))
      (db(redis_key prefix key \<mapsto> \<lparr>re_tokens = x, re_ts = s, re_expires = clock + redis_ttl fl cfg\<rparr>))"
  unfolding limiter_rel_def by (auto split: option.splits; metis not_Some_eq)

context rounding
begin

lemma redis_step:
  assumes "config_ok cfg" "fl (cf_Burst cfg) = cf_Burst cfg" "limiter_rel fl cfg prefix c m db" "limiter_inv cfg (second * (now div second)) m"
    "0 \<le> now" "now \<le> max_int64" "c \<le> clock - now div second" "clock - now div second \<le> c + 58"
  shows "\<exists>m' db' ok. MemoryLimiter_Allow fl cfg (second * (now div second)) key m = (m', ok)
     \<and> RedisLimiter_Allow fl cfg prefix RedisOk clock now key db = (db', Inr ok) \<and> limiter_rel fl cfg prefix c m' db'"
proof -
  let ?s = "now div second" and ?key = "redis_key prefix key"
  have t: "bk_last b \<le> second * ?s" if "m k = Some b" for k b using limiter_invD [OF assms(4) that] by simp
  have s: "0 \<le> ?s" "?s < 2 ^ 53" "wrap64 now sdiv second = ?s"
  proof -
    show "0 \<le> ?s" using assms(5) by (simp add: second_def pos_imp_zdiv_nonneg_iff)
    show "?s < 2 ^ 53" using assms(5,6) by (simp add: second_def)
    have "wrap64 now = now" using assms(5,6) by (intro wrap64_id) (simp add: in_int64_def)
    then show "wrap64 now sdiv second = ?s"
      using assms(5) by (cases "now = 0") (simp_all add: second_def signed_divide_int_def)
  qed
  define tk where "tk = take_token fl (refill fl cfg (case m key of None \<Rightarrow> cf_Burst cfg | Some b \<Rightarrow> bk_tokens b)
      (case m key of None \<Rightarrow> 0 | Some b \<Rightarrow> Seconds fl (second * ?s - bk_last b)))"
  obtain x ok where x: "tk = (x, ok)" by fastforce
  have nosat: "time_Sub (second * ?s) (bk_last b) = second * ?s - bk_last b" if "m key = Some b" for b
    using limiter_invD [OF assms(4) that] t [OF that] assms(5,6) s(1) by (simp add: time_Sub_def second_def) linarith
  have mem: "MemoryLimiter_Allow fl cfg (second * ?s) key m = (m(key \<mapsto> \<lparr>bk_tokens = x, bk_last = second * ?s\<rparr>), ok)"
    using x nosat by (simp add: MemoryLimiter_Allow_def tk_def time_Sub_def Seconds_whole [of 0, simplified] split: option.splits)
  have red: "tokenBucketScript fl ?key cfg ?s (redis_ttl fl cfg) clock db
      = (db(?key \<mapsto> \<lparr>re_tokens = x, re_ts = ?s, re_expires = clock + redis_ttl fl cfg\<rparr>), ok)"
  proof (cases "m key")
    case None
    then have "db ?key = None" by (rule limiter_relD(1) [OF assms(3)])
    then show ?thesis using x None by (simp add: tokenBucketScript_def redis_get_def tk_def)
  next
    case (Some b)
    then obtain e where e: "db ?key = Some e" "re_tokens e = bk_tokens b" "bk_last b = second * re_ts e"
        "re_ts e + c + redis_ttl fl cfg \<le> re_expires e"
      using limiter_relD(2) [OF assms(3) Some] by blast
    have b: "0 \<le> bk_tokens b" "0 \<le> bk_last b" using limiter_invD [OF assms(4) Some] by auto
    have n: "0 \<le> ?s - re_ts e" "?s - re_ts e < 2 ^ 53" using t [OF Some] b(2) s(2) by (simp_all add: e(3) second_def)
    have sec: "Seconds fl (second * ?s - bk_last b) = of_int (?s - re_ts e)"
      using Seconds_whole [OF n] by (simp add: e(3) right_diff_distrib)
    have el: "max 0 (fl (of_int (?s - re_ts e))) = of_int (?s - re_ts e)" using fl_int [of "?s - re_ts e"] n by simp
    show ?thesis
    proof (cases "clock < re_expires e")
      case True
      then show ?thesis using x Some e(1,2) sec el by (simp add: tokenBucketScript_def redis_get_def tk_def del: of_int_diff)
    next
      case False
      then have "redis_ttl fl cfg - 58 \<le> ?s - re_ts e" using e(4) assms(8) by linarith
      from refill_full [OF assms(1) b(1) n(1) this] have "tk = take_token fl (cf_Burst cfg)" using Some sec by (simp add: tk_def)
      moreover have "refill fl cfg (cf_Burst cfg) 0 = cf_Burst cfg" using assms(2) by (simp add: refill_def)
      moreover have "take_token fl (cf_Burst cfg) = (x, ok)" using calculation(1) x by simp
      ultimately show ?thesis using False e(1) by (simp add: tokenBucketScript_def redis_get_def)
    qed
  qed
  have "limiter_rel fl cfg prefix c (m(key \<mapsto> \<lparr>bk_tokens = x, bk_last = second * ?s\<rparr>))
      (db(?key \<mapsto> \<lparr>re_tokens = x, re_ts = ?s, re_expires = clock + redis_ttl fl cfg\<rparr>))"
    using assms(7) by (intro limiter_rel_upd [OF assms(3)]) simp
  with mem show ?thesis by (simp add: RedisLimiter_Allow_def s(3) red)
qed

lemma redis_run_sim:
  "config_ok cfg \<Longrightarrow> fl (cf_Burst cfg) = cf_Burst cfg \<Longrightarrow> limiter_rel fl cfg prefix c m db
   \<Longrightarrow> limiter_inv cfg (second * (t div second)) m \<Longrightarrow> times_from t (map snd cs) \<Longrightarrow> drift c cs
   \<Longrightarrow> snd (redis_run fl cfg prefix cs db) = map Inr (snd (limiter_run fl cfg (whole_seconds cs) m))"
proof (induction cs arbitrary: m db t)
  case (Cons x cs)
  obtain clock now key where x: "x = (clock, now, key)" by (cases x) auto
  let ?s = "second * (now div second)"
  have n: "t \<le> now" "0 \<le> now" "now \<le> max_int64" "times_from now (map snd cs)" using Cons.prems(5) times_from_bounds [of now "map snd cs"] by (auto simp: x)
  have ts: "second * (t div second) \<le> ?s" using zdiv_mono1 [OF n(1), of second] by (simp add: second_def)
  have s: "0 \<le> ?s" "?s \<le> now" "?s \<le> max_int64" using n(2,3) by (simp_all add: second_def pos_imp_zdiv_nonneg_iff)
  have d: "c \<le> clock - now div second" "clock - now div second \<le> c + 58" "drift c cs" using Cons.prems(6) by (auto simp: drift_def x)
  have inv: "limiter_inv cfg ?s m" using Cons.prems(4) ts by (force simp: limiter_inv_def)
  from redis_step [OF Cons.prems(1-3) inv n(2,3) d(1,2), of key] obtain m' db' ok where r:
    "MemoryLimiter_Allow fl cfg ?s key m = (m', ok)" "RedisLimiter_Allow fl cfg prefix RedisOk clock now key db = (db', Inr ok)"
    "limiter_rel fl cfg prefix c m' db'" by blast
  from Allow_step [OF Cons.prems(1) inv order_refl s(1,3), of key] obtain v where
    v: "m' = m(key \<mapsto> \<lparr>bk_tokens = v, bk_last = ?s\<rparr>)" "0 \<le> v" "v \<le> cf_Burst cfg" using r(1) by auto
  have "limiter_inv cfg ?s m'" unfolding v(1) by (rule limiter_inv_upd [OF inv order_refl s(1) v(2,3)])
  from Cons.IH [OF Cons.prems(1,2) r(3) this n(4) d(3)] show ?case
    by (simp add: x whole_seconds_def r(1,2) case_prod_unfold)
qed (simp add: whole_seconds_def)

end

section \<open>Properties of the rate limiters\<close>

text \<open>The rate bound. In any stretch of a run of the in-memory limiter, whatever came before it and
  whatever calls of other clients are mixed in, the requests of one key that are admitted between the
  times \<open>a\<close> and \<open>e\<close> number at most the burst plus the rate times the elapsed seconds, up to the
  rounding of floats: a relative error of \<open>2^-53\<close> per operation.\<close>

theorem limiter_rate_bound:
  assumes "config_ok cfg" "times_from 0 (xs @ ys)" "a \<le> e" "\<forall>c \<in> set ys. a \<le> fst c \<and> fst c \<le> e"
  shows "of_nat (admitted key ys (snd (limiter_run fl64 cfg ys (fst (limiter_run fl64 cfg xs NewMemory)))))
    \<le> cf_Burst cfg + of_int (e - a) / 10 ^ 9 * cf_Rate cfg * (1 + 1 / 2 ^ 53) ^ 5
       + of_nat (requested key ys) * cf_Burst cfg / 2 ^ 52"
proof -
  have x: "times_from 0 xs" "times_from (last (0 # map fst xs)) ys" using assms(2) by (simp_all add: times_from_append)
  have "limiter_inv cfg 0 NewMemory" by (simp add: limiter_inv_def NewMemory_def)
  from fl64.limiter_run_inv [OF assms(1) x(1) this] fl64.admitted_window [OF assms(1) x(2) _ assms(3,4)]
  show ?thesis by (simp add: eps_def algebra_simps)
qed

text \<open>C38: The limiter does not starve anyone: a request whose key has not been used for the time in which
  one token is earned (plus a rounding margin of one part in \<open>2^50\<close>) is admitted, however many
  requests came before.\<close>

theorem limiter_progress:
  assumes "config_ok cfg" "1 \<le> cf_Burst cfg" "fl64 (cf_Burst cfg) = cf_Burst cfg" "times_from 0 (xs @ [(now, key)])"
    and "\<forall>t. (t, key) \<in> set xs \<longrightarrow> 1 + 1 / 2 ^ 50 \<le> of_int (now - t) / 10 ^ 9 * cf_Rate cfg"
  shows "snd (MemoryLimiter_Allow fl64 cfg now key (fst (limiter_run fl64 cfg xs NewMemory)))"
proof -
  let ?m = "fst (limiter_run fl64 cfg xs NewMemory)" and ?t = "last (0 # map fst xs)"
  have x: "times_from 0 xs" "?t \<le> now" "0 \<le> now" "now \<le> max_int64" using assms(4) by (auto simp: times_from_append)
  have "limiter_inv cfg 0 NewMemory" by (simp add: limiter_inv_def NewMemory_def)
  note inv = fl64.limiter_run_inv [OF assms(1) x(1) this]
  show ?thesis
  proof (cases "?m key")
    case None
    then show ?thesis using assms(2,3)
      by (simp add: MemoryLimiter_Allow_def take_token_def refill_def time_Sub_def fl64.Seconds_whole [of 0, simplified])
  next
    case (Some b)
    have "(bk_last b, key) \<in> set xs" using fl64.limiter_run_last [OF Some] by (simp add: NewMemory_def)
    with assms(5) have e: "1 + 1 / 2 ^ 50 \<le> of_int (now - bk_last b) / 10 ^ 9 * cf_Rate cfg" by blast
    have b: "0 \<le> bk_tokens b" "0 \<le> bk_last b" "bk_last b \<le> now" using limiter_invD [OF inv Some] x(2) by auto
    have "time_Sub now (bk_last b) = now - bk_last b" using b x(4) by (simp add: time_Sub_def)
    moreover have "1 \<le> refill fl64 cfg (bk_tokens b) (Seconds fl64 (now - bk_last b))"
      using assms(1,2) b e by (intro fl64.refill_earned) (simp_all add: config_ok_def)
    ultimately show ?thesis using Some by (simp add: MemoryLimiter_Allow_def take_token_def)
  qed
qed


section \<open>A concrete limiter\<close>

definition demo_cfg :: Config where "demo_cfg = \<lparr>cf_Rate = 20, cf_Burst = 40\<rparr>"

lemma demo_cfg_ok: "config_ok demo_cfg" "1 \<le> cf_Burst demo_cfg" "fl64 (cf_Burst demo_cfg) = cf_Burst demo_cfg"
  using fl64.fl_int [of 40] by (simp_all add: config_ok_def demo_cfg_def)

definition demo_calls :: "(time \<times> string) list" where
  "demo_calls = replicate 3 (1000000000, ''a'') @ [(2000000000, ''b'')]"

lemma demo_calls_times: "times_from 0 demo_calls" "times_from 0 ([] @ demo_calls)"
  by (simp_all add: demo_calls_def numeral_3_eq_3)

theorem limiter_rate_bound_witness:
  "of_nat (admitted ''a'' demo_calls (snd (limiter_run fl64 demo_cfg demo_calls (fst (limiter_run fl64 demo_cfg [] NewMemory)))))
    \<le> (61 :: rat)"
proof -
  have "\<forall>c \<in> set demo_calls. 1000000000 \<le> fst c \<and> fst c \<le> 2000000000" by (auto simp: demo_calls_def)
  from limiter_rate_bound [OF demo_cfg_ok(1) demo_calls_times(2) _ this, of "''a''"]
  have "of_nat (admitted ''a'' demo_calls (snd (limiter_run fl64 demo_cfg demo_calls (fst (limiter_run fl64 demo_cfg [] NewMemory)))))
    \<le> 40 + 1 * 20 * (1 + 1 / 2 ^ 53) ^ 5 + 3 * 40 / (2 ^ 52 :: rat)"
    by (simp add: demo_cfg_def demo_calls_def requested_def)
  also have "\<dots> \<le> 61" by (simp add: power_numeral_reduce)
  finally show ?thesis .
qed

theorem limiter_progress_witness:
  "snd (MemoryLimiter_Allow fl64 demo_cfg 1060000000 ''a'' (fst (limiter_run fl64 demo_cfg [(1000000000, ''a''), (1000000000, ''b'')] NewMemory)))"
  by (rule limiter_progress [OF demo_cfg_ok]) (simp_all add: demo_cfg_def)


end
