(* ===== verification/Http.thy ===== *)
theory Http
  imports Support
begin

text \<open>
  The part of \<open>net/http\<close> the services use: what handlers read of a request, bearer tokens, and routing
  by \<open>ServeMux\<close>.
\<close>

section \<open>Requests\<close>

text \<open>
  What a handler reads of a request. \<open>rq_Header\<close> and \<open>rq_Query\<close> give the first value of a header or
  query parameter, the empty string when there is none. Paths are clean: \<open>ServeMux\<close> redirects the
  others before a handler runs.
\<close>

record http_request =
  rq_Method :: string
  rq_Path :: string
  rq_Header :: "string \<Rightarrow> string"
  rq_Query :: "string \<Rightarrow> string"
  rq_Body :: string
  rq_RemoteAddr :: string

text \<open>A response is a status and a body; the body is kept as the value that is encoded.\<close>

type_synonym 'b response = "nat \<times> 'b"

definition strings_CutPrefix :: "string \<Rightarrow> string \<Rightarrow> string \<times> bool" where
  "strings_CutPrefix s prefix = (if take (length prefix) s = prefix then (drop (length prefix) s, True) else (s, False))"

definition bearer_token :: "http_request \<Rightarrow> string option" where
  "bearer_token r = (let (token, ok) = strings_CutPrefix (rq_Header r ''Authorization'') ''Bearer ''
     in if \<not> ok \<or> token = [] then None else Some token)"

section \<open>Routing\<close>

text \<open>
  \<open>http.ServeMux\<close> for the patterns in use. Within a service a pattern is a method and a literal path, a
  \<open>GET\<close> pattern also serves \<open>HEAD\<close>; a path without a pattern for the method is a 405.
\<close>

datatype 'h routed = Found 'h | NotFound | MethodNotAllowed

definition method_matches :: "string \<Rightarrow> string \<Rightarrow> bool" where
  "method_matches pat m \<longleftrightarrow> m = pat \<or> (pat = ''GET'' \<and> m = ''HEAD'')"

definition mux_route :: "(string \<times> string \<times> 'h) list \<Rightarrow> string \<Rightarrow> string \<Rightarrow> 'h routed" where
  "mux_route pats m p =
     (case find (\<lambda>(pm, pp, h). pp = p \<and> method_matches pm m) pats of
        Some (_, _, h) \<Rightarrow> Found h
      | None \<Rightarrow> if \<exists>(pm, pp, h) \<in> set pats. pp = p then MethodNotAllowed else NotFound)"

text \<open>
  The composing mux has patterns without method. One that ends in a slash matches every path below it;
  the longest match wins. A path whose match is not exact, and which is a pattern once a slash is
  added, is redirected there.
\<close>

definition path_matches :: "string \<Rightarrow> string \<Rightarrow> bool" where
  "path_matches pat p \<longleftrightarrow> p = pat \<or> (pat \<noteq> [] \<and> last pat = CHR ''/'' \<and> take (length pat) p = pat)"

fun longest_match :: "(string \<times> 'h) list \<Rightarrow> string \<Rightarrow> (string \<times> 'h) option" where
  "longest_match [] p = None"
| "longest_match ((pat, h) # pats) p =
     (if path_matches pat p
      then (case longest_match pats p of
              Some (q, g) \<Rightarrow> if length q > length pat then Some (q, g) else Some (pat, h)
            | None \<Rightarrow> Some (pat, h))
      else longest_match pats p)"

datatype 'h mounted = To 'h | RedirectTo string | NoHandler

definition mux_dispatch :: "(string \<times> 'h) list \<Rightarrow> string \<Rightarrow> 'h mounted" where
  "mux_dispatch pats p =
     (case longest_match pats p of
        None \<Rightarrow> NoHandler
      | Some (pat, h) \<Rightarrow>
          if pat \<noteq> p \<and> (p @ ''/'') \<in> fst ` set pats then RedirectTo (p @ ''/'') else To h)"

end
