(* ===== verification/AccountHTTP.thy ===== *)
theory AccountHTTP
  imports Http Account
begin

text \<open>
  The HTTP API of the account service (\<open>src/services/account-service/httpapi/server.go\<close>).
\<close>

section \<open>The account API\<close>

text \<open>What a request to the account service depends on besides the store: its configuration, the clock
  (read twice by a login) and the random source.\<close>

record account_env =
  en_prm :: primitives
  en_text :: text_lib
  en_cipher :: "string option"
  en_now :: time
  en_now2 :: time
  en_rand :: "string option"
  en_rand2 :: "string option"

text \<open>Decoding a body into the struct of each handler (the \<open>encoding/json\<close> decoder over a body of at
  most 64 KiB); \<open>None\<close> when it is refused.\<close>

record account_json =
  js_signup :: "string \<Rightarrow> (string \<times> string) option"
  js_login :: "string \<Rightarrow> (string \<times> string \<times> string) option"
  js_code :: "string \<Rightarrow> string option"
  js_label :: "string \<Rightarrow> string option"

datatype account_body = ABErr string | ABSignup int64 string | ABToken string | ABMe int64 string bool bool
  | ABTwoFA string string | ABEnabled bool | ABKey string string | ABKeys "APIKeyInfo list" | ABEmpty

definition writeServiceErr :: "account_error \<Rightarrow> account_body response" where
  "writeServiceErr err = (case err of
       ErrEmailTaken \<Rightarrow> (409, ABErr ''account: email already registered'')
     | ErrBadEmail \<Rightarrow> (400, ABErr ''account: invalid email address'')
     | ErrWeakPassword \<Rightarrow> (400, ABErr ''account: password must be at least 10 characters'')
     | ErrTOTPRequired \<Rightarrow> (401, ABErr ''totp code required'')
     | ErrInvalidCredentials \<Rightarrow> (401, ABErr ''invalid credentials'')
     | _ \<Rightarrow> (500, ABErr ''internal error''))"

definition account_decode :: "(string \<Rightarrow> 'a option) \<Rightarrow> http_request \<Rightarrow> ('a \<Rightarrow> 's \<Rightarrow> 's \<times> account_body response) \<Rightarrow> 's \<Rightarrow> 's \<times> account_body response" where
  "account_decode js r k s = (case js (rq_Body r) of None \<Rightarrow> (s, 400, ABErr ''malformed JSON body'') | Some x \<Rightarrow> k x s)"

definition account_answer :: "('s \<times> (account_error + 'a)) \<Rightarrow> ('a \<Rightarrow> account_body response) \<Rightarrow> 's \<times> account_body response" where
  "account_answer res ok = (case res of (s, Inl err) \<Rightarrow> (s, writeServiceErr err) | (s, Inr x) \<Rightarrow> (s, ok x))"

definition account_authed :: "account_env \<Rightarrow> 's Store \<Rightarrow> (http_request \<Rightarrow> User \<Rightarrow> 's \<Rightarrow> 's \<times> account_body response) \<Rightarrow> http_request \<Rightarrow> 's \<Rightarrow> 's \<times> account_body response" where
  "account_authed en S nxt r s =
     (case bearer_token r of
        None \<Rightarrow> (s, 401, ABErr ''missing bearer token'')
      | Some token \<Rightarrow>
          (case Authenticate (en_prm en) S (en_now en) token s of
             (s, Inl _) \<Rightarrow> (s, 401, ABErr ''invalid or expired session'')
           | (s, Inr u) \<Rightarrow> nxt r u s))"

definition handleSignup :: "account_env \<Rightarrow> account_json \<Rightarrow> 's Store \<Rightarrow> http_request \<Rightarrow> 's \<Rightarrow> 's \<times> account_body response" where
  "handleSignup en js S r = account_decode (js_signup js) r (\<lambda>(email, password) s.
     account_answer (Signup (en_prm en) (en_text en) S (en_rand en) email password s) (\<lambda>u. (201, ABSignup (us_ID u) (us_Email u))))"

definition handleLogin :: "account_env \<Rightarrow> account_json \<Rightarrow> 's Store \<Rightarrow> http_request \<Rightarrow> 's \<Rightarrow> 's \<times> account_body response" where
  "handleLogin en js S r = account_decode (js_login js) r (\<lambda>(email, password, totpCode) s.
     account_answer (Login (en_prm en) (en_text en) S (en_now en) (en_now2 en) (en_rand en) email password totpCode s)
       (\<lambda>(token, _). (200, ABToken token)))"

definition handleMe :: "http_request \<Rightarrow> User \<Rightarrow> 's \<Rightarrow> 's \<times> account_body response" where
  "handleMe r u s = (s, 200, ABMe (us_ID u) (us_Email u) (us_TOTPEnabled u) (us_IsAdmin u))"

definition handle2FASetup :: "account_env \<Rightarrow> 's Store \<Rightarrow> http_request \<Rightarrow> User \<Rightarrow> 's \<Rightarrow> 's \<times> account_body response" where
  "handle2FASetup en S r u s =
     account_answer (SetupTOTP (en_text en) S (en_rand en) (us_ID u) s) (\<lambda>(secret, uri). (200, ABTwoFA secret uri))"

definition handle2FAConfirm :: "account_env \<Rightarrow> account_json \<Rightarrow> 's Store \<Rightarrow> http_request \<Rightarrow> User \<Rightarrow> 's \<Rightarrow> 's \<times> account_body response" where
  "handle2FAConfirm en js S r u = account_decode (js_code js) r (\<lambda>code s.
     account_answer (ConfirmTOTP (en_prm en) S (en_now2 en) (us_ID u) code s) (\<lambda>_. (200, ABEnabled True)))"

definition handleCreateAPIKey :: "account_env \<Rightarrow> account_json \<Rightarrow> 's Store \<Rightarrow> http_request \<Rightarrow> User \<Rightarrow> 's \<Rightarrow> 's \<times> account_body response" where
  "handleCreateAPIKey en js S r u = account_decode (js_label js) r (\<lambda>label s.
     account_answer (CreateAPIKey (en_prm en) S (en_cipher en) (en_rand en) (en_rand2 en) (us_ID u) label s)
       (\<lambda>(keyID, secret). (201, ABKey keyID secret)))"

definition handleListAPIKeys :: "'s Store \<Rightarrow> http_request \<Rightarrow> User \<Rightarrow> 's \<Rightarrow> 's \<times> account_body response" where
  "handleListAPIKeys S r u s = account_answer (ListAPIKeys S (us_ID u) s) (\<lambda>ks. (200, ABKeys ks))"

datatype account_route = HSignup | HLogin | HMe | H2FASetup | H2FAConfirm | HCreateAPIKey | HListAPIKeys | HHealth

definition account_routes :: "(string \<times> string \<times> account_route) list" where
  "account_routes = [(''POST'', ''/v1/signup'', HSignup), (''POST'', ''/v1/login'', HLogin), (''GET'', ''/v1/me'', HMe),
     (''POST'', ''/v1/2fa/setup'', H2FASetup), (''POST'', ''/v1/2fa/confirm'', H2FAConfirm), (''POST'', ''/v1/apikeys'', HCreateAPIKey),
     (''GET'', ''/v1/apikeys'', HListAPIKeys), (''GET'', ''/healthz'', HHealth)]"

fun account_handler :: "account_env \<Rightarrow> account_json \<Rightarrow> 's Store \<Rightarrow> account_route \<Rightarrow> http_request \<Rightarrow> 's \<Rightarrow> 's \<times> account_body response" where
  "account_handler en js S HSignup = handleSignup en js S"
| "account_handler en js S HLogin = handleLogin en js S"
| "account_handler en js S HMe = account_authed en S handleMe"
| "account_handler en js S H2FASetup = account_authed en S (handle2FASetup en S)"
| "account_handler en js S H2FAConfirm = account_authed en S (handle2FAConfirm en js S)"
| "account_handler en js S HCreateAPIKey = account_authed en S (handleCreateAPIKey en js S)"
| "account_handler en js S HListAPIKeys = account_authed en S (handleListAPIKeys S)"
| "account_handler en js S HHealth = (\<lambda>r s. (s, 200, ABEmpty))"

definition account_ServeHTTP :: "account_env \<Rightarrow> account_json \<Rightarrow> 's Store \<Rightarrow> http_request \<Rightarrow> 's \<Rightarrow> 's \<times> account_body response" where
  "account_ServeHTTP en js S r s =
     (case mux_route account_routes (rq_Method r) (rq_Path r) of
        Found h \<Rightarrow> account_handler en js S h r s
      | NotFound \<Rightarrow> (s, 404, ABErr ''404 page not found'')
      | MethodNotAllowed \<Rightarrow> (s, 405, ABErr ''Method Not Allowed''))"

end
