(* ===== verification/ExchangeHTTP.thy ===== *)
theory ExchangeHTTP
  imports AccountHTTP TradingSafe Hub
begin

text \<open>
  The trading API (\<open>src/services/exchange/server.go\<close>).
\<close>

section \<open>The trading API\<close>

text \<open>\<open>strconv.ParseInt(s, 10, 64)\<close>, and \<open>strconv.Atoi\<close> with its error ignored: 0 for a syntax error, the
  nearest bound for a value out of range.\<close>

definition parse_decimal :: "string \<Rightarrow> int option" where
  "parse_decimal s =
     (let neg = (s \<noteq> [] \<and> hd s = CHR ''-'');
          ds = (if s \<noteq> [] \<and> hd s \<in> {CHR ''-'', CHR ''+''} then tl s else s)
      in if ds = [] \<or> \<not> list_all is_digit ds then None
         else Some (if neg then - int (dec_val ds) else int (dec_val ds)))"

definition ParseInt :: "string \<Rightarrow> int64 option" where
  "ParseInt s = (case parse_decimal s of None \<Rightarrow> None | Some n \<Rightarrow> if in_int64 n then Some n else None)"

definition Atoi_ignoring_error :: "string \<Rightarrow> int64" where
  "Atoi_ignoring_error s = (case parse_decimal s of None \<Rightarrow> 0 | Some n \<Rightarrow> max min_int64 (min max_int64 n))"

record exchange_json =
  jx_place :: "string \<Rightarrow> (string \<times> string \<times> string \<times> int64 \<times> int64) option"
  jx_cancel :: "string \<Rightarrow> (string \<times> string) option"
  jx_symbol :: "string \<Rightarrow> string option"
  jx_deposit :: "string \<Rightarrow> (string \<times> int64) option"

text \<open>
  \<open>xe_ids\<close> and \<open>xe_books\<close> are the orders in which the engine's maps are iterated, \<open>xe_newID\<close> the outcome of
  the random id and \<open>xe_race\<close> how a submitted command races with the request's context.
\<close>

record exchange_env =
  xe_newID :: "string option"
  xe_race :: submit_race
  xe_faucet :: bool
  xe_ids :: "string list"
  xe_books :: "string list"

datatype exchange_body = XErr string | XFail trading_error | XEvents "Event list" | XOrders "OpenOrder list" | XMarkets "(string \<times> bool) list"
  | XBalances "AccountBalance list" | XReconciled bool "ledger_error option" | XHalted string bool
  | XDepth "PriceLevel list" "PriceLevel list" | XTrades "Event list" | XOk bool | XStream string | XUnknownSymbol

type_synonym ('s, 'j) exchange_state = "'s \<times> 'j Trading"

text \<open>A handler's result is \<open>None\<close> when it panics.\<close>

type_synonym ('s, 'j) exchange_result = "(('s, 'j) exchange_state \<times> exchange_body response) option"

type_synonym ('s, 'j) exchange_next = "http_request \<Rightarrow> User \<Rightarrow> ('s, 'j) exchange_state \<Rightarrow> ('s, 'j) exchange_result"

definition writeTradingErr :: "trading_error \<Rightarrow> exchange_body response" where
  "writeTradingErr err = (case err of
       ErrLedger e \<Rightarrow> if e = ErrInsufficientFunds then (422, XErr ''insufficient funds'')
                      else if e = ErrUnbalanced then (400, XFail err) else (500, XErr ''internal error'')
     | ErrRejected _ \<Rightarrow> (400, XFail err)
     | ErrBadOrder \<Rightarrow> (400, XFail err)
     | ErrUnsupported \<Rightarrow> (400, XFail err)
     | _ \<Rightarrow> (500, XErr ''internal error''))"

definition parseSide :: "string \<Rightarrow> Side option" where
  "parseSide s = (if s = ''buy'' then Some Buy else if s = ''sell'' then Some Sell else None)"

definition exchange_decode :: "(string \<Rightarrow> 'a option) \<Rightarrow> http_request \<Rightarrow> ('a \<Rightarrow> 'st \<Rightarrow> ('st \<times> exchange_body response) option) \<Rightarrow>
    'st \<Rightarrow> ('st \<times> exchange_body response) option" where
  "exchange_decode js r k s = (case js (rq_Body r) of None \<Rightarrow> Some (s, 400, XErr ''malformed JSON body'') | Some x \<Rightarrow> k x s)"

definition maxBody :: nat where "maxBody = 65536"

definition apiKeyAuth :: "account_env \<Rightarrow> 's Store \<Rightarrow> string \<Rightarrow> ('s, 'j) exchange_next \<Rightarrow> http_request \<Rightarrow> ('s, 'j) exchange_state \<Rightarrow> ('s, 'j) exchange_result" where
  "apiKeyAuth en S keyID nxt r st =
     (case ParseInt (rq_Header r ''X-API-Timestamp'') of
        None \<Rightarrow> Some (st, 401, XErr ''invalid X-API-Timestamp'')
      | Some ts \<Rightarrow>
          if length (rq_Body r) > maxBody then Some (st, 400, XErr ''body too large'')
          else (case VerifyAPIRequest (en_prm en) S (en_cipher en) (en_now en) keyID (rq_Header r ''X-API-Signature'') ts
                      (rq_Method r) (rq_Path r) (rq_Body r) (fst st) of
                  (s, Inl _) \<Rightarrow> Some ((s, snd st), 401, XErr ''invalid API signature'')
                | (s, Inr u) \<Rightarrow> nxt r u (s, snd st)))"

definition exchange_authed :: "account_env \<Rightarrow> 's Store \<Rightarrow> ('s, 'j) exchange_next \<Rightarrow> http_request \<Rightarrow> ('s, 'j) exchange_state \<Rightarrow> ('s, 'j) exchange_result" where
  "exchange_authed en S nxt r st =
     (let keyID = rq_Header r ''X-API-Key''
      in if keyID \<noteq> [] then apiKeyAuth en S keyID nxt r st
         else (case bearer_token r of
                 None \<Rightarrow> Some (st, 401, XErr ''missing bearer token or API key'')
               | Some token \<Rightarrow>
                   (case Authenticate (en_prm en) S (en_now en) token (fst st) of
                      (s, Inl _) \<Rightarrow> Some ((s, snd st), 401, XErr ''invalid or expired session'')
                    | (s, Inr u) \<Rightarrow> nxt r u (s, snd st))))"

definition exchange_adminOnly :: "account_env \<Rightarrow> 's Store \<Rightarrow> ('s, 'j) exchange_next \<Rightarrow> http_request \<Rightarrow> ('s, 'j) exchange_state \<Rightarrow> ('s, 'j) exchange_result" where
  "exchange_adminOnly en S nxt = exchange_authed en S (\<lambda>r u st.
     if \<not> us_IsAdmin u then Some (st, 403, XErr ''admin only'') else nxt r u st)"

text \<open>The answer to a trading operation.\<close>

definition trading_answer :: "'s \<Rightarrow> nat \<Rightarrow> ('j Trading \<times> Event list \<times> trading_error option) option \<Rightarrow> ('s, 'j) exchange_result" where
  "trading_answer s ok res = (case res of
       None \<Rightarrow> None
     | Some (t, _, Some err) \<Rightarrow> Some ((s, t), writeTradingErr err)
     | Some (t, events, None) \<Rightarrow> Some ((s, t), ok, XEvents events))"

definition handlePlaceOrder :: "exchange_env \<Rightarrow> exchange_json \<Rightarrow> (Command \<Rightarrow> 'j \<Rightarrow> 'j \<times> (string + uint64)) \<Rightarrow> ('s, 'j) exchange_next" where
  "handlePlaceOrder xe jx app_j r u = exchange_decode (jx_place jx) r (\<lambda>(symbol, ty, side, price, qty) st.
     case parseSide side of
       None \<Rightarrow> Some (st, 400, XErr ''side must be buy or sell'')
     | Some sd \<Rightarrow> trading_answer (fst st) 201 (PlaceOrder app_j (xe_newID xe) (xe_race xe) (us_ID u) symbol ty sd price qty (snd st)))"

definition handleCancelOrder :: "exchange_env \<Rightarrow> exchange_json \<Rightarrow> (Command \<Rightarrow> 'j \<Rightarrow> 'j \<times> (string + uint64)) \<Rightarrow> ('s, 'j) exchange_next" where
  "handleCancelOrder xe jx app_j r u = exchange_decode (jx_cancel jx) r (\<lambda>(symbol, orderID) st.
     trading_answer (fst st) 200 (CancelOrder app_j (xe_race xe) (us_ID u) symbol orderID (snd st)))"

definition handleOpenOrders :: "exchange_env \<Rightarrow> ('s, 'j) exchange_next" where
  "handleOpenOrders xe r u st = map_option (\<lambda>os. (st, 200, XOrders os)) (OpenOrders (us_ID u) (xe_ids xe) (fst (td_eng (snd st))))"

definition handleSymbols :: "exchange_env \<Rightarrow> http_request \<Rightarrow> ('s, 'j) exchange_state \<Rightarrow> ('s, 'j) exchange_result" where
  "handleSymbols xe r st = (let e = fst (td_eng (snd st))
     in Some (st, 200, XMarkets (map (\<lambda>sym. (sym, IsHalted sym e)) (Symbols (xe_books xe) e))))"

text \<open>A call into the ledger that returns a value.\<close>

definition on_ledger :: "(ledger_db \<Rightarrow> ledger_db \<times> (ledger_error + 'a)) \<Rightarrow> (ledger_error + 'a \<Rightarrow> exchange_body response) \<Rightarrow>
    ('s, 'j) exchange_state \<Rightarrow> ('s, 'j) exchange_result" where
  "on_ledger f resp st = (case f (td_ledger (snd st)) of (db, res) \<Rightarrow> Some ((fst st, (snd st)\<lparr>td_ledger := db\<rparr>), resp res))"

definition handleBalances :: "('s, 'j) exchange_next" where
  "handleBalances r u = on_ledger (UserBalances (us_ID u)) (\<lambda>res.
     case res of Inl _ \<Rightarrow> (500, XErr ''internal error'') | Inr bs \<Rightarrow> (200, XBalances bs))"

definition handleReconcile :: "('s, 'j) exchange_next" where
  "handleReconcile r u = on_ledger CheckInvariants (\<lambda>res.
     case res of Inl err \<Rightarrow> (200, XReconciled False (Some err)) | Inr _ \<Rightarrow> (200, XReconciled True None))"

definition set_engine :: "(Engine \<Rightarrow> Engine) \<Rightarrow> 'j Trading \<Rightarrow> 'j Trading" where
  "set_engine f t = t\<lparr>td_eng := (f (fst (td_eng t)), snd (td_eng t))\<rparr>"

definition handleHalt :: "exchange_json \<Rightarrow> ('s, 'j) exchange_next" where
  "handleHalt jx r u = exchange_decode (jx_symbol jx) r (\<lambda>symbol st.
     Some ((fst st, set_engine (Halt symbol) (snd st)), 200, XHalted symbol True))"

definition handleResume :: "exchange_json \<Rightarrow> ('s, 'j) exchange_next" where
  "handleResume jx r u = exchange_decode (jx_symbol jx) r (\<lambda>symbol st.
     Some ((fst st, set_engine (Resume symbol) (snd st)), 200, XHalted symbol False))"

definition handleDepth :: "http_request \<Rightarrow> ('s, 'j) exchange_state \<Rightarrow> ('s, 'j) exchange_result" where
  "handleDepth r st =
     (let levels = Atoi_ignoring_error (rq_Query r ''levels'');
          levels = (if levels \<le> 0 \<or> levels > 500 then 20 else levels)
      in case Depth_engine (rq_Query r ''symbol'') levels (fst (td_eng (snd st))) of
           None \<Rightarrow> None
         | Some (Inl _) \<Rightarrow> Some (st, 404, XUnknownSymbol)
         | Some (Inr (bids, asks)) \<Rightarrow> Some (st, 200, XDepth bids asks))"

definition handleTrades :: "http_request \<Rightarrow> ('s, 'j) exchange_state \<Rightarrow> ('s, 'j) exchange_result" where
  "handleTrades r st = Some (st, 200, XTrades (RecentTrades (rq_Query r ''symbol'') (snd st)))"

definition handleDevDeposit :: "exchange_env \<Rightarrow> exchange_json \<Rightarrow> ('s, 'j) exchange_next" where
  "handleDevDeposit xe jx r u = exchange_decode (jx_deposit jx) r (\<lambda>(asset, amount) st.
     case xe_newID xe of
       None \<Rightarrow> Some (st, 500, XErr ''internal error'')
     | Some key \<Rightarrow> on_ledger (Deposit (us_ID u) asset amount (''faucet-'' @ key)) (\<lambda>res.
         case res of Inl err \<Rightarrow> writeTradingErr (ErrLedger err) | Inr _ \<Rightarrow> (200, XOk True)) st)"

datatype exchange_route = HPlaceOrder | HOpenOrders | HCancelOrder | HBalances | HSymbols | HDepth | HTrades | HWS
  | HReconcile | HHalt | HResume | HDevDeposit

definition exchange_routes :: "bool \<Rightarrow> (string \<times> string \<times> exchange_route) list" where
  "exchange_routes faucet = [(''POST'', ''/v1/orders'', HPlaceOrder), (''GET'', ''/v1/orders'', HOpenOrders),
     (''POST'', ''/v1/orders/cancel'', HCancelOrder), (''GET'', ''/v1/balances'', HBalances), (''GET'', ''/v1/symbols'', HSymbols),
     (''GET'', ''/v1/depth'', HDepth), (''GET'', ''/v1/trades'', HTrades), (''GET'', ''/v1/ws'', HWS),
     (''GET'', ''/v1/admin/reconcile'', HReconcile), (''POST'', ''/v1/admin/halt'', HHalt), (''POST'', ''/v1/admin/resume'', HResume)]
     @ (if faucet then [(''POST'', ''/v1/dev/deposit'', HDevDeposit)] else [])"

text \<open>The stream handler reads nothing of this state once it has a symbol: see \<open>ws_turn\<close>.\<close>

fun exchange_handler :: "account_env \<Rightarrow> exchange_env \<Rightarrow> exchange_json \<Rightarrow> (Command \<Rightarrow> 'j \<Rightarrow> 'j \<times> (string + uint64)) \<Rightarrow> 's Store \<Rightarrow>
    exchange_route \<Rightarrow> http_request \<Rightarrow> ('s, 'j) exchange_state \<Rightarrow> ('s, 'j) exchange_result" where
  "exchange_handler en xe jx app_j S HPlaceOrder = exchange_authed en S (handlePlaceOrder xe jx app_j)"
| "exchange_handler en xe jx app_j S HOpenOrders = exchange_authed en S (handleOpenOrders xe)"
| "exchange_handler en xe jx app_j S HCancelOrder = exchange_authed en S (handleCancelOrder xe jx app_j)"
| "exchange_handler en xe jx app_j S HBalances = exchange_authed en S handleBalances"
| "exchange_handler en xe jx app_j S HSymbols = handleSymbols xe"
| "exchange_handler en xe jx app_j S HDepth = handleDepth"
| "exchange_handler en xe jx app_j S HTrades = handleTrades"
| "exchange_handler en xe jx app_j S HWS = (\<lambda>r st. if rq_Query r ''symbol'' = [] then Some (st, 400, XErr ''symbol required'')
     else Some (st, 101, XStream (rq_Query r ''symbol'')))"
| "exchange_handler en xe jx app_j S HReconcile = exchange_adminOnly en S handleReconcile"
| "exchange_handler en xe jx app_j S HHalt = exchange_adminOnly en S (handleHalt jx)"
| "exchange_handler en xe jx app_j S HResume = exchange_adminOnly en S (handleResume jx)"
| "exchange_handler en xe jx app_j S HDevDeposit = exchange_authed en S (handleDevDeposit xe jx)"

definition exchange_ServeHTTP :: "account_env \<Rightarrow> exchange_env \<Rightarrow> exchange_json \<Rightarrow> (Command \<Rightarrow> 'j \<Rightarrow> 'j \<times> (string + uint64)) \<Rightarrow> 's Store \<Rightarrow>
    http_request \<Rightarrow> ('s, 'j) exchange_state \<Rightarrow> ('s, 'j) exchange_result" where
  "exchange_ServeHTTP en xe jx app_j S r st =
     (case mux_route (exchange_routes (xe_faucet xe)) (rq_Method r) (rq_Path r) of
        Found h \<Rightarrow> exchange_handler en xe jx app_j S h r st
      | NotFound \<Rightarrow> Some (st, 404, XErr ''404 page not found'')
      | MethodNotAllowed \<Rightarrow> Some (st, 405, XErr ''Method Not Allowed''))"

text \<open>
  The loop of \<open>handleWS\<close>, one turn of its \<open>select\<close> on the subscription's channel. \<open>ended\<close> says that the
  turn sees the context end, \<open>written\<close> whether the batch could be written to the connection. A
  subscriber that lagged finds its channel closed once it has read what was buffered.
\<close>

datatype ws_result = WsNext | WsEnd | WsLagged | WsWait

definition ws_turn :: "bool \<Rightarrow> bool \<Rightarrow> chan \<times> Event list list \<Rightarrow> (chan \<times> Event list list) \<times> ws_result" where
  "ws_turn ended written cs =
     (let (ch, sent) = cs
      in if ended then (cs, WsEnd)
         else (case ch_buf ch of
                 batch # bs \<Rightarrow> if written then ((ch\<lparr>ch_buf := bs\<rparr>, sent @ [batch]), WsNext) else ((ch\<lparr>ch_buf := bs\<rparr>, sent), WsEnd)
               | [] \<Rightarrow> if ch_open ch then (cs, WsWait) else (cs, WsLagged)))"

end
