(* ===== verification/EngineHTTP.thy ===== *)
theory EngineHTTP
  imports ExchangeHTTP
begin

text \<open>
  The standalone engine of \<open>cmd/matching-engine/main.go\<close>: its HTTP API over the engine with the file journal.
\<close>

section \<open>The engine's own API\<close>

text \<open>Decoding the bodies of the two \<open>POST\<close> handlers; \<open>None\<close> when the decoder fails.\<close>

record engine_json =
  je_order :: "string \<Rightarrow> (string \<times> string \<times> string \<times> int64 \<times> string \<times> int64 \<times> int64) option"
  je_cancel :: "string \<Rightarrow> (string \<times> string) option"

datatype engine_body = EHErr string | EHFail engine_error | EHEvents "Event list" | EHDepth "PriceLevel list" "PriceLevel list" | EHOk | EHUnknownSymbol

definition Submit_engine :: "(Command \<Rightarrow> 'j \<Rightarrow> 'j \<times> (string + uint64)) \<Rightarrow> submit_race \<Rightarrow> Command \<Rightarrow> Engine \<times> 'j \<Rightarrow>
    ((Engine \<times> 'j) \<times> (engine_error + Event list)) option" where
  "Submit_engine app_j race cmd ej =
     (case race of
        NotSent \<Rightarrow> Some (ej, Inl ErrContext)
      | _ \<Rightarrow> (case Run_step app_j cmd ej of
                None \<Rightarrow> None
              | Some (ej, _, reply) \<Rightarrow> Some (ej, if race = Replied then reply else Inl ErrContext)))"

definition submit_answer :: "((Engine \<times> 'j) \<times> (engine_error + Event list)) option \<Rightarrow> ((Engine \<times> 'j) \<times> engine_body response) option" where
  "submit_answer res = map_option (\<lambda>(ej, r). (ej, case r of Inl err \<Rightarrow> (500, EHFail err) | Inr evs \<Rightarrow> (200, EHEvents evs))) res"

definition api_command :: "string \<times> string \<times> string \<times> int64 \<times> string \<times> int64 \<times> int64 \<Rightarrow> string + Command" where
  "api_command req =
     (case req of (ty, symbol, orderID, userID, side, price, qty) \<Rightarrow>
        if ty \<noteq> ''limit'' \<and> ty \<noteq> ''market'' then Inl ''type must be limit or market''
        else (case parseSide side of
                None \<Rightarrow> Inl ''side must be buy or sell''
              | Some sd \<Rightarrow> Inr \<lparr>cmd_Type = (if ty = ''limit'' then CmdPlaceLimit else CmdPlaceMarket), cmd_Symbol = symbol,
                              cmd_OrderID = orderID, cmd_UserID = userID, cmd_Side = sd, cmd_Price = price, cmd_Qty = qty\<rparr>))"

definition api_cancel :: "string \<times> string \<Rightarrow> Command" where
  "api_cancel req = (case req of (symbol, orderID) \<Rightarrow>
     \<lparr>cmd_Type = CmdCancel, cmd_Symbol = symbol, cmd_OrderID = orderID, cmd_UserID = 0, cmd_Side = Buy, cmd_Price = 0, cmd_Qty = 0\<rparr>)"

definition api_orders :: "engine_json \<Rightarrow> (Command \<Rightarrow> 'j \<Rightarrow> 'j \<times> (string + uint64)) \<Rightarrow> submit_race \<Rightarrow> http_request \<Rightarrow> Engine \<times> 'j \<Rightarrow>
    ((Engine \<times> 'j) \<times> engine_body response) option" where
  "api_orders je app_j race r ej =
     (case je_order je (rq_Body r) of
        None \<Rightarrow> Some (ej, 400, EHErr ''malformed JSON'')
      | Some req \<Rightarrow>
          (case api_command req of
             Inl msg \<Rightarrow> Some (ej, 400, EHErr msg)
           | Inr cmd \<Rightarrow> submit_answer (Submit_engine app_j race cmd ej)))"

definition api_cancels :: "engine_json \<Rightarrow> (Command \<Rightarrow> 'j \<Rightarrow> 'j \<times> (string + uint64)) \<Rightarrow> submit_race \<Rightarrow> http_request \<Rightarrow> Engine \<times> 'j \<Rightarrow>
    ((Engine \<times> 'j) \<times> engine_body response) option" where
  "api_cancels je app_j race r ej =
     (case je_cancel je (rq_Body r) of
        None \<Rightarrow> Some (ej, 400, EHErr ''malformed JSON'')
      | Some req \<Rightarrow> submit_answer (Submit_engine app_j race (api_cancel req) ej))"

definition api_depth :: "http_request \<Rightarrow> Engine \<times> 'j \<Rightarrow> ((Engine \<times> 'j) \<times> engine_body response) option" where
  "api_depth r ej =
     (let levels = Atoi_ignoring_error (rq_Query r ''levels'');
          levels = (if levels \<le> 0 then 20 else levels)
      in case Depth_engine (rq_Query r ''symbol'') levels (fst ej) of
           None \<Rightarrow> None
         | Some (Inl _) \<Rightarrow> Some (ej, 404, EHUnknownSymbol)
         | Some (Inr (bids, asks)) \<Rightarrow> Some (ej, 200, EHDepth bids asks))"

datatype engine_route = HOrders | HCancels | HBookDepth | HLive

definition engine_routes :: "(string \<times> string \<times> engine_route) list" where
  "engine_routes = [(''POST'', ''/v1/orders'', HOrders), (''POST'', ''/v1/cancel'', HCancels), (''GET'', ''/v1/depth'', HBookDepth), (''GET'', ''/healthz'', HLive)]"

definition engine_ServeHTTP :: "engine_json \<Rightarrow> (Command \<Rightarrow> 'j \<Rightarrow> 'j \<times> (string + uint64)) \<Rightarrow> submit_race \<Rightarrow> http_request \<Rightarrow> Engine \<times> 'j \<Rightarrow>
    ((Engine \<times> 'j) \<times> engine_body response) option" where
  "engine_ServeHTTP je app_j race r ej =
     (case mux_route engine_routes (rq_Method r) (rq_Path r) of
        Found HOrders \<Rightarrow> api_orders je app_j race r ej
      | Found HCancels \<Rightarrow> api_cancels je app_j race r ej
      | Found HBookDepth \<Rightarrow> api_depth r ej
      | Found HLive \<Rightarrow> Some (ej, 200, EHOk)
      | NotFound \<Rightarrow> Some (ej, 404, EHErr ''404 page not found'')
      | MethodNotAllowed \<Rightarrow> Some (ej, 405, EHErr ''Method Not Allowed''))"

fun engine_api_run :: "engine_json \<Rightarrow> (Command \<Rightarrow> 'j \<Rightarrow> 'j \<times> (string + uint64)) \<Rightarrow> (submit_race \<times> http_request) list \<Rightarrow> Engine \<times> 'j \<Rightarrow>
    ((Engine \<times> 'j) \<times> engine_body response list) option" where
  "engine_api_run je app_j [] ej = Some (ej, [])"
| "engine_api_run je app_j ((race, r) # rs) ej =
     (case engine_ServeHTTP je app_j race r ej of
        None \<Rightarrow> None
      | Some (ej, resp) \<Rightarrow> map_option (\<lambda>(ej, resps). (ej, resp # resps)) (engine_api_run je app_j rs ej))"

text \<open>What the decoder and the journal's wire format must give: numbers in range, and commands that survive
  their record.\<close>

definition engine_json_ok :: "engine_json \<Rightarrow> (Command \<Rightarrow> string + string) \<Rightarrow> (string \<Rightarrow> string + Command) \<Rightarrow> bool" where
  "engine_json_ok je mar unm \<longleftrightarrow> (\<forall>b req cmd. je_order je b = Some req \<and> api_command req = Inr cmd \<longrightarrow> cmd_ok cmd \<and> record_ok mar unm cmd)
     \<and> (\<forall>b req. je_cancel je b = Some req \<longrightarrow> record_ok mar unm (api_cancel req))"

lemma submit_synced:
  assumes "fj.synced mar unm syms ej" "cmd_ok cmd" "record_ok mar unm cmd"
  shows "\<exists>ej' resp. submit_answer (Submit_engine (FileJournal_Append mar IoOk) race cmd ej) = Some (ej', resp) \<and> fj.synced mar unm syms ej'"
proof (cases race)
  case NotSent
  then show ?thesis using assms(1) by (simp add: submit_answer_def Submit_engine_def)
next
  case Replied
  obtain e j where ej: "ej = (e, j)" by fastforce
  from assms(1) [unfolded ej] assms(2,3) show ?thesis unfolding ej
    by (cases rule: fj.Run_step_synced) (auto simp: Replied submit_answer_def Submit_engine_def assms(1) [unfolded ej])
next
  case ReplyLost
  obtain e j where ej: "ej = (e, j)" by fastforce
  from assms(1) [unfolded ej] assms(2,3) show ?thesis unfolding ej
    by (cases rule: fj.Run_step_synced) (auto simp: ReplyLost submit_answer_def Submit_engine_def assms(1) [unfolded ej])
qed

lemma engine_ServeHTTP_synced:
  assumes s: "fj.synced mar unm syms ej" and ok: "engine_json_ok je mar unm"
  shows "\<exists>ej' resp. engine_ServeHTTP je (FileJournal_Append mar IoOk) race r ej = Some (ej', resp) \<and> fj.synced mar unm syms ej'"
proof -
  have o: "\<exists>ej' resp. api_orders je (FileJournal_Append mar IoOk) race r ej = Some (ej', resp) \<and> fj.synced mar unm syms ej'"
  proof (cases "je_order je (rq_Body r)")
    case (Some req)
    show ?thesis
    proof (cases "api_command req")
      case (Inr cmd)
      have "cmd_ok cmd" "record_ok mar unm cmd" using ok Some Inr unfolding engine_json_ok_def by blast+
      from submit_synced [OF s this, of race] show ?thesis by (simp add: api_orders_def Some Inr)
    qed (use s Some in \<open>simp add: api_orders_def\<close>)
  qed (use s in \<open>simp add: api_orders_def\<close>)
  have c: "\<exists>ej' resp. api_cancels je (FileJournal_Append mar IoOk) race r ej = Some (ej', resp) \<and> fj.synced mar unm syms ej'"
  proof (cases "je_cancel je (rq_Body r)")
    case (Some req)
    have "cmd_ok (api_cancel req)" by (simp add: api_cancel_def cmd_ok_def in_int64_def split: prod.split)
    moreover have "record_ok mar unm (api_cancel req)" using ok Some unfolding engine_json_ok_def by blast
    ultimately show ?thesis using submit_synced [OF s, of "api_cancel req" race] by (simp add: api_cancels_def Some)
  qed (use s in \<open>simp add: api_cancels_def\<close>)
  have "engine_inv (fst ej)" using s by (auto simp: fj.synced_def)
  then have "\<exists>x. Depth_engine sym n (fst ej) = Some x" for sym n
    using Depth_refines engine_invD(1) by (fastforce simp: Depth_engine_def split: option.split)
  then obtain x where "Depth_engine (rq_Query r ''symbol'') (if Atoi_ignoring_error (rq_Query r ''levels'') \<le> 0 then 20
      else Atoi_ignoring_error (rq_Query r ''levels'')) (fst ej) = Some x" by blast
  then have d: "\<exists>ej' resp. api_depth r ej = Some (ej', resp) \<and> fj.synced mar unm syms ej'"
    using s by (cases ej) (auto simp: api_depth_def Let_def split: sum.split prod.split)
  show ?thesis using o c d s by (cases ej) (simp add: engine_ServeHTTP_def split: routed.split engine_route.split)
qed

lemma engine_api_run_synced:
  assumes "engine_json_ok je mar unm"
  shows "fj.synced mar unm syms ej \<Longrightarrow> \<exists>ej' resps. engine_api_run je (FileJournal_Append mar IoOk) rs ej = Some (ej', resps)
    \<and> length resps = length rs \<and> fj.synced mar unm syms ej'"
proof (induction rs arbitrary: ej)
  case (Cons x rs)
  obtain race r where x: "x = (race, r)" by fastforce
  from engine_ServeHTTP_synced [OF Cons.prems assms] obtain ej1 resp where
    1: "engine_ServeHTTP je (FileJournal_Append mar IoOk) race r ej = Some (ej1, resp)" "fj.synced mar unm syms ej1" by blast
  from Cons.IH [OF 1(2)] obtain ej2 resps where "engine_api_run je (FileJournal_Append mar IoOk) rs ej1 = Some (ej2, resps)"
    "length resps = length rs" "fj.synced mar unm syms ej2" by blast
  with 1 x show ?case by simp
qed simp


definition demo_engine_json :: engine_json where
  "demo_engine_json = \<lparr>je_order = (\<lambda>b. if b = ''ask'' then Some (''limit'', ''BTC-USDT'', ''s1'', 1, ''sell'', 100, 5)
       else if b = ''bad'' then Some (''stop'', ''BTC-USDT'', ''s1'', 1, ''sell'', 100, 5) else None),
     je_cancel = (\<lambda>b. None)\<rparr>"

definition demo_post :: "string \<Rightarrow> http_request" where
  "demo_post b = \<lparr>rq_Method = ''POST'', rq_Path = ''/v1/orders'', rq_Header = (\<lambda>_. []), rq_Query = (\<lambda>_. []), rq_Body = b, rq_RemoteAddr = []\<rparr>"


end
