(* ===== verification/WalletHTTP.thy ===== *)
theory WalletHTTP
  imports AccountHTTP WalletProps
begin

text \<open>
  The HTTP API of the wallet (\<open>src/services/wallet-service/wallethttp/server.go\<close>).
\<close>

section \<open>The wallet API\<close>

text \<open>
  The handlers work on the account store and the wallet. \<open>WBFail\<close> is a body with the text of an error.
\<close>

type_synonym ('s, 'c) wallet_state = "'s \<times> 'c wallet"

record wallet_json =
  jw_allow :: "string \<Rightarrow> (string \<times> string \<times> string \<times> string) option"
  jw_withdraw :: "string \<Rightarrow> (string \<times> string \<times> int64 \<times> string) option"
  jw_id :: "string \<Rightarrow> int64 option"
  jw_deposit :: "string \<Rightarrow> (string \<times> string \<times> string \<times> int64 \<times> int) option"

datatype wallet_body = WBErr string | WBFail wallet_error | WBAddress string string | WBOk bool | WBAllowlist "AllowlistEntry list"
  | WBWithdrawals "Withdrawal list" | WBWithdrawal Withdrawal | WBCredited bool

text \<open>What the service is built from: the provider's operations, the webhook secret, and the address a
  concurrent call may store.\<close>

record 'c wallet_env =
  we_newAddress :: "string \<Rightarrow> string \<Rightarrow> 'c \<Rightarrow> 'c \<times> (string + string)"
  we_withdraw :: "string \<Rightarrow> string \<Rightarrow> int64 \<Rightarrow> string \<Rightarrow> 'c \<Rightarrow> 'c \<times> (string + string)"
  we_webhookSecret :: string
  we_rival :: "string option"

definition writeWalletErr :: "wallet_error \<Rightarrow> wallet_body response" where
  "writeWalletErr err = (case err of
       ErrNotAllowlisted \<Rightarrow> (403, WBErr ''destination not allowlisted'')
     | ErrOverLimit \<Rightarrow> (400, WBFail err)
     | ErrBadAmount \<Rightarrow> (400, WBFail err)
     | ErrWithdrawalNotFound \<Rightarrow> (404, WBErr ''not found'')
     | ErrNotPending \<Rightarrow> (409, WBErr ''already decided'')
     | _ \<Rightarrow> (500, WBErr ''internal error''))"

definition wallet_decode :: "(string \<Rightarrow> 'a option) \<Rightarrow> http_request \<Rightarrow> ('a \<Rightarrow> 'st \<Rightarrow> 'st \<times> wallet_body response) \<Rightarrow> 'st \<Rightarrow> 'st \<times> wallet_body response" where
  "wallet_decode js r k s = (case js (rq_Body r) of None \<Rightarrow> (s, 400, WBErr ''malformed JSON body'') | Some x \<Rightarrow> k x s)"

text \<open>A call into the wallet, and the answer made of its result.\<close>

definition on_wallet :: "('c wallet \<Rightarrow> 'c wallet \<times> (wallet_error + 'a)) \<Rightarrow> (wallet_error \<Rightarrow> wallet_body response) \<Rightarrow> ('a \<Rightarrow> wallet_body response) \<Rightarrow>
    ('s, 'c) wallet_state \<Rightarrow> ('s, 'c) wallet_state \<times> wallet_body response" where
  "on_wallet f bad good sw = (case f (snd sw) of (w, Inl err) \<Rightarrow> ((fst sw, w), bad err) | (w, Inr x) \<Rightarrow> ((fst sw, w), good x))"

definition wallet_user :: "account_env \<Rightarrow> 's Store \<Rightarrow> http_request \<Rightarrow> 's \<Rightarrow> 's \<times> (wallet_body response + User)" where
  "wallet_user en S r s =
     (case bearer_token r of
        None \<Rightarrow> (s, Inl (401, WBErr ''missing bearer token''))
      | Some token \<Rightarrow>
          (case Authenticate (en_prm en) S (en_now en) token s of
             (s, Inl _) \<Rightarrow> (s, Inl (401, WBErr ''invalid or expired session''))
           | (s, Inr u) \<Rightarrow> (s, Inr u)))"

type_synonym ('s, 'c) wallet_next = "http_request \<Rightarrow> User \<Rightarrow> ('s, 'c) wallet_state \<Rightarrow> ('s, 'c) wallet_state \<times> wallet_body response"

definition wallet_authed :: "account_env \<Rightarrow> 's Store \<Rightarrow> ('s, 'c) wallet_next \<Rightarrow> http_request \<Rightarrow> ('s, 'c) wallet_state \<Rightarrow> ('s, 'c) wallet_state \<times> wallet_body response" where
  "wallet_authed en S nxt r sw =
     (case wallet_user en S r (fst sw) of
        (s, Inl resp) \<Rightarrow> ((s, snd sw), resp)
      | (s, Inr u) \<Rightarrow> nxt r u (s, snd sw))"

definition wallet_adminOnly :: "account_env \<Rightarrow> 's Store \<Rightarrow> ('s, 'c) wallet_next \<Rightarrow> http_request \<Rightarrow> ('s, 'c) wallet_state \<Rightarrow> ('s, 'c) wallet_state \<times> wallet_body response" where
  "wallet_adminOnly en S nxt r sw =
     (case wallet_user en S r (fst sw) of
        (s, Inl resp) \<Rightarrow> ((s, snd sw), resp)
      | (s, Inr u) \<Rightarrow> if \<not> us_IsAdmin u then ((s, snd sw), 403, WBErr ''admin only'') else nxt r u (s, snd sw))"

definition stepUp :: "account_env \<Rightarrow> 's Store \<Rightarrow> User \<Rightarrow> string \<Rightarrow> (('s, 'c) wallet_state \<Rightarrow> ('s, 'c) wallet_state \<times> wallet_body response) \<Rightarrow>
    ('s, 'c) wallet_state \<Rightarrow> ('s, 'c) wallet_state \<times> wallet_body response" where
  "stepUp en S u code k sw =
     (case RequireTOTP (en_prm en) S (en_now2 en) (us_ID u) code (fst sw) of
        (s, Inr _) \<Rightarrow> k (s, snd sw)
      | (s, Inl err) \<Rightarrow> ((s, snd sw), if err = ErrTOTPRequired then (403, WBErr ''enable 2FA before withdrawing'') else (401, WBErr ''invalid 2FA code'')))"

definition handleAddress :: "'c wallet_env \<Rightarrow> ('s, 'c) wallet_next" where
  "handleAddress we r u sw =
     (let asset = rq_Query r ''asset''
      in case DepositAddress (we_newAddress we) (we_rival we) (us_ID u) asset (snd sw) of
           (w, addr, None) \<Rightarrow> ((fst sw, w), 200, WBAddress asset addr)
         | (w, _, Some _) \<Rightarrow> ((fst sw, w), 500, WBErr ''internal error''))"

definition internal :: "wallet_error \<Rightarrow> wallet_body response" where
  "internal err = (500, WBErr ''internal error'')"

definition handleAllowlist :: "account_env \<Rightarrow> wallet_json \<Rightarrow> 's Store \<Rightarrow> ('s, 'c) wallet_next" where
  "handleAllowlist en jw S r u = wallet_decode (jw_allow jw) r (\<lambda>(asset, address, label, code).
     stepUp en S u code (on_wallet (AddAllowlistAddress (us_ID u) asset address label) internal (\<lambda>_. (200, WBOk True))))"

definition handleListAllowlist :: "('s, 'c) wallet_next" where
  "handleListAllowlist r u = on_wallet (Allowlist (us_ID u)) internal (\<lambda>l. (200, WBAllowlist l))"

definition handleUserWithdrawals :: "('s, 'c) wallet_next" where
  "handleUserWithdrawals r u = on_wallet (UserWithdrawals (us_ID u)) internal (\<lambda>l. (200, WBWithdrawals l))"

definition handleWithdraw :: "account_env \<Rightarrow> wallet_json \<Rightarrow> 's Store \<Rightarrow> ('s, 'c) wallet_next" where
  "handleWithdraw en jw S r u = wallet_decode (jw_withdraw jw) r (\<lambda>(asset, address, amount, code).
     stepUp en S u code (on_wallet (RequestWithdrawal (us_ID u) asset address amount) writeWalletErr (\<lambda>wd. (201, WBWithdrawal wd))))"

definition handlePending :: "('s, 'c) wallet_next" where
  "handlePending r u = on_wallet PendingWithdrawals internal (\<lambda>l. (200, WBWithdrawals l))"

definition decide :: "wallet_json \<Rightarrow> (int64 \<Rightarrow> 'c wallet \<Rightarrow> 'c wallet \<times> (wallet_error + Withdrawal)) \<Rightarrow> http_request \<Rightarrow>
    ('s, 'c) wallet_state \<Rightarrow> ('s, 'c) wallet_state \<times> wallet_body response" where
  "decide jw fn r = wallet_decode (jw_id jw) r (\<lambda>i. on_wallet (fn i) writeWalletErr (\<lambda>wd. (200, WBWithdrawal wd)))"

definition handleApprove :: "'c wallet_env \<Rightarrow> wallet_json \<Rightarrow> ('s, 'c) wallet_next" where
  "handleApprove we jw r u = decide jw (ApproveWithdrawal (we_withdraw we)) r"

definition handleReject :: "wallet_json \<Rightarrow> ('s, 'c) wallet_next" where
  "handleReject jw r u = decide jw RejectWithdrawal r"

definition handleDepositWebhook :: "'c wallet_env \<Rightarrow> wallet_json \<Rightarrow> http_request \<Rightarrow> ('s, 'c) wallet_state \<Rightarrow> ('s, 'c) wallet_state \<times> wallet_body response" where
  "handleDepositWebhook we jw r sw =
     (if rq_Header r ''X-Webhook-Secret'' \<noteq> we_webhookSecret we then (sw, 401, WBErr ''bad webhook secret'')
      else wallet_decode (jw_deposit jw) r (\<lambda>(asset, address, txHash, amount, confirmations).
             on_wallet (HandleDeposit asset address txHash amount confirmations) (\<lambda>err. (400, WBFail err)) (\<lambda>c. (200, WBCredited c))) sw)"

datatype wallet_route = HAddress | HListAllowlist | HAllowlist | HWithdraw | HUserWithdrawals | HPending | HApprove | HReject | HDepositWebhook

definition wallet_routes :: "(string \<times> string \<times> wallet_route) list" where
  "wallet_routes = [(''GET'', ''/v1/wallet/address'', HAddress), (''GET'', ''/v1/wallet/allowlist'', HListAllowlist),
     (''POST'', ''/v1/wallet/allowlist'', HAllowlist), (''POST'', ''/v1/wallet/withdraw'', HWithdraw),
     (''GET'', ''/v1/wallet/withdrawals'', HUserWithdrawals), (''GET'', ''/v1/admin/withdrawals'', HPending),
     (''POST'', ''/v1/admin/withdrawals/approve'', HApprove), (''POST'', ''/v1/admin/withdrawals/reject'', HReject),
     (''POST'', ''/v1/wallet/webhook/deposit'', HDepositWebhook)]"

fun wallet_handler :: "account_env \<Rightarrow> 'c wallet_env \<Rightarrow> wallet_json \<Rightarrow> 's Store \<Rightarrow> wallet_route \<Rightarrow> http_request \<Rightarrow>
    ('s, 'c) wallet_state \<Rightarrow> ('s, 'c) wallet_state \<times> wallet_body response" where
  "wallet_handler en we jw S HAddress = wallet_authed en S (handleAddress we)"
| "wallet_handler en we jw S HListAllowlist = wallet_authed en S handleListAllowlist"
| "wallet_handler en we jw S HAllowlist = wallet_authed en S (handleAllowlist en jw S)"
| "wallet_handler en we jw S HWithdraw = wallet_authed en S (handleWithdraw en jw S)"
| "wallet_handler en we jw S HUserWithdrawals = wallet_authed en S handleUserWithdrawals"
| "wallet_handler en we jw S HPending = wallet_adminOnly en S handlePending"
| "wallet_handler en we jw S HApprove = wallet_adminOnly en S (handleApprove we jw)"
| "wallet_handler en we jw S HReject = wallet_adminOnly en S (handleReject jw)"
| "wallet_handler en we jw S HDepositWebhook = handleDepositWebhook we jw"

definition wallet_ServeHTTP :: "account_env \<Rightarrow> 'c wallet_env \<Rightarrow> wallet_json \<Rightarrow> 's Store \<Rightarrow> http_request \<Rightarrow>
    ('s, 'c) wallet_state \<Rightarrow> ('s, 'c) wallet_state \<times> wallet_body response" where
  "wallet_ServeHTTP en we jw S r sw =
     (case mux_route wallet_routes (rq_Method r) (rq_Path r) of
        Found h \<Rightarrow> wallet_handler en we jw S h r sw
      | NotFound \<Rightarrow> (sw, 404, WBErr ''404 page not found'')
      | MethodNotAllowed \<Rightarrow> (sw, 405, WBErr ''Method Not Allowed''))"

end
