(* ===== verification/TradingGrowth.thy ===== *)
theory TradingGrowth
  imports TradingSafe
begin

text \<open>
  Postings are never lost: no operation of the ledger or the coordinator forgets an idempotency key.
\<close>

section \<open>Keys are never forgotten\<close>

lemma next_io_txs: "next_io db = (io, db') \<Longrightarrow> db_txs db' = db_txs db"
  by (auto simp: next_io_def split: list.splits)

lemma insert_entry_txs: "insert_entry tx e db = (db', r) \<Longrightarrow> db_txs db' = db_txs db"
  by (auto simp: insert_entry_def Let_def split: if_splits option.splits)

lemma update_balance_txs: "update_balance x i db = (db', r) \<Longrightarrow> db_txs db' = db_txs db"
  by (auto simp: update_balance_def split: if_splits option.splits)

lemma post_entries_txs: "post_entries tx es db = (db', r) \<Longrightarrow> db_txs db' = db_txs db"
proof (induction tx es db rule: post_entries.induct)
  case (2 tx e es db)
  then show ?case
    by (auto split: prod.splits db_io.splits sum.splits if_splits dest!: next_io_txs insert_entry_txs update_balance_txs)
qed simp

lemma autocommit_txs:
  assumes "autocommit f db = (db', r)" "\<And>d d' x. f d = (d', x) \<Longrightarrow> db_txs d' = db_txs d"
  shows "db_txs db' = db_txs db"
proof -
  obtain io d where n: "next_io db = (io, d)" by fastforce
  obtain d' x where f: "f d = (d', x)" by fastforce
  from assms(1) n f assms(2) [OF f] next_io_txs [OF n] show ?thesis by (cases io) (auto simp: autocommit_def)
qed

lemma UserAccount_txs: "UserAccount u a k db = (db', r) \<Longrightarrow> db_txs db' = db_txs db"
  unfolding UserAccount_def by (erule autocommit_txs) (auto simp: upsert_account_def Let_def split: if_splits option.splits)

lemma SystemAccount_txs: "SystemAccount a db = (db', r) \<Longrightarrow> db_txs db' = db_txs db"
  unfolding SystemAccount_def by (erule autocommit_txs) (auto simp: upsert_account_def Let_def split: if_splits option.splits)

lemma Post_grows:
  assumes "Post kind key es db = (db', r)"
  shows "posted db \<subseteq> posted db'"
proof -
  obtain io0 db0 where n0: "next_io db = (io0, db0)" by fastforce
  obtain io1 db1 where n1: "next_io db0 = (io1, db1)" by fastforce
  obtain db2 tx where i: "insert_tx kind key db1 = (db2, tx)" by fastforce
  have t: "db_txs db0 = db_txs db" "db_txs db1 = db_txs db" using next_io_txs n0 n1 by metis+
  have i': "set (db_txs db) \<subseteq> set (db_txs db2)" using i t by (auto simp: insert_tx_def Let_def split: if_splits)
  have rb: "posted (rollback db0 d) = posted db" for d using t by (simp add: rollback_def posted_def)
  have fin: "posted db \<subseteq> posted d4" if p: "post_entries x es db2 = (d3, Inr u)" and c: "commit db0 d3 = (d4, r4)" for x d3 u d4 r4
  proof -
    have "set (db_txs db) \<subseteq> set (db_txs d3)" using post_entries_txs [OF p] i' by simp
    then have "posted db \<subseteq> posted d3" by (auto simp: posted_def)
    moreover obtain io d where n: "next_io d3 = (io, d)" by fastforce
    moreover have "posted d = posted d3" using next_io_txs [OF n] by (simp add: posted_def)
    ultimately show ?thesis using c rb by (cases io) (auto simp: commit_def)
  qed
  have "posted db0 = posted db" "posted db1 = posted db" using t by (simp_all add: posted_def)
  with assms n0 n1 i rb show ?thesis
    by (cases io0; cases io1; cases tx) (auto simp: Post_def split: if_splits prod.splits sum.splits dest: fin)
qed

lemma Post_keys: "Post kind key es db = (db', r) \<Longrightarrow> x \<in> set (db_txs db) \<Longrightarrow> tx_key x \<in> tx_key ` set (db_txs db')"
  using Post_grows [of kind key es db db' r] by (auto simp: posted_def)

lemma ledger_exec_grows:
  assumes "ledger_exec x db = (db', r)"
  shows "posted db \<subseteq> posted db'"
proof
  fix k assume "k \<in> posted db"
  then obtain t where t: "t \<in> set (db_txs db)" "k = tx_key t" by (auto simp: posted_def)
  have "tx_key t \<in> tx_key ` set (db_txs db')"
    using assms t(1)
    by (cases x) (auto simp: Deposit_def Lock_def Unlock_def transfer_def SettleWithdrawal_def SettleTrade_def Let_def
        split: if_splits prod.splits sum.splits dest!: UserAccount_txs SystemAccount_txs intro: Post_keys)
  then show "k \<in> posted db'" using t by (simp add: posted_def)
qed

section \<open>The coordinator only adds to the ledger\<close>

definition tgrows :: "'j Trading \<Rightarrow> 'j Trading \<Rightarrow> bool" where
  "tgrows t t' \<longleftrightarrow> posted (td_ledger t) \<subseteq> posted (td_ledger t')"

lemma tgrows_refl [simp]: "tgrows t t" and tgrows_trans: "tgrows t t' \<Longrightarrow> tgrows t' t'' \<Longrightarrow> tgrows t t''"
  by (auto simp: tgrows_def)

lemma with_ledger_grows:
  "with_ledger (Lock u a x k) t = (t', r) \<Longrightarrow> tgrows t t'" "with_ledger (Unlock u a x k) t = (t', r) \<Longrightarrow> tgrows t t'"
  "with_ledger (SettleTrade ev) t = (t', r) \<Longrightarrow> tgrows t t'"
  unfolding tgrows_def
  using ledger_exec_grows [of "OLock u a x k"] ledger_exec_grows [of "OUnlock u a x k"] ledger_exec_grows [of "OTrade ev"]
  by (elim with_ledger_cases, simp)+

lemma recordTrade_grows [simp]: "tgrows t (recordTrade ev t') = tgrows t t'"
  by (simp add: tgrows_def)

lemma settle_event_grows: "settle_event cmd la lx ev t = (t', r) \<Longrightarrow> tgrows t t'"
  by (auto simp: settle_event_def settle_trade_def settle_cancel_def Let_def split: EventType.splits if_splits prod.splits sum.splits
      dest!: with_ledger_grows intro: tgrows_trans)

lemma settle_grows: "settle cmd evs la lx t = (t', r) \<Longrightarrow> tgrows t t'"
proof (induction evs arbitrary: t)
  case (Cons ev evs)
  obtain t1 r1 where 1: "settle_event cmd la lx ev t = (t1, r1)" by fastforce
  from Cons 1 settle_event_grows [OF 1] show ?case by (cases r1) (auto intro: tgrows_trans)
qed simp

lemma Submit_ledger: "Submit app_j race cmd t = Some (t', r) \<Longrightarrow> td_ledger t' = td_ledger t"
  by (auto simp: Submit_def split: submit_race.splits option.splits)

lemma submit_order_grows:
  assumes "submit_order app_j race oid u qty cmd la lx t = Some (t', evs, err)"
  shows "tgrows t t'"
proof -
  from assms obtain t1 r1 where 1: "Submit app_j race cmd t = Some (t1, r1)" by (auto simp: submit_order_def split: option.splits)
  have g1: "tgrows t t1" using Submit_ledger [OF 1] by (simp add: tgrows_def)
  show ?thesis
  proof (cases r1)
    case (Inl e)
    obtain t2 r2 where 2: "with_ledger (Unlock u la lx (''unlock-fail-'' @ oid)) t1 = (t2, r2)" by fastforce
    have "t' = t2" using assms unfolding submit_order_def 1 Inl option.case prod.case sum.case 2 by simp
    with g1 with_ledger_grows(2) [OF 2] show ?thesis by (auto intro: tgrows_trans)
  next
    case (Inr events)
    obtain t2 r2 where 2: "settle cmd events la lx t1 = (t2, r2)" by fastforce
    have g2: "tgrows t t2" using g1 settle_grows [OF 2] by (rule tgrows_trans)
    obtain t3 r3 where 3: "with_ledger (Unlock u la (i64_sub qty (filled_qty events)) (''unlock-unfilled-'' @ oid)) t2 = (t3, r3)" by fastforce
    have g3: "tgrows t t3" using g2 with_ledger_grows(2) [OF 3] by (rule tgrows_trans)
    have "t' = t2 \<or> t' = t3"
      using assms unfolding submit_order_def 1 Inr option.case prod.case sum.case 2 3
      by (auto split: sum.splits option.splits if_splits)
    with g2 g3 show ?thesis by blast
  qed
qed

lemma PlaceOrder_grows:
  assumes "PlaceOrder app_j nid race u symbol ty side price qty t = Some (t', evs, err)"
  shows "tgrows t t'"
proof (cases rule: PlaceOrder_cases [of app_j nid race u symbol ty side price qty t])
  case (refused err)
  then show ?thesis using assms by simp
next
  case (unfunded oid base quote cmd la lx t1 err)
  then show ?thesis using assms with_ledger_grows(1) [OF unfunded(3)] by simp
next
  case (submitted oid base quote cmd la lx t1)
  then show ?thesis using assms with_ledger_grows(1) [OF submitted(8)] submit_order_grows by (metis tgrows_trans)
qed

lemma CancelOrder_grows: "CancelOrder app_j race u symbol oid t = Some (t', evs, err) \<Longrightarrow> tgrows t t'"
  by (auto simp: CancelOrder_def tgrows_def split: option.splits sum.splits prod.splits dest!: Submit_ledger settle_grows)

end
