(* ===== verification/HttpAuthority.thy ===== *)
theory HttpAuthority
  imports WalletHTTP ExchangeHTTP TradingGrowth AccountProps
begin

text \<open>
  What a request may do: the effect of serving one request of the wallet API (\<open>wallethttp/server.go\<close>) and of
  the exchange API (\<open>exchange/server.go\<close>) on the state behind it, and what the request must carry for that effect.
\<close>

section \<open>Which requests may do what\<close>

text \<open>The request carries the token of a valid session of \<open>u\<close>; \<open>s1\<close> is the store after the check.\<close>

definition session_of :: "account_env \<Rightarrow> 's Store \<Rightarrow> http_request \<Rightarrow> 's \<Rightarrow> User \<Rightarrow> 's \<Rightarrow> bool" where
  "session_of en S r s u s1 \<longleftrightarrow> (\<exists>token. bearer_token r = Some token \<and> Authenticate (en_prm en) S (en_now en) token s = (s1, Inr u))"

text \<open>What a wallet operation needs of the request that asks for it.\<close>

fun wallet_grant :: "account_env \<Rightarrow> 'c wallet_env \<Rightarrow> wallet_json \<Rightarrow> 's Store \<Rightarrow> http_request \<Rightarrow> 's \<Rightarrow> wallet_op \<Rightarrow> bool" where
  "wallet_grant en we jw S r s (WAddress rival uid a) \<longleftrightarrow> (\<exists>u s1. session_of en S r s u s1 \<and> us_ID u = uid)"
| "wallet_grant en we jw S r s (WAllow uid a d l) \<longleftrightarrow> (\<exists>u s1 code. session_of en S r s u s1 \<and> us_ID u = uid
     \<and> jw_allow jw (rq_Body r) = Some (a, d, l, code) \<and> snd (RequireTOTP (en_prm en) S (en_now2 en) uid code s1) = Inr ())"
| "wallet_grant en we jw S r s (WRequest uid a d x) \<longleftrightarrow> (\<exists>u s1 code. session_of en S r s u s1 \<and> us_ID u = uid
     \<and> jw_withdraw jw (rq_Body r) = Some (a, d, x, code) \<and> snd (RequireTOTP (en_prm en) S (en_now2 en) uid code s1) = Inr ())"
| "wallet_grant en we jw S r s (WApprove i) \<longleftrightarrow> (\<exists>u s1. session_of en S r s u s1 \<and> us_IsAdmin u \<and> jw_id jw (rq_Body r) = Some i)"
| "wallet_grant en we jw S r s (WReject i) \<longleftrightarrow> (\<exists>u s1. session_of en S r s u s1 \<and> us_IsAdmin u \<and> jw_id jw (rq_Body r) = Some i)"
| "wallet_grant en we jw S r s (WDeposit a d tx x n) \<longleftrightarrow> rq_Header r ''X-Webhook-Secret'' = we_webhookSecret we
     \<and> jw_deposit jw (rq_Body r) = Some (a, d, tx, x, n)"
| "wallet_grant en we jw S r s (WLedger x) \<longleftrightarrow> False"
| "wallet_grant en we jw S r s (WReport u) \<longleftrightarrow> False"

definition quiet :: "'c wallet \<Rightarrow> 'c wallet \<Rightarrow> bool" where
  "quiet w w' \<longleftrightarrow> (\<exists>db. same_tables (wl_db w) db \<and> w' = w\<lparr>wl_db := db\<rparr>)"

lemma quiet_refl [simp]: "quiet w w"
  unfolding quiet_def by (rule exI [of _ "wl_db w"]) simp

lemma statement_quiet:
  assumes "statement f w = (w', r)" "\<And>w. fst (f w) = w"
  shows "quiet w w'"
  using assms(1)
proof (cases rule: statement_cases)
  case (run db)
  then have "w' = w\<lparr>wl_db := db\<rparr>" using assms(2) by (metis fst_conv)
  with run show ?thesis by (auto simp: quiet_def)
next
  case (lost db r')
  then have "w' = w\<lparr>wl_db := db\<rparr>" using assms(2) by (metis fst_conv)
  with lost show ?thesis by (auto simp: quiet_def)
qed (auto simp: quiet_def)

lemma reads_quiet:
  "Allowlist u w = (w', r1) \<Longrightarrow> quiet w w'" "UserWithdrawals u w = (w', r2) \<Longrightarrow> quiet w w'" "PendingWithdrawals w = (w', r3) \<Longrightarrow> quiet w w'"
  unfolding Allowlist_def UserWithdrawals_def PendingWithdrawals_def by (erule statement_quiet; simp)+

lemma on_wallet_state: "on_wallet f bad good sw = ((s', w'), resp) \<Longrightarrow> s' = fst sw \<and> w' = fst (f (snd sw))"
  by (auto simp: on_wallet_def split: prod.splits sum.splits)

definition http_effect :: "account_env \<Rightarrow> 'c wallet_env \<Rightarrow> wallet_json \<Rightarrow> 's Store \<Rightarrow> http_request \<Rightarrow> 's \<Rightarrow> 'c wallet \<Rightarrow> 'c wallet \<Rightarrow> bool" where
  "http_effect en we jw S r s w w' \<longleftrightarrow> quiet w w'
     \<or> (\<exists>op. w' = wallet_exec (we_newAddress we) (we_withdraw we) op w \<and> wallet_grant en we jw S r s op)"

lemma wallet_authed_effect:
  assumes "wallet_authed en S nxt r (s, w) = ((s', w'), resp)"
    and "\<And>u s1. session_of en S r s u s1 \<Longrightarrow> nxt r u (s1, w) = ((s', w'), resp) \<Longrightarrow> http_effect en we jw S r s w w'"
  shows "http_effect en we jw S r s w w'"
  using assms
  by (auto simp: wallet_authed_def wallet_user_def session_of_def http_effect_def split: option.splits prod.splits sum.splits)

lemma wallet_adminOnly_effect:
  assumes "wallet_adminOnly en S nxt r (s, w) = ((s', w'), resp)"
    and "\<And>u s1. session_of en S r s u s1 \<Longrightarrow> us_IsAdmin u \<Longrightarrow> nxt r u (s1, w) = ((s', w'), resp) \<Longrightarrow> http_effect en we jw S r s w w'"
  shows "http_effect en we jw S r s w w'"
  using assms
  by (auto simp: wallet_adminOnly_def wallet_user_def session_of_def http_effect_def split: option.splits prod.splits sum.splits if_splits)

lemma stepUp_state:
  assumes "stepUp en S u code k (s1, w) = ((s', w'), resp)"
  shows "w' = w \<or> (\<exists>s2. RequireTOTP (en_prm en) S (en_now2 en) (us_ID u) code s1 = (s2, Inr ()) \<and> k (s2, w) = ((s', w'), resp))"
  using assms by (auto simp: stepUp_def split: prod.splits sum.splits)

lemma effectI:
  "wallet_grant en we jw S r s op \<Longrightarrow> w' = wallet_exec (we_newAddress we) (we_withdraw we) op w \<Longrightarrow> http_effect en we jw S r s w w'"
  by (auto simp: http_effect_def)

lemma wallet_handler_effect:
  assumes "wallet_handler en we jw S h r (s, w) = ((s', w'), resp)"
  shows "http_effect en we jw S r s w w'"
proof (cases h)
  case HAddress
  show ?thesis
  proof (rule wallet_authed_effect [OF assms [unfolded HAddress wallet_handler.simps]])
    fix u s1 assume u: "session_of en S r s u s1" "handleAddress we r u (s1, w) = ((s', w'), resp)"
    then have "w' = wallet_exec (we_newAddress we) (we_withdraw we) (WAddress (we_rival we) (us_ID u) (rq_Query r ''asset'')) w"
      by (auto simp: handleAddress_def Let_def split: prod.splits option.splits)
    then show "http_effect en we jw S r s w w'" by (rule effectI [rotated]) (use u(1) in auto)
  qed
next
  case HAllowlist
  show ?thesis
  proof (rule wallet_authed_effect [OF assms [unfolded HAllowlist wallet_handler.simps]])
    fix u s1 assume u: "session_of en S r s u s1" and n: "handleAllowlist en jw S r u (s1, w) = ((s', w'), resp)"
    show "http_effect en we jw S r s w w'"
    proof (cases "jw_allow jw (rq_Body r)")
      case (Some x)
      obtain a d l code where x: "x = (a, d, l, code)" by (cases x) auto
      let ?k = "on_wallet (AddAllowlistAddress (us_ID u) a d l) internal (\<lambda>_. (200, WBOk True))"
      from n have "stepUp en S u code ?k (s1, w) = ((s', w'), resp)" by (simp add: handleAllowlist_def wallet_decode_def Some x)
      from stepUp_state [OF this] show ?thesis
      proof (elim disjE exE conjE)
        fix s2 assume t: "RequireTOTP (en_prm en) S (en_now2 en) (us_ID u) code s1 = (s2, Inr ())" "?k (s2, w) = ((s', w'), resp)"
        show ?thesis
          by (rule effectI [of _ _ _ _ _ _ "WAllow (us_ID u) a d l"]) (use u t Some x on_wallet_state [OF t(2)] in \<open>auto intro!: exI [of _ u] exI [of _ s1]\<close>)
      qed (simp add: http_effect_def)
    qed (use n in \<open>simp add: handleAllowlist_def wallet_decode_def http_effect_def\<close>)
  qed
next
  case HWithdraw
  show ?thesis
  proof (rule wallet_authed_effect [OF assms [unfolded HWithdraw wallet_handler.simps]])
    fix u s1 assume u: "session_of en S r s u s1" and n: "handleWithdraw en jw S r u (s1, w) = ((s', w'), resp)"
    show "http_effect en we jw S r s w w'"
    proof (cases "jw_withdraw jw (rq_Body r)")
      case (Some x)
      obtain a d n' code where x: "x = (a, d, n', code)" by (cases x) auto
      let ?k = "on_wallet (RequestWithdrawal (us_ID u) a d n') writeWalletErr (\<lambda>wd. (201, WBWithdrawal wd))"
      from n have "stepUp en S u code ?k (s1, w) = ((s', w'), resp)" by (simp add: handleWithdraw_def wallet_decode_def Some x)
      from stepUp_state [OF this] show ?thesis
      proof (elim disjE exE conjE)
        fix s2 assume t: "RequireTOTP (en_prm en) S (en_now2 en) (us_ID u) code s1 = (s2, Inr ())" "?k (s2, w) = ((s', w'), resp)"
        show ?thesis
          by (rule effectI [of _ _ _ _ _ _ "WRequest (us_ID u) a d n'"]) (use u t Some x on_wallet_state [OF t(2)] in \<open>auto intro!: exI [of _ u] exI [of _ s1]\<close>)
      qed (simp add: http_effect_def)
    qed (use n in \<open>simp add: handleWithdraw_def wallet_decode_def http_effect_def\<close>)
  qed
next
  case HApprove
  show ?thesis
  proof (rule wallet_adminOnly_effect [OF assms [unfolded HApprove wallet_handler.simps]])
    fix u s1 assume u: "session_of en S r s u s1" "us_IsAdmin u" and n: "handleApprove we jw r u (s1, w) = ((s', w'), resp)"
    show "http_effect en we jw S r s w w'"
    proof (cases "jw_id jw (rq_Body r)")
      case (Some i)
      from n have k: "on_wallet (ApproveWithdrawal (we_withdraw we) i) writeWalletErr (\<lambda>wd. (200, WBWithdrawal wd)) (s1, w) = ((s', w'), resp)"
        by (simp add: handleApprove_def decide_def wallet_decode_def Some)
      show ?thesis by (rule effectI [of _ _ _ _ _ _ "WApprove i"]) (use u Some on_wallet_state [OF k] in auto)
    qed (use n in \<open>simp add: handleApprove_def decide_def wallet_decode_def http_effect_def\<close>)
  qed
next
  case HReject
  show ?thesis
  proof (rule wallet_adminOnly_effect [OF assms [unfolded HReject wallet_handler.simps]])
    fix u s1 assume u: "session_of en S r s u s1" "us_IsAdmin u" and n: "handleReject jw r u (s1, w) = ((s', w'), resp)"
    show "http_effect en we jw S r s w w'"
    proof (cases "jw_id jw (rq_Body r)")
      case (Some i)
      from n have k: "on_wallet (RejectWithdrawal i) writeWalletErr (\<lambda>wd. (200, WBWithdrawal wd)) (s1, w) = ((s', w'), resp)"
        by (simp add: handleReject_def decide_def wallet_decode_def Some)
      show ?thesis by (rule effectI [of _ _ _ _ _ _ "WReject i"]) (use u Some on_wallet_state [OF k] in auto)
    qed (use n in \<open>simp add: handleReject_def decide_def wallet_decode_def http_effect_def\<close>)
  qed
next
  case HDepositWebhook
  show ?thesis
  proof (cases "rq_Header r ''X-Webhook-Secret'' = we_webhookSecret we \<and> jw_deposit jw (rq_Body r) \<noteq> None")
    case True
    then obtain a d tx x n where d: "jw_deposit jw (rq_Body r) = Some (a, d, tx, x, n)" by auto
    from assms HDepositWebhook True d have k: "on_wallet (HandleDeposit a d tx x n) (\<lambda>err. (400, WBFail err)) (\<lambda>c. (200, WBCredited c)) (s, w) = ((s', w'), resp)"
      by (simp add: handleDepositWebhook_def wallet_decode_def)
    show ?thesis by (rule effectI [of _ _ _ _ _ _ "WDeposit a d tx x n"]) (use True d on_wallet_state [OF k] in auto)
  qed (use assms HDepositWebhook in \<open>auto simp: handleDepositWebhook_def wallet_decode_def http_effect_def split: if_splits option.splits\<close>)
next
  case HListAllowlist
  show ?thesis
    by (rule wallet_authed_effect [OF assms [unfolded HListAllowlist wallet_handler.simps]])
      (auto simp: handleListAllowlist_def http_effect_def dest!: on_wallet_state intro: reads_quiet(1) [OF prod.collapse [symmetric]])
next
  case HUserWithdrawals
  show ?thesis
    by (rule wallet_authed_effect [OF assms [unfolded HUserWithdrawals wallet_handler.simps]])
      (auto simp: handleUserWithdrawals_def http_effect_def dest!: on_wallet_state intro: reads_quiet(2) [OF prod.collapse [symmetric]])
next
  case HPending
  show ?thesis
    by (rule wallet_adminOnly_effect [OF assms [unfolded HPending wallet_handler.simps]])
      (auto simp: handlePending_def http_effect_def dest!: on_wallet_state intro: reads_quiet(3) [OF prod.collapse [symmetric]])
qed

lemma wallet_ServeHTTP_effect:
  "wallet_ServeHTTP en we jw S r (s, w) = ((s', w'), resp) \<Longrightarrow> http_effect en we jw S r s w w'"
  by (auto simp: wallet_ServeHTTP_def http_effect_def split: routed.splits dest!: wallet_handler_effect)

section \<open>Trading requests\<close>

text \<open>The request is signed with an API key of \<open>u\<close> or carries the token of a session.\<close>

definition caller_of :: "account_env \<Rightarrow> 's Store \<Rightarrow> http_request \<Rightarrow> 's \<Rightarrow> User \<Rightarrow> 's \<Rightarrow> bool" where
  "caller_of en S r s u s1 \<longleftrightarrow>
     (if rq_Header r ''X-API-Key'' = [] then session_of en S r s u s1
      else \<exists>ts. ParseInt (rq_Header r ''X-API-Timestamp'') = Some ts
        \<and> VerifyAPIRequest (en_prm en) S (en_cipher en) (en_now en) (rq_Header r ''X-API-Key'') (rq_Header r ''X-API-Signature'') ts
            (rq_Method r) (rq_Path r) (rq_Body r) s = (s1, Inr u))"

fun trading_grant :: "account_env \<Rightarrow> exchange_env \<Rightarrow> exchange_json \<Rightarrow> 's Store \<Rightarrow> http_request \<Rightarrow> 's \<Rightarrow> trading_op \<Rightarrow> bool" where
  "trading_grant en xe jx S r s (TPlace nid race uid symbol ty side price qty) \<longleftrightarrow> (\<exists>u s1 sd. caller_of en S r s u s1 \<and> us_ID u = uid
     \<and> jx_place jx (rq_Body r) = Some (symbol, ty, sd, price, qty) \<and> parseSide sd = Some side)"
| "trading_grant en xe jx S r s (TCancel race uid symbol oid) \<longleftrightarrow> (\<exists>u s1. caller_of en S r s u s1 \<and> us_ID u = uid
     \<and> jx_cancel jx (rq_Body r) = Some (symbol, oid))"
| "trading_grant en xe jx S r s (THalt symbol) \<longleftrightarrow> (\<exists>u s1. caller_of en S r s u s1 \<and> us_IsAdmin u \<and> jx_symbol jx (rq_Body r) = Some symbol)"
| "trading_grant en xe jx S r s (TResume symbol) \<longleftrightarrow> (\<exists>u s1. caller_of en S r s u s1 \<and> us_IsAdmin u \<and> jx_symbol jx (rq_Body r) = Some symbol)"
| "trading_grant en xe jx S r s (TLedger x) \<longleftrightarrow> xe_faucet xe \<and> (\<exists>u s1 a n k. caller_of en S r s u s1 \<and> x = ODeposit (us_ID u) a n (''faucet-'' @ k)
     \<and> jx_deposit jx (rq_Body r) = Some (a, n))"

definition tquiet :: "'j Trading \<Rightarrow> 'j Trading \<Rightarrow> bool" where
  "tquiet t t' \<longleftrightarrow> (\<exists>db. same_tables (td_ledger t) db \<and> t' = t\<lparr>td_ledger := db\<rparr>)"

lemma tquiet_refl [simp]: "tquiet t t"
  unfolding tquiet_def by (rule exI [of _ "td_ledger t"]) simp

definition trading_effect :: "account_env \<Rightarrow> exchange_env \<Rightarrow> exchange_json \<Rightarrow> 's Store \<Rightarrow> http_request \<Rightarrow> 's \<Rightarrow> MemJournal Trading \<Rightarrow> MemJournal Trading \<Rightarrow> bool" where
  "trading_effect en xe jx S r s t t' \<longleftrightarrow> tquiet t t' \<or> (\<exists>op. trading_exec op t = Some t' \<and> trading_grant en xe jx S r s op)"

lemma trading_effectI:
  "trading_grant en xe jx S r s op \<Longrightarrow> trading_exec op t = Some t' \<Longrightarrow> trading_effect en xe jx S r s t t'"
  by (auto simp: trading_effect_def)

lemma exchange_authed_effect:
  assumes "exchange_authed en S nxt r (s, t) = Some ((s', t'), resp)"
    and "\<And>u s1. caller_of en S r s u s1 \<Longrightarrow> nxt r u (s1, t) = Some ((s', t'), resp) \<Longrightarrow> trading_effect en xe jx S r s t t'"
  shows "trading_effect en xe jx S r s t t'"
proof (cases "rq_Header r ''X-API-Key'' = []")
  case True
  then show ?thesis using assms
    by (auto simp: exchange_authed_def caller_of_def session_of_def trading_effect_def Let_def
        split: option.splits prod.splits sum.splits)
next
  case False
  then show ?thesis using assms
    by (auto simp: exchange_authed_def apiKeyAuth_def caller_of_def trading_effect_def Let_def
        split: option.splits prod.splits sum.splits if_splits)
qed

lemma exchange_adminOnly_effect:
  assumes "exchange_adminOnly en S nxt r (s, t) = Some ((s', t'), resp)"
    and "\<And>u s1. caller_of en S r s u s1 \<Longrightarrow> us_IsAdmin u \<Longrightarrow> nxt r u (s1, t) = Some ((s', t'), resp) \<Longrightarrow> trading_effect en xe jx S r s t t'"
  shows "trading_effect en xe jx S r s t t'"
  by (rule exchange_authed_effect [OF assms(1) [unfolded exchange_adminOnly_def]])
    (use assms(2) in \<open>auto simp: trading_effect_def split: if_splits\<close>)

lemma autocommit_same:
  assumes "autocommit f db = (db', r)" "\<And>d. fst (f d) = d"
  shows "same_tables db db'"
proof -
  obtain io d where n: "next_io db = (io, d)" by fastforce
  have "fst (f d) = d" by (rule assms(2))
  then have "db' = d" using assms(1) n by (cases io) (auto simp: autocommit_def prod_eq_iff)
  with next_io_same [OF n] show ?thesis by simp
qed

lemma ledger_reads:
  "UserBalances u db = (db', r) \<Longrightarrow> same_tables db db'" "CheckInvariants db = (db', r') \<Longrightarrow> same_tables db db'"
proof -
  show "UserBalances u db = (db', r) \<Longrightarrow> same_tables db db'"
    unfolding UserBalances_def by (erule autocommit_same) simp
  have a: "autocommit (\<lambda>db. (db, Inr (f db))) d = (d', x) \<Longrightarrow> same_tables d d'" for f d d' x
    by (erule autocommit_same) simp
  show "CheckInvariants db = (db', r') \<Longrightarrow> same_tables db db'"
    unfolding CheckInvariants_def by (auto split: prod.splits sum.splits if_splits dest!: a intro: same_tables_trans)
qed

lemma on_ledger_state: "on_ledger f resp st = Some ((s', t'), x) \<Longrightarrow> s' = fst st \<and> t' = (snd st)\<lparr>td_ledger := fst (f (td_ledger (snd st)))\<rparr>"
  by (auto simp: on_ledger_def split: prod.splits)

lemma trading_answer_state:
  "trading_answer s ok res = Some ((s', t'), x) \<Longrightarrow> s' = s \<and> map_option fst res = Some t'"
  by (auto simp: trading_answer_def split: option.splits prod.splits)

lemma exchange_handler_effect:
  assumes "exchange_handler en xe jx MemJournal_Append S h r (s, t) = Some ((s', t'), resp)" "h = HDevDeposit \<longrightarrow> xe_faucet xe"
  shows "trading_effect en xe jx S r s t t'"
proof (cases h)
  case HPlaceOrder
  show ?thesis
  proof (rule exchange_authed_effect [OF assms(1) [unfolded HPlaceOrder exchange_handler.simps]])
    fix u s1 assume u: "caller_of en S r s u s1" "handlePlaceOrder xe jx MemJournal_Append r u (s1, t) = Some ((s', t'), resp)"
    show "trading_effect en xe jx S r s t t'"
    proof (cases "jx_place jx (rq_Body r)")
      case (Some x)
      obtain symbol ty sd price qty where x: "x = (symbol, ty, sd, price, qty)" by (cases x) auto
      show ?thesis
      proof (cases "parseSide sd")
        case (Some side)
        with u(2) \<open>jx_place jx (rq_Body r) = Some x\<close> x have k: "trading_answer s1 201 (PlaceOrder MemJournal_Append (xe_newID xe) (xe_race xe) (us_ID u) symbol ty side price qty t)
            = Some ((s', t'), resp)" by (simp add: handlePlaceOrder_def exchange_decode_def)
        show ?thesis
          by (rule trading_effectI [of _ _ _ _ _ _ "TPlace (xe_newID xe) (xe_race xe) (us_ID u) symbol ty side price qty"])
            (use u(1) \<open>jx_place jx (rq_Body r) = Some x\<close> x Some trading_answer_state [OF k] in auto)
      qed (use u(2) \<open>jx_place jx (rq_Body r) = Some x\<close> x in \<open>simp add: handlePlaceOrder_def exchange_decode_def trading_effect_def\<close>)
    qed (use u(2) in \<open>simp add: handlePlaceOrder_def exchange_decode_def trading_effect_def\<close>)
  qed
next
  case HCancelOrder
  show ?thesis
  proof (rule exchange_authed_effect [OF assms(1) [unfolded HCancelOrder exchange_handler.simps]])
    fix u s1 assume u: "caller_of en S r s u s1" "handleCancelOrder xe jx MemJournal_Append r u (s1, t) = Some ((s', t'), resp)"
    show "trading_effect en xe jx S r s t t'"
    proof (cases "jx_cancel jx (rq_Body r)")
      case (Some x)
      obtain symbol oid where x: "x = (symbol, oid)" by (cases x) auto
      from u(2) Some x have k: "trading_answer s1 200 (CancelOrder MemJournal_Append (xe_race xe) (us_ID u) symbol oid t) = Some ((s', t'), resp)"
        by (simp add: handleCancelOrder_def exchange_decode_def)
      show ?thesis
        by (rule trading_effectI [of _ _ _ _ _ _ "TCancel (xe_race xe) (us_ID u) symbol oid"]) (use u(1) Some x trading_answer_state [OF k] in auto)
    qed (use u(2) in \<open>simp add: handleCancelOrder_def exchange_decode_def trading_effect_def\<close>)
  qed
next
  case HHalt
  show ?thesis
  proof (rule exchange_adminOnly_effect [OF assms(1) [unfolded HHalt exchange_handler.simps]])
    fix u s1 assume u: "caller_of en S r s u s1" "us_IsAdmin u" "handleHalt jx r u (s1, t) = Some ((s', t'), resp)"
    show "trading_effect en xe jx S r s t t'"
    proof (cases "jx_symbol jx (rq_Body r)")
      case (Some symbol)
      show ?thesis by (rule trading_effectI [of _ _ _ _ _ _ "THalt symbol"])
          (use u Some in \<open>auto simp: handleHalt_def exchange_decode_def set_engine_def\<close>)
    qed (use u(3) in \<open>simp add: handleHalt_def exchange_decode_def trading_effect_def\<close>)
  qed
next
  case HResume
  show ?thesis
  proof (rule exchange_adminOnly_effect [OF assms(1) [unfolded HResume exchange_handler.simps]])
    fix u s1 assume u: "caller_of en S r s u s1" "us_IsAdmin u" "handleResume jx r u (s1, t) = Some ((s', t'), resp)"
    show "trading_effect en xe jx S r s t t'"
    proof (cases "jx_symbol jx (rq_Body r)")
      case (Some symbol)
      show ?thesis by (rule trading_effectI [of _ _ _ _ _ _ "TResume symbol"])
          (use u Some in \<open>auto simp: handleResume_def exchange_decode_def set_engine_def\<close>)
    qed (use u(3) in \<open>simp add: handleResume_def exchange_decode_def trading_effect_def\<close>)
  qed
next
  case HDevDeposit
  show ?thesis
  proof (rule exchange_authed_effect [OF assms(1) [unfolded HDevDeposit exchange_handler.simps]])
    fix u s1 assume u: "caller_of en S r s u s1" "handleDevDeposit xe jx r u (s1, t) = Some ((s', t'), resp)"
    show "trading_effect en xe jx S r s t t'"
    proof (cases "jx_deposit jx (rq_Body r) \<noteq> None \<and> xe_newID xe \<noteq> None")
      case True
      then obtain a n key where x: "jx_deposit jx (rq_Body r) = Some (a, n)" "xe_newID xe = Some key" by auto
      show ?thesis by (rule trading_effectI [of _ _ _ _ _ _ "TLedger (ODeposit (us_ID u) a n (''faucet-'' @ key))"])
          (use u x assms(2) HDevDeposit in \<open>auto simp: handleDevDeposit_def exchange_decode_def dest!: on_ledger_state\<close>)
    qed (use u(2) in \<open>auto simp: handleDevDeposit_def exchange_decode_def trading_effect_def split: option.splits prod.splits\<close>)
  qed
next
  case HBalances
  show ?thesis
    by (rule exchange_authed_effect [OF assms(1) [unfolded HBalances exchange_handler.simps]])
      (auto simp: handleBalances_def trading_effect_def tquiet_def dest!: on_ledger_state intro: ledger_reads(1) [OF prod.collapse [symmetric]])
next
  case HReconcile
  show ?thesis
    by (rule exchange_adminOnly_effect [OF assms(1) [unfolded HReconcile exchange_handler.simps]])
      (auto simp: handleReconcile_def trading_effect_def tquiet_def dest!: on_ledger_state intro: ledger_reads(2) [OF prod.collapse [symmetric]])
next
  case HOpenOrders
  show ?thesis
    by (rule exchange_authed_effect [OF assms(1) [unfolded HOpenOrders exchange_handler.simps]])
      (auto simp: handleOpenOrders_def trading_effect_def)
qed (use assms(1) in \<open>auto simp: handleSymbols_def handleDepth_def handleTrades_def Let_def trading_effect_def
      split: if_splits option.splits sum.splits prod.splits\<close>)

lemma HDevDeposit_route: "mux_route (exchange_routes f) m p = Found HDevDeposit \<Longrightarrow> f"
  by (auto simp: mux_route_def exchange_routes_def find_Some_iff nth_append nth_Cons split: option.splits if_splits nat.splits)

lemma exchange_ServeHTTP_effect:
  "exchange_ServeHTTP en xe jx MemJournal_Append S r (s, t) = Some ((s', t'), resp) \<Longrightarrow> trading_effect en xe jx S r s t t'"
  by (auto simp: exchange_ServeHTTP_def trading_effect_def split: routed.splits dest!: exchange_handler_effect [unfolded trading_effect_def]
      dest: HDevDeposit_route)

end
