(* ===== verification/App.thy ===== *)
theory App
  imports HttpAuthority AccountHTTP
begin

text \<open>
  The composed backend: the route tree of \<open>app/app.go\<close> and what \<open>cmd/exchange/main.go\<close> does at boot, over the
  account store, the wallet and the trading coordinator.
\<close>

section \<open>The composed backend\<close>

text \<open>
  \<open>NewMux\<close> mounts the three services. They share the account store and one database: the tables of
  the ledger are kept in \<open>ap_trading\<close> and lent to the wallet while it serves a request.
\<close>

datatype service = AccountAPI | WalletAPI | ExchangeAPI

definition app_routes :: "(string \<times> service) list" where
  "app_routes = [(''/v1/signup'', AccountAPI), (''/v1/login'', AccountAPI), (''/v1/me'', AccountAPI), (''/v1/2fa/'', AccountAPI),
     (''/v1/apikeys'', AccountAPI), (''/v1/wallet/'', WalletAPI), (''/v1/admin/withdrawals'', WalletAPI),
     (''/v1/admin/withdrawals/approve'', WalletAPI), (''/v1/admin/withdrawals/reject'', WalletAPI), (''/'', ExchangeAPI)]"

record ('s, 'c, 'j) app =
  ap_accounts :: 's
  ap_wallet :: "'c wallet"
  ap_trading :: "'j Trading"

record app_json =
  aj_account :: account_json
  aj_wallet :: wallet_json
  aj_exchange :: exchange_json

text \<open>A request with the environment it is served in.\<close>

record 'c app_call =
  ca_account :: account_env
  ca_wallet :: "'c wallet_env"
  ca_exchange :: exchange_env
  ca_request :: http_request

datatype app_body = BAccount account_body | BWallet wallet_body | BExchange exchange_body | BRedirect string

definition shared_wallet :: "('s, 'c, 'j) app \<Rightarrow> 'c wallet" where
  "shared_wallet a = (ap_wallet a)\<lparr>wl_db := td_ledger (ap_trading a)\<rparr>"

definition store_wallet :: "'c wallet \<Rightarrow> ('s, 'c, 'j) app \<Rightarrow> ('s, 'c, 'j) app" where
  "store_wallet w a = a\<lparr>ap_wallet := w, ap_trading := (ap_trading a)\<lparr>td_ledger := wl_db w\<rparr>\<rparr>"

definition NewMux :: "app_json \<Rightarrow> (Command \<Rightarrow> 'j \<Rightarrow> 'j \<times> (string + uint64)) \<Rightarrow> 's Store \<Rightarrow> 'c app_call \<Rightarrow> ('s, 'c, 'j) app \<Rightarrow>
    (('s, 'c, 'j) app \<times> app_body response) option" where
  "NewMux aj app_j S c a =
     (case mux_dispatch app_routes (rq_Path (ca_request c)) of
        To AccountAPI \<Rightarrow>
          (case account_ServeHTTP (ca_account c) (aj_account aj) S (ca_request c) (ap_accounts a) of
             (s, status, b) \<Rightarrow> Some (a\<lparr>ap_accounts := s\<rparr>, status, BAccount b))
      | To WalletAPI \<Rightarrow>
          (case wallet_ServeHTTP (ca_account c) (ca_wallet c) (aj_wallet aj) S (ca_request c) (ap_accounts a, shared_wallet a) of
             ((s, w), status, b) \<Rightarrow> Some (store_wallet w (a\<lparr>ap_accounts := s\<rparr>), status, BWallet b))
      | To ExchangeAPI \<Rightarrow>
          (case exchange_ServeHTTP (ca_account c) (ca_exchange c) (aj_exchange aj) app_j S (ca_request c) (ap_accounts a, ap_trading a) of
             None \<Rightarrow> None
           | Some ((s, t), status, b) \<Rightarrow> Some (a\<lparr>ap_accounts := s, ap_trading := t\<rparr>, status, BExchange b))
      | RedirectTo p \<Rightarrow> Some (a, 301, BRedirect p)
      | NoHandler \<Rightarrow> Some (a, 404, BRedirect []))"

text \<open>
  \<open>main\<close> promotes the bootstrap administrator, an existing user, and recovers the engine from its
  journal; the database and the custody provider outlive the process.
  A failing update of the administrator is only logged and has the effect of an empty email. A journal that cannot be
  replayed stops it.
\<close>

definition bootstrap_admin :: "(string \<Rightarrow> string) \<Rightarrow> string \<Rightarrow> MemStore \<Rightarrow> MemStore" where
  "bootstrap_admin lower email m =
     (if email = [] then m
      else (case ms_byEmail m (lower email) of None \<Rightarrow> m | Some uid \<Rightarrow> fst (MemStore_SetAdmin uid m)))"

definition app_main :: "string list \<Rightarrow> (string \<Rightarrow> string) \<Rightarrow> string \<Rightarrow> (MemStore, 'c, MemJournal) app \<Rightarrow> (MemStore, 'c, MemJournal) app option" where
  "app_main syms lower email a =
     (let j = snd (td_eng (ap_trading a))
      in case New_engine syms (MemJournal_Replay j) of
           Some (Inr e) \<Rightarrow> Some (a\<lparr>ap_accounts := bootstrap_admin lower email (ap_accounts a),
                                 ap_trading := NewTrading j e (td_ledger (ap_trading a))\<rparr>)
         | Some (Inl _) \<Rightarrow> None
         | None \<Rightarrow> None)"

text \<open>What happens to the backend: a request is served, or the process is restarted by its operator.\<close>

datatype 'c app_event = Serve "'c app_call" | Restart "string \<Rightarrow> string" string

fun app_step :: "string list \<Rightarrow> app_json \<Rightarrow> 'c app_event \<Rightarrow> (MemStore, 'c, MemJournal) app \<Rightarrow> (MemStore, 'c, MemJournal) app option" where
  "app_step syms aj (Serve c) a = map_option fst (NewMux aj MemJournal_Append mem c a)"
| "app_step syms aj (Restart lower email) a = app_main syms lower email a"

fun app_run :: "string list \<Rightarrow> app_json \<Rightarrow> 'c app_event list \<Rightarrow> (MemStore, 'c, MemJournal) app \<Rightarrow> (MemStore, 'c, MemJournal) app option" where
  "app_run syms aj [] a = Some a"
| "app_run syms aj (x # xs) a = Option.bind (app_step syms aj x a) (app_run syms aj xs)"

definition New_app :: "string list \<Rightarrow> ledger_db \<Rightarrow> string option list \<Rightarrow> int64 \<Rightarrow> (MemStore, Mock, MemJournal) app" where
  "New_app syms db rnd limit = \<lparr>ap_accounts = NewMemStore, ap_wallet = New_wallet db (NewMock rnd) limit,
     ap_trading = NewTrading \<lparr>mj_cmds = []\<rparr> (empty_engine syms) db\<rparr>"

end
