(* ===== verification/AppStore.thy ===== *)
theory AppStore
  imports App
begin

text \<open>
  What serving requests keeps of the account store, over the contract \<open>store_kept\<close>.
\<close>

section \<open>The account store under requests\<close>

lemma RequireTOTP_state: "fst (RequireTOTP prm mem now uid code m) = m"
  by (simp add: RequireTOTP_def andThen_def mem_def MemStore_UserByID_def split: option.split)

lemma VerifyAPIRequest_state: "fst (VerifyAPIRequest prm mem ck now kid sig ts method path body m) = m"
  by (simp add: VerifyAPIRequest_def mem_def MemStore_APIKeyByID_def MemStore_UserByID_def split: option.split sum.split)

lemma ListAPIKeys_state: "fst (ListAPIKeys mem uid m) = m"
  by (simp add: ListAPIKeys_def andThen_def mem_def MemStore_APIKeysByUser_def)

lemma account_answer_state [simp]: "fst (account_answer res ok) = fst res"
  by (auto simp: account_answer_def split: prod.split sum.split)

lemma exchange_next_store:
  "handlePlaceOrder xe jx app_j r u (m1, t) = Some ((m', t'), resp) \<Longrightarrow> m' = m1"
  "handleCancelOrder xe jx app_j r u (m1, t) = Some ((m', t'), resp) \<Longrightarrow> m' = m1"
  "handleOpenOrders xe r u (m1, t) = Some ((m', t'), resp) \<Longrightarrow> m' = m1"
  "handleBalances r u (m1, t) = Some ((m', t'), resp) \<Longrightarrow> m' = m1"
  "handleReconcile r u (m1, t) = Some ((m', t'), resp) \<Longrightarrow> m' = m1"
  "handleHalt jx r u (m1, t) = Some ((m', t'), resp) \<Longrightarrow> m' = m1"
  "handleResume jx r u (m1, t) = Some ((m', t'), resp) \<Longrightarrow> m' = m1"
  "handleDevDeposit xe jx r u (m1, t) = Some ((m', t'), resp) \<Longrightarrow> m' = m1"
  by (auto simp: handlePlaceOrder_def handleCancelOrder_def handleOpenOrders_def handleBalances_def handleReconcile_def handleHalt_def
      handleResume_def handleDevDeposit_def exchange_decode_def split: option.splits prod.splits
      dest!: trading_answer_state on_ledger_state)

lemma stepUp_store: "stepUp en mem u code (on_wallet f bad good) (m1, w) = ((m', w'), resp) \<Longrightarrow> m' = m1"
  using RequireTOTP_state [of "en_prm en" "en_now2 en" "us_ID u" code m1]
  by (auto simp: stepUp_def split: prod.splits sum.splits dest!: on_wallet_state)

lemma wallet_next_store:
  "handleAddress we r u (m1, w) = ((m', w'), resp) \<Longrightarrow> m' = m1"
  "handleListAllowlist r u (m1, w) = ((m', w'), resp) \<Longrightarrow> m' = m1"
  "handleAllowlist en jw mem r u (m2, w) = ((m2', w'), resp) \<Longrightarrow> m2' = m2"
  "handleWithdraw en jw mem r u (m2, w) = ((m2', w'), resp) \<Longrightarrow> m2' = m2"
  "handleUserWithdrawals r u (m1, w) = ((m', w'), resp) \<Longrightarrow> m' = m1"
  "handlePending r u (m1, w) = ((m', w'), resp) \<Longrightarrow> m' = m1"
  "handleApprove we jw r u (m1, w) = ((m', w'), resp) \<Longrightarrow> m' = m1"
  "handleReject jw r u (m1, w) = ((m', w'), resp) \<Longrightarrow> m' = m1"
  "handleDepositWebhook we jw r (m1, w) = ((m', w'), resp) \<Longrightarrow> m' = m1"
  by (auto simp: handleAddress_def handleListAllowlist_def handleAllowlist_def handleWithdraw_def handleUserWithdrawals_def handlePending_def
      handleApprove_def handleReject_def decide_def handleDepositWebhook_def wallet_decode_def Let_def split: option.splits prod.splits if_splits
      dest!: on_wallet_state stepUp_store)

lemma VerifyAPIRequest_user:
  assumes "VerifyAPIRequest prm mem ck now kid sig ts method path body m = (m1, Inr u)"
  shows "m1 = m \<and> (\<exists>i. ms_users m i = Some u)"
  using assms unfolding VerifyAPIRequest_def mem_def MemStore_APIKeyByID_def MemStore_UserByID_def
  by (simp split: option.splits sum.splits if_splits) blast

lemma session_user:
  assumes "session_of en mem r m u m1" "mem_inv m"
  shows "ms_users m (us_ID u) = Some u"
proof -
  obtain token where a: "Authenticate (en_prm en) mem (en_now en) token m = (m1, Inr u)" using assms(1) by (auto simp: session_of_def)
  from mem.Authenticate_result [OF assms(2), of "en_prm en" "en_now en" token] a obtain i where "ms_users m i = Some u"
    by (auto split: option.splits if_splits)
  then show ?thesis using mem_invD(1) [OF assms(2)] by metis
qed

lemma caller_verified:
  assumes "caller_of en mem r m u m1" "rq_Header r ''X-API-Key'' \<noteq> []"
  shows "m1 = m \<and> (\<exists>i. ms_users m i = Some u)"
  using assms VerifyAPIRequest_user by (auto simp: caller_of_def)

lemma caller_user:
  assumes "caller_of en mem r m u m1" "mem_inv m"
  shows "ms_users m (us_ID u) = Some u"
proof (cases "rq_Header r ''X-API-Key'' = []")
  case True
  then show ?thesis using assms session_user by (simp add: caller_of_def)
next
  case False
  from caller_verified [OF assms(1) False] mem_invD(1) [OF assms(2)] show ?thesis by metis
qed

context store_kept
begin

lemma account_decode_kept: "P m \<Longrightarrow> (\<And>x. Q (fst (k x m))) \<Longrightarrow> Q (fst (account_decode js r k m))"
  using weaken by (simp add: account_decode_def split: option.split)

lemma account_authed_kept:
  assumes "P m" "\<And>u m1. P m1 \<Longrightarrow> Q (fst (nxt r u m1))"
  shows "Q (fst (account_authed en mem nxt r m))"
proof (cases "bearer_token r")
  case (Some token)
  obtain m1 x where a: "Authenticate (en_prm en) mem (en_now en) token m = (m1, x)" by fastforce
  have "P m1" using Authenticate_kept [OF assms(1), of "en_prm en" "en_now en" token] by (simp add: a)
  then show ?thesis using assms(2) weaken by (auto simp: account_authed_def Some a split: sum.split)
qed (use assms weaken in \<open>simp add: account_authed_def\<close>)

lemma account_ServeHTTP_kept:
  assumes m: "P m"
  shows "Q (fst (account_ServeHTTP en js mem r m))"
proof -
  note ex = account_exec_kept [of _ _ "en_prm en" "en_text en" "en_cipher en"]
  have "Q (fst (account_handler en js mem h r m))" for h
  proof (cases h)
    case HSignup
    then show ?thesis using ex [OF m, of "ASignup (en_rand en) _ _"]
      by (auto simp: handleSignup_def split: prod.split intro!: account_decode_kept m)
  next
    case HLogin
    then show ?thesis using ex [OF m, of "ALogin (en_now en) (en_now2 en) (en_rand en) _ _ _"]
      by (auto simp: handleLogin_def split: prod.split intro!: account_decode_kept m)
  next
    case H2FASetup
    then show ?thesis using ex [of _ "ASetupTOTP (en_rand en) _"] by (auto simp: handle2FASetup_def intro!: account_authed_kept [OF m])
  next
    case H2FAConfirm
    then show ?thesis using ex [of _ "AConfirmTOTP (en_now2 en) _ _"] 
      by (auto simp: handle2FAConfirm_def intro!: account_authed_kept [OF m] account_decode_kept)
  next
    case HCreateAPIKey
    then show ?thesis using ex [of _ "ACreateKey (en_rand en) (en_rand2 en) _ _"] 
      by (auto simp: handleCreateAPIKey_def intro!: account_authed_kept [OF m] account_decode_kept)
  next
    case HListAPIKeys
    then show ?thesis by (auto simp: handleListAPIKeys_def ListAPIKeys_state weaken intro!: account_authed_kept [OF m])
  next
    case HMe
    then show ?thesis by (auto simp: handleMe_def weaken intro!: account_authed_kept [OF m])
  qed (use m weaken in simp)
  then show ?thesis using m weaken by (simp add: account_ServeHTTP_def split: routed.split)
qed

lemma exchange_authed_store:
  assumes "exchange_authed en mem nxt r (m, t) = Some ((m', t'), resp)" "P m"
    and "\<And>u m1. nxt r u (m1, t) = Some ((m', t'), resp) \<Longrightarrow> m' = m1"
  shows "P m'"
proof (cases "rq_Header r ''X-API-Key'' = []")
  case True
  show ?thesis
  proof (cases "bearer_token r")
    case (Some token)
    obtain m1 x where a: "Authenticate (en_prm en) mem (en_now en) token m = (m1, x)" by fastforce
    have "P m1" using Authenticate_kept [OF assms(2), of "en_prm en" "en_now en" token] by (simp add: a)
    then show ?thesis using assms(1,3) True Some a by (auto simp: exchange_authed_def Let_def split: sum.splits)
  qed (use assms True in \<open>auto simp: exchange_authed_def Let_def\<close>)
next
  case False
  then have a: "apiKeyAuth en mem (rq_Header r ''X-API-Key'') nxt r (m, t) = Some ((m', t'), resp)"
    using assms(1) by (simp add: exchange_authed_def Let_def)
  have v: "m1 = m" if "VerifyAPIRequest prm mem ck now kid sig ts mth pth body m = (m1, x)" for prm ck now kid sig ts mth pth body m1 x
    using VerifyAPIRequest_state [of prm ck now kid sig ts mth pth body m] that by simp
  show ?thesis using a assms(2,3)
    by (auto simp: apiKeyAuth_def split: option.splits if_splits prod.splits sum.splits dest!: v)
qed

lemma exchange_adminOnly_store:
  assumes "exchange_adminOnly en mem nxt r (m, t) = Some ((m', t'), resp)" "P m"
    and "\<And>u m1. nxt r u (m1, t) = Some ((m', t'), resp) \<Longrightarrow> m' = m1"
  shows "P m'"
  by (rule exchange_authed_store [OF assms(1) [unfolded exchange_adminOnly_def] assms(2)]) (use assms(3) in \<open>auto split: if_splits\<close>)

lemma exchange_ServeHTTP_kept:
  assumes "exchange_ServeHTTP en xe jx app_j mem r (m, t) = Some ((m', t'), resp)" "P m"
  shows "P m'"
proof (cases "mux_route (exchange_routes (xe_faucet xe)) (rq_Method r) (rq_Path r)")
  case (Found h)
  then have h: "exchange_handler en xe jx app_j mem h r (m, t) = Some ((m', t'), resp)"
    using assms(1) by (simp add: exchange_ServeHTTP_def)
  show ?thesis
    using h assms(2)
  proof (cases h)
    case HSymbols
    with h assms(2) show ?thesis by (simp add: handleSymbols_def Let_def)
  next
    case HDepth
    with h assms(2) show ?thesis by (simp add: handleDepth_def Let_def split: option.splits sum.splits prod.splits)
  next
    case HTrades
    with h assms(2) show ?thesis by (simp add: handleTrades_def)
  next
    case HWS
    with h assms(2) show ?thesis by (simp split: if_splits)
  qed (simp_all only: exchange_handler.simps, (erule exchange_authed_store exchange_adminOnly_store, assumption, erule exchange_next_store)+)
qed (use assms in \<open>auto simp: exchange_ServeHTTP_def\<close>)

lemma wallet_authed_store:
  assumes "wallet_authed en mem nxt r (m, w) = ((m', w'), resp)" "P m"
    and "\<And>u m1. nxt r u (m1, w) = ((m', w'), resp) \<Longrightarrow> m' = m1"
  shows "P m'"
proof -
  obtain m1 x where a: "wallet_user en mem r m = (m1, x)" by fastforce
  have "P m1"
    using Authenticate_kept [OF assms(2)] a assms(2)
    by (auto simp: wallet_user_def split: option.splits prod.splits sum.splits) (metis fst_conv)+
  with assms(1,3) a show ?thesis by (auto simp: wallet_authed_def split: sum.splits)
qed

lemma wallet_adminOnly_store:
  assumes "wallet_adminOnly en mem nxt r (m, w) = ((m', w'), resp)" "P m"
    and "\<And>u m1. nxt r u (m1, w) = ((m', w'), resp) \<Longrightarrow> m' = m1"
  shows "P m'"
proof -
  have "wallet_authed en mem (\<lambda>r u sw. if \<not> us_IsAdmin u then (sw, 403, WBErr ''admin only'') else nxt r u sw) r (m, w) = ((m', w'), resp)"
    using assms(1) by (simp add: wallet_adminOnly_def wallet_authed_def split: prod.splits sum.splits)
  then show ?thesis by (rule wallet_authed_store [OF _ assms(2)]) (use assms(3) in \<open>auto split: if_splits\<close>)
qed

lemma wallet_ServeHTTP_kept:
  assumes "wallet_ServeHTTP en we jw mem r (m, w) = ((m', w'), resp)" "P m"
  shows "P m'"
proof (cases "mux_route wallet_routes (rq_Method r) (rq_Path r)")
  case (Found h)
  then have h: "wallet_handler en we jw mem h r (m, w) = ((m', w'), resp)" using assms(1) by (simp add: wallet_ServeHTTP_def)
  show ?thesis
    using h assms(2)
  proof (cases h)
    case HDepositWebhook
    with h assms(2) show ?thesis using wallet_next_store(9) by (metis wallet_handler.simps(9))
  qed (simp_all only: wallet_handler.simps, (erule wallet_authed_store wallet_adminOnly_store, assumption, erule wallet_next_store)+)
qed (use assms in \<open>auto simp: wallet_ServeHTTP_def\<close>)

end

end
