(* ===== verification/AppInv.thy ===== *)
theory AppInv
  imports AppStore
begin

text \<open>
  The invariant of the composed backend: every request is answered and keeps it, and so does a restart.
\<close>

section \<open>Every request is safe\<close>

text \<open>Decoding into a field of type \<open>int64\<close> fails for a number outside its range.\<close>

definition json_ok :: "app_json \<Rightarrow> bool" where
  "json_ok aj \<longleftrightarrow> (\<forall>b symbol ty sd p q. jx_place (aj_exchange aj) b = Some (symbol, ty, sd, p, q) \<longrightarrow> in_int64 p \<and> in_int64 q)
     \<and> (\<forall>b a n. jx_deposit (aj_exchange aj) b = Some (a, n) \<longrightarrow> in_int64 n)
     \<and> (\<forall>b a d n code. jw_withdraw (aj_wallet aj) b = Some (a, d, n, code) \<longrightarrow> in_int64 n)
     \<and> (\<forall>b a d tx n k. jw_deposit (aj_wallet aj) b = Some (a, d, tx, n, k) \<longrightarrow> in_int64 n)"

lemma json_okD:
  assumes "json_ok aj"
  shows "jx_place (aj_exchange aj) b = Some (symbol, ty, sd, p, q) \<Longrightarrow> in_int64 p \<and> in_int64 q"
    "jx_deposit (aj_exchange aj) b = Some (a, n) \<Longrightarrow> in_int64 n"
    "jw_withdraw (aj_wallet aj) b = Some (a, d, n, code) \<Longrightarrow> in_int64 n"
    "jw_deposit (aj_wallet aj) b = Some (a, d, t, n, k) \<Longrightarrow> in_int64 n"
  using assms unfolding json_ok_def by blast+

lemma caller_ok: "caller_of en mem r m u m1 \<Longrightarrow> mem_upto n m \<Longrightarrow> in_int64 (us_ID u)"
  using caller_user mem_invD(5) by (auto simp: mem_upto_def)

lemma trading_grant_ok:
  assumes "trading_grant en xe (aj_exchange aj) mem r m op" "json_ok aj" "mem_upto n m"
  shows "trading_op_ok op"
  using assms(1) by (cases op) (auto dest!: caller_ok [OF _ assms(3)] json_okD [OF assms(2)])

lemma wallet_grant_ok:
  assumes "wallet_grant en we (aj_wallet aj) S r m op" "json_ok aj"
  shows "wallet_op_ok op"
  using assms(1) by (cases op) (auto dest!: json_okD [OF assms(2)])

lemma trading_exec_grows: "trading_exec op t = Some t' \<Longrightarrow> tgrows t t'"
proof (cases op)
  case (TPlace nid race u symbol ty side price qty)
  then show "trading_exec op t = Some t' \<Longrightarrow> tgrows t t'" by (auto dest: PlaceOrder_grows)
next
  case (TCancel race u symbol oid)
  then show "trading_exec op t = Some t' \<Longrightarrow> tgrows t t'" by (auto dest: CancelOrder_grows)
next
  case (TLedger x)
  then show "trading_exec op t = Some t' \<Longrightarrow> tgrows t t'"
    using ledger_exec_grows [of x "td_ledger t", OF prod.collapse [symmetric]] by (auto simp: tgrows_def)
qed (auto simp: tgrows_def)

lemma trading_effect_inv:
  assumes "trading_effect en xe (aj_exchange aj) mem r m t t'" "json_ok aj" "mem_upto n m" "trading_inv syms t"
  shows "trading_inv syms t' \<and> tgrows t t'"
  using assms(1) unfolding trading_effect_def
proof (elim disjE exE conjE)
  assume "tquiet t t'"
  then obtain db where "same_tables (td_ledger t) db" "t' = t\<lparr>td_ledger := db\<rparr>" by (auto simp: tquiet_def)
  with assms(4) same_tables_inv(2) [of "td_ledger t" db] same_tables_facts(2) [of "td_ledger t" db] show ?thesis
    by (auto simp: trading_inv_def tgrows_def)
next
  fix op assume op: "trading_exec op t = Some t'" "trading_grant en xe (aj_exchange aj) mem r m op"
  from trading_exec_inv [OF assms(4) trading_grant_ok [OF op(2) assms(2,3)]] op(1) trading_exec_grows [OF op(1)] show ?thesis by auto
qed

lemma http_effect_inv:
  assumes "http_effect en we (aj_wallet aj) S r m w w'" "json_ok aj" "we_newAddress we = Mock_NewAddress" "we_withdraw we = Mock_Withdraw"
    and "wallet_inv mock_keys mock_outgoing w"
  shows "wallet_inv mock_keys mock_outgoing w'"
  using assms(1) unfolding http_effect_def
proof (elim disjE exE conjE)
  assume "quiet w w'"
  then show ?thesis using wallet_inv_same [OF assms(5)] by (auto simp: quiet_def)
next
  fix op assume "w' = wallet_exec (we_newAddress we) (we_withdraw we) op w" "wallet_grant en we (aj_wallet aj) S r m op"
  with mock.wallet_exec_inv [OF assms(5) wallet_grant_ok [OF _ assms(2)]] assms(3,4) show ?thesis by simp
qed

section \<open>No request panics\<close>

lemma OpenOrders_total: "engine_inv e \<Longrightarrow> \<exists>rows. OpenOrders u ids e = Some rows"
proof (induction ids)
  case (Cons k ids)
  then show ?case
    by (auto simp: engine_inv_def split: option.split) (metis not_None_eq)
qed simp

lemma Depth_engine_total: "engine_inv e \<Longrightarrow> \<exists>x. Depth_engine symbol levels e = Some x"
  using Depth_refines engine_invD(1) by (fastforce simp: Depth_engine_def split: option.split)

lemma exchange_authed_total:
  assumes "\<And>u s1. caller_of en S r s u s1 \<Longrightarrow> nxt r u (s1, t) \<noteq> None"
  shows "exchange_authed en S nxt r (s, t) \<noteq> None"
proof (cases "rq_Header r ''X-API-Key'' = []")
  case True
  then show ?thesis using assms
    by (auto simp: exchange_authed_def caller_of_def session_of_def Let_def split: option.splits prod.splits sum.splits)
next
  case False
  then show ?thesis using assms
    by (auto simp: exchange_authed_def apiKeyAuth_def caller_of_def Let_def split: option.splits prod.splits sum.splits if_splits)
qed

lemma exchange_adminOnly_total:
  "(\<And>u s1. nxt r u (s1, t) \<noteq> None) \<Longrightarrow> exchange_adminOnly en S nxt r (s, t) \<noteq> None"
  unfolding exchange_adminOnly_def by (rule exchange_authed_total) auto

lemma trading_answer_total: "trading_answer s ok (Some x) \<noteq> None"
  by (auto simp: trading_answer_def split: prod.splits option.splits)

lemma exchange_total:
  assumes "trading_inv syms t" "mem_upto n m" "json_ok aj"
  shows "exchange_ServeHTTP en xe (aj_exchange aj) MemJournal_Append mem r (m, t) \<noteq> None"
proof -
  have e: "engine_inv (fst (td_eng t))" using assms(1) by (auto simp: trading_inv_def mj.synced_def split: prod.splits)
  have place: "handlePlaceOrder xe (aj_exchange aj) MemJournal_Append r u (m1, t) \<noteq> None" if "caller_of en mem r m u m1" for u m1
  proof -
    have "trading_answer m1 201 (PlaceOrder MemJournal_Append (xe_newID xe) (xe_race xe) (us_ID u) symbol ty side price qty t) \<noteq> None"
      if "in_int64 price \<and> in_int64 qty" for symbol ty side price qty
      using PlaceOrder_safe [OF assms(1), of "us_ID u" price qty "xe_newID xe" "xe_race xe" symbol ty side] that
        caller_ok [OF \<open>caller_of en mem r m u m1\<close> assms(2)] trading_answer_total by metis
    with json_okD(1) [OF assms(3)] show ?thesis
      by (auto simp: handlePlaceOrder_def exchange_decode_def split: option.splits)
  qed
  have cancel: "handleCancelOrder xe (aj_exchange aj) MemJournal_Append r u (m1, t) \<noteq> None" if "caller_of en mem r m u m1" for u m1
  proof -
    have "trading_answer m1 200 (CancelOrder MemJournal_Append (xe_race xe) (us_ID u) symbol oid t) \<noteq> None" for symbol oid
      using CancelOrder_safe [OF assms(1), of "us_ID u" "xe_race xe" symbol oid] caller_ok [OF that assms(2)] trading_answer_total by metis
    then show ?thesis by (auto simp: handleCancelOrder_def exchange_decode_def split: option.splits)
  qed
  have orders: "handleOpenOrders xe r u (m1, t) \<noteq> None" for u and m1 :: MemStore
    using OpenOrders_total [OF e, of "us_ID u" "xe_ids xe"] by (auto simp: handleOpenOrders_def)
  have ledger: "on_ledger f resp (m1, t) \<noteq> None" for f :: "ledger_db \<Rightarrow> ledger_db \<times> (ledger_error + unit)" and resp and m1 :: MemStore
    by (simp add: on_ledger_def split: prod.split)
  have "exchange_handler en xe (aj_exchange aj) MemJournal_Append mem h r (m, t) \<noteq> None" for h
  proof (cases h)
    case HDepth
    have "handleDepth r (m, t) \<noteq> None"
    proof -
      obtain x where "Depth_engine (rq_Query r ''symbol'') (if Atoi_ignoring_error (rq_Query r ''levels'') \<le> 0 \<or> Atoi_ignoring_error (rq_Query r ''levels'') > 500
          then 20 else Atoi_ignoring_error (rq_Query r ''levels'')) (fst (td_eng t)) = Some x" using Depth_engine_total [OF e] by blast
      then show ?thesis by (auto simp: handleDepth_def Let_def split: sum.split prod.split)
    qed
    then show ?thesis by (simp add: HDepth)
  qed (auto simp: handleSymbols_def handleTrades_def handleBalances_def handleReconcile_def handleHalt_def handleResume_def handleDevDeposit_def
      exchange_decode_def on_ledger_def Let_def split: option.splits prod.splits
      simp del: not_None_eq intro!: exchange_authed_total exchange_adminOnly_total place cancel orders)
  then show ?thesis by (simp add: exchange_ServeHTTP_def split: routed.split)
qed

section \<open>Runs of the backend\<close>

definition app_inv :: "string list \<Rightarrow> nat \<Rightarrow> (MemStore, Mock, MemJournal) app \<Rightarrow> bool" where
  "app_inv syms n a \<longleftrightarrow> mem_upto n (ap_accounts a) \<and> trading_inv syms (ap_trading a) \<and> wallet_inv mock_keys mock_outgoing (shared_wallet a)"

definition mock_call :: "Mock app_call \<Rightarrow> bool" where
  "mock_call c \<longleftrightarrow> we_newAddress (ca_wallet c) = Mock_NewAddress \<and> we_withdraw (ca_wallet c) = Mock_Withdraw"

lemma NewMux_inv:
  assumes inv: "app_inv syms n a" and n: "int n < max_int64" and ok: "json_ok aj" "mock_call c"
  shows "\<exists>a' resp. NewMux aj MemJournal_Append mem c a = Some (a', resp) \<and> app_inv syms (Suc n) a'"
proof -
  note i = inv [unfolded app_inv_def]
  have same: "app_inv syms (Suc n) a" using i mem_upto_mono [of n] by (simp add: app_inv_def)
  let ?r = "ca_request c" and ?en = "ca_account c"
  show ?thesis
  proof (cases "mux_dispatch app_routes (rq_Path ?r)")
    case (To srv)
    show ?thesis
    proof (cases srv)
      case AccountAPI
      obtain s st b where r: "account_ServeHTTP ?en (aj_account aj) mem ?r (ap_accounts a) = (s, st, b)" by (cases rule: prod_cases3)
      have "mem_upto (Suc n) s" using up.account_ServeHTTP_kept [of n "ap_accounts a" ?en "aj_account aj" ?r] i n by (simp add: r)
      then have "app_inv syms (Suc n) (a\<lparr>ap_accounts := s\<rparr>)" using i by (simp add: app_inv_def shared_wallet_def)
      then show ?thesis by (simp add: NewMux_def To AccountAPI r)
    next
      case WalletAPI
      obtain s w st b where r: "wallet_ServeHTTP ?en (ca_wallet c) (aj_wallet aj) mem ?r (ap_accounts a, shared_wallet a) = ((s, w), st, b)"
        by (metis surj_pair)
      have "wallet_inv mock_keys mock_outgoing w"
        by (rule http_effect_inv [OF wallet_ServeHTTP_effect [OF r] ok(1)]) (use ok(2) i in \<open>simp_all add: mock_call_def\<close>)
      moreover from this have "ledger_inv (wl_db w)" by (simp add: wallet_inv_def)
      moreover have "mem_upto n s" using up.wallet_ServeHTTP_kept [OF r] i n by blast
      ultimately have "app_inv syms (Suc n) (store_wallet w (a\<lparr>ap_accounts := s\<rparr>))"
        using i mem_upto_mono [of n] by (simp add: app_inv_def store_wallet_def shared_wallet_def trading_inv_def)
      then show ?thesis by (simp add: NewMux_def To WalletAPI r)
    next
      case ExchangeAPI
      obtain s t st b where r: "exchange_ServeHTTP ?en (ca_exchange c) (aj_exchange aj) MemJournal_Append mem ?r (ap_accounts a, ap_trading a) = Some ((s, t), st, b)"
        using exchange_total [of syms "ap_trading a" n "ap_accounts a" aj ?en "ca_exchange c" ?r] i ok(1) by (metis option.exhaust surj_pair)
      have t: "trading_inv syms t" "tgrows (ap_trading a) t"
        using trading_effect_inv [OF exchange_ServeHTTP_effect [OF r] ok(1)] i by blast+
      have "mem_upto n s" using up.exchange_ServeHTTP_kept [OF r] i n by blast
      moreover have "wallet_inv mock_keys mock_outgoing ((shared_wallet a)\<lparr>wl_db := td_ledger t\<rparr>)"
        using i t by (intro wallet_inv_db) (simp_all add: trading_inv_def tgrows_def shared_wallet_def)
      ultimately have "app_inv syms (Suc n) (a\<lparr>ap_accounts := s, ap_trading := t\<rparr>)"
        using t mem_upto_mono [of n] by (simp add: app_inv_def shared_wallet_def)
      then show ?thesis by (simp add: NewMux_def To ExchangeAPI r)
    qed
  qed (use same in \<open>simp_all add: NewMux_def\<close>)
qed

lemma bootstrap_upto: "mem_upto n m \<Longrightarrow> mem_upto n (bootstrap_admin lower email m)"
  using SetAdmin_upto by (simp add: bootstrap_admin_def split: option.split)

lemma app_main_eq:
  assumes "trading_inv syms (ap_trading a)"
  shows "app_main syms lower email a = Some (a\<lparr>ap_accounts := bootstrap_admin lower email (ap_accounts a),
    ap_trading := NewTrading (snd (td_eng (ap_trading a))) ((fst (td_eng (ap_trading a)))\<lparr>eg_halted := Map.empty\<rparr>) (td_ledger (ap_trading a))\<rparr>)"
proof -
  have "New_engine syms (MemJournal_Replay (snd (td_eng (ap_trading a)))) = Some (Inr ((fst (td_eng (ap_trading a)))\<lparr>eg_halted := Map.empty\<rparr>))"
    using assms by (auto simp: trading_inv_def mj.synced_def New_engine_def mj.replay_log split: prod.splits)
  then show ?thesis by (simp add: app_main_def)
qed

lemma app_main_inv:
  assumes "app_inv syms n a" "app_main syms lower email a = Some a'"
  shows "app_inv syms n a'"
proof -
  have "trading_inv syms (NewTrading (snd (td_eng (ap_trading a))) ((fst (td_eng (ap_trading a)))\<lparr>eg_halted := Map.empty\<rparr>) (td_ledger (ap_trading a)))"
    using assms(1) by (auto simp: app_inv_def trading_inv_def NewTrading_def mj.synced_def split: prod.splits)
  then show ?thesis using assms app_main_eq [of syms a lower email]
    by (auto simp: app_inv_def bootstrap_upto shared_wallet_def NewTrading_def)
qed

fun mock_event :: "Mock app_event \<Rightarrow> bool" where
  "mock_event (Serve c) = mock_call c"
| "mock_event (Restart lower email) = True"

lemma app_step_inv:
  assumes "app_inv syms n a" "int n < max_int64" "json_ok aj" "mock_event x"
  shows "\<exists>a'. app_step syms aj x a = Some a' \<and> app_inv syms (Suc n) a'"
proof (cases x)
  case (Serve c)
  then show ?thesis using NewMux_inv [OF assms(1-3), of c] assms(4) by auto
next
  case (Restart lower email)
  have "app_inv syms (Suc n) b" if "app_inv syms n b" for b using that mem_upto_mono [of n] by (simp add: app_inv_def)
  moreover obtain a' where a': "app_main syms lower email a = Some a'" using app_main_eq [of syms a lower email] assms(1) by (simp add: app_inv_def)
  ultimately show ?thesis using app_main_inv [OF assms(1) a'] by (simp add: Restart)
qed

lemma app_run_inv:
  "app_inv syms n a \<Longrightarrow> int (n + length xs) \<le> max_int64 \<Longrightarrow> json_ok aj \<Longrightarrow> list_all mock_event xs
   \<Longrightarrow> \<exists>a'. app_run syms aj xs a = Some a' \<and> app_inv syms (n + length xs) a'"
proof (induction xs arbitrary: n a)
  case (Cons x xs)
  obtain a1 where 1: "app_step syms aj x a = Some a1" "app_inv syms (Suc n) a1"
    using app_step_inv [OF Cons.prems(1) _ Cons.prems(3), of x] Cons.prems(2,4) by auto
  with Cons.IH [OF 1(2)] Cons.prems show ?case by simp
qed simp

lemma New_app_inv:
  assumes "ledger_inv db" "in_int64 limit"
  shows "app_inv syms 0 (New_app syms db rnd limit)"
proof -
  have "mock_keys (NewMock rnd) = {}" "mock_outgoing (NewMock rnd) = []" by (simp_all add: mock_keys_def mock_outgoing_def NewMock_def)
  then have "wallet_inv mock_keys mock_outgoing (New_wallet db (NewMock rnd) limit)" using assms by (intro mock.New_wallet_inv)
  then show ?thesis using assms
    by (simp add: app_inv_def New_app_def NewMemStore_upto trading_inv_def NewTrading_def mj.synced_init shared_wallet_def New_wallet_def)
qed

end
