(* ===== verification/AppAudit.thy ===== *)
theory AppAudit
  imports AppInv
begin

text \<open>
  Who asked for what: every allowlist row, withdrawal and broadcast of the wallet goes back to requests of
  the run that were entitled to them.
\<close>

section \<open>Who asked for what\<close>

text \<open>
  \<open>audited GA GR GP w\<close>: every allowlist row was granted (\<open>GA\<close>), every withdrawal row was granted and its
  destination was (\<open>GR\<close>, \<open>GA\<close>), and every withdrawal that was broadcast was approved (\<open>GP\<close>).
\<close>

definition audited :: "(int64 \<Rightarrow> string \<Rightarrow> string \<Rightarrow> bool) \<Rightarrow> (int64 \<Rightarrow> string \<Rightarrow> string \<Rightarrow> int64 \<Rightarrow> bool) \<Rightarrow> (int64 \<Rightarrow> bool) \<Rightarrow> Mock wallet \<Rightarrow> bool" where
  "audited GA GR GP w \<longleftrightarrow> (\<forall>r \<in> set (wl_allowlist w). GA (al_user r) (al_asset r) (al_address r))
     \<and> (\<forall>r \<in> set (wl_withdrawals w). GA (wd_UserID r) (wd_Asset r) (wd_Address r) \<and> GR (wd_UserID r) (wd_Asset r) (wd_Address r) (wd_Amount r))
     \<and> (\<forall>i. mk_withdrawn (wl_custody w) (withdraw_key i) \<noteq> None \<longrightarrow> GP i)"

lemma audited_db [simp]: "audited GA GR GP (w\<lparr>wl_db := db\<rparr>) = audited GA GR GP w"
  by (simp add: audited_def)

lemma statement_audited:
  assumes "hoare (audited GA GR GP) f Q (audited GA GR GP)" "\<And>x w. Q x w \<Longrightarrow> audited GA GR GP w"
  shows "hoare (audited GA GR GP) (statement f) Q (audited GA GR GP)"
proof (rule hoareI)
  fix w w' r assume w: "audited GA GR GP w" and s: "statement f w = (w', r)"
  have db: "audited GA GR GP (w\<lparr>wl_db := db\<rparr>)" for db using w by simp
  from s show "case r of Inl e \<Rightarrow> audited GA GR GP w' | Inr x \<Rightarrow> Q x w'"
  proof (cases rule: statement_cases)
    case (run d)
    from hoareD [OF assms(1) db run(2)] show ?thesis .
  next
    case (lost d r')
    from hoareD [OF assms(1) db lost(2)] assms(2) lost(3) show ?thesis by (cases r') auto
  qed (use w in simp)
qed

lemma posting_audited: "keeps (audited GA GR GP) (posting f)"
  by (auto simp: hoare_def posting_def split: prod.splits sum.splits)

lemma read_audited: "keeps (audited GA GR GP) (statement (\<lambda>w. (w, g w)))"
  by (rule statement_audited) (auto simp: hoare_def split: sum.splits)

lemma update_withdrawal_audited:
  assumes "\<And>r. wd_UserID (f r) = wd_UserID r \<and> wd_Asset (f r) = wd_Asset r \<and> wd_Address (f r) = wd_Address r \<and> wd_Amount (f r) = wd_Amount r"
  shows "keeps (audited GA GR GP) (update_withdrawal i f)"
  unfolding update_withdrawal_def by (rule statement_audited) (auto simp: hoare_def audited_def assms)

lemma Request_audited:
  assumes "GR u a d x"
  shows "keeps (audited GA GR GP) (RequestWithdrawal u a d x)"
proof (rule hoareI)
  let ?P = "audited GA GR GP" and ?L = "\<lambda>w. audited GA GR GP w \<and> GA u a d"
  fix w w' r assume w: "?P w" and q: "RequestWithdrawal u a d x w = (w', r)"
  have listed: "hoare ?P (statement (\<lambda>w. (w, Inr (is_allowlisted u a d w)))) (\<lambda>b w. ?P w \<and> (b \<longrightarrow> GA u a d)) ?P"
    by (rule statement_audited) (auto simp: hoare_def audited_def is_allowlisted_def)
  have ins: "keeps ?P (insert_withdrawal u a x d)" if "GA u a d"
    unfolding insert_withdrawal_def
    by (rule statement_audited) (use that assms in \<open>auto simp: hoare_def audited_def Let_def split: if_splits prod.splits sum.splits\<close>)
  have del: "keeps ?P (delete_withdrawal i)" for i
    unfolding delete_withdrawal_def by (rule statement_audited) (auto simp: hoare_def audited_def)
  have lock: "keeps ?P (lock_withdrawal row)" for row
  proof (rule hoareI)
    fix w1 w2 r2 assume w1: "?P w1" and l: "lock_withdrawal row w1 = (w2, r2)"
    obtain w3 r3 where p: "posting (Lock (wd_UserID row) (wd_Asset row) (wd_Amount row) (wlock_key (wd_ID row))) w1 = (w3, r3)" by fastforce
    have "?P w3" using keepsD [OF posting_audited w1] p by (metis fst_conv)
    with l p keepsD [OF del] show "case r2 of Inl e \<Rightarrow> ?P w2 | Inr _ \<Rightarrow> ?P w2" by (auto simp: lock_withdrawal_def split: sum.splits)
  qed
  have "hoare ?P (andThen (statement (\<lambda>w. (w, Inr (is_allowlisted u a d w)))) (\<lambda>listed.
             if \<not> listed then (\<lambda>w. (w, Inl ErrNotAllowlisted)) else andThen (insert_withdrawal u a x d) lock_withdrawal)) (\<lambda>_. ?P) ?P"
  proof (rule hoare_andThen [OF listed])
    fix b show "hoare (\<lambda>w. ?P w \<and> (b \<longrightarrow> GA u a d)) (if \<not> b then (\<lambda>w. (w, Inl ErrNotAllowlisted)) else andThen (insert_withdrawal u a x d) lock_withdrawal) (\<lambda>_. ?P) ?P"
    proof (cases "b \<and> GA u a d")
      case True
      then show ?thesis using keeps_andThen [OF ins lock] by simp
    qed (auto simp: hoare_def)
  qed
  from hoareD [OF this w] q w show "case r of Inl e \<Rightarrow> ?P w' | Inr _ \<Rightarrow> ?P w'" by (auto simp: RequestWithdrawal_def split: if_splits)
qed

lemma Approve_audited:
  assumes "GP i"
  shows "keeps (audited GA GR GP) (ApproveWithdrawal Mock_Withdraw i)"
proof -
  let ?P = "audited GA GR GP"
  have read: "hoare ?P (lockRequested i) (\<lambda>r w. ?P w \<and> wd_ID r = i) ?P"
    unfolding lockRequested_def by (rule statement_audited) (auto simp: hoare_def find_Some_iff split: option.splits if_splits)
  have send: "keeps ?P (broadcast Mock_Withdraw r)" if "wd_ID r = i" for r
    using assms that by (auto simp: hoare_def broadcast_def Mock_Withdraw_def rand_Read_def audited_def Let_def split: option.splits list.splits)
  have row: "keeps ?P (approve_row Mock_Withdraw r)" if "wd_ID r = i" for r
    unfolding approve_row_def by (intro keeps_rules posting_audited send that update_withdrawal_audited) simp_all
  have "hoare (\<lambda>w. ?P w \<and> wd_ID r = i) (approve_row Mock_Withdraw r) (\<lambda>_. ?P) ?P" for r
  proof (cases "wd_ID r = i")
    case True
    then show ?thesis using row by simp
  qed (simp add: hoare_def)
  then show ?thesis unfolding ApproveWithdrawal_def by (rule hoare_andThen [OF read])
qed

lemma Reject_audited: "keeps (audited GA GR GP) (RejectWithdrawal i)"
  unfolding RejectWithdrawal_def lockRequested_def reject_row_def
  by (intro keeps_rules posting_audited update_withdrawal_audited read_audited) simp_all

lemma Deposit_audited: "keeps (audited GA GR GP) (HandleDeposit a d t x n)"
proof -
  let ?P = "audited GA GR GP"
  have up: "keeps ?P (upsert_deposit u a x t n)" for u
    unfolding upsert_deposit_def by (rule statement_audited) (auto simp: hoare_def audited_def split: option.splits)
  have mark: "keeps ?P (mark_credited t a)"
    unfolding mark_credited_def by (rule statement_audited) (auto simp: hoare_def audited_def)
  have eq: "HandleDeposit a d t x n = (if x \<le> 0 then (\<lambda>w. (w, Inl ErrBadAmount)) else
      andThen (address_owner d a) (\<lambda>userID. andThen (upsert_deposit userID a x t n) (\<lambda>status.
             if status = ''credited'' \<or> n < ConfirmationsRequired then (\<lambda>w. (w, Inr False))
             else andThen (posting (Deposit userID a x (deposit_key t))) (\<lambda>_. andThen (mark_credited t a) (\<lambda>_ w. (w, Inr True))))))"
    by (rule ext) (simp add: HandleDeposit_def)
  show ?thesis unfolding eq address_owner_def by (intro keeps_rules read_audited up posting_audited mark)
qed

lemma Allowlist_audited:
  assumes "GA u a d"
  shows "keeps (audited GA GR GP) (AddAllowlistAddress u a d l)"
  unfolding AddAllowlistAddress_def
  by (rule statement_audited) (use assms in \<open>auto simp: hoare_def audited_def\<close>)

lemma select_address_audited: "keeps (audited GA GR GP) (select_address u a)"
  unfolding select_address_def by (rule read_audited)

lemma insert_address_row_audited: "keeps (audited GA GR GP) (insert_address_row u a d)"
  by (auto simp: hoare_def insert_address_row_def audited_def)

lemma NewAddress_audited:
  "Mock_NewAddress a ref (wl_custody w) = (c, x) \<Longrightarrow> audited GA GR GP w \<Longrightarrow> audited GA GR GP (w\<lparr>wl_custody := c\<rparr>)"
  by (auto simp: Mock_NewAddress_def rand_Read_def audited_def split: list.splits option.splits)

lemma keeps_pair: "keeps P f \<Longrightarrow> P w \<Longrightarrow> f w = (w', r) \<Longrightarrow> P w'"
  by (auto simp: hoare_def split: sum.splits)

lemma Address_audited:
  assumes w: "audited GA GR GP w"
  shows "audited GA GR GP (fst (DepositAddress Mock_NewAddress rival u a w))"
proof -
  let ?P = "audited GA GR GP"
  obtain w1 x where s: "select_address u a w = (w1, x)" by fastforce
  have w1: "?P w1" by (rule keeps_pair [OF select_address_audited w s])
  obtain c y where n: "Mock_NewAddress a (''user:'' @ fmt_d u) (wl_custody w1) = (c, y)" by fastforce
  define w2 where "w2 = (case rival of None \<Rightarrow> w1\<lparr>wl_custody := c\<rparr> | Some d \<Rightarrow> fst (insert_address_row u a d (w1\<lparr>wl_custody := c\<rparr>)))"
  have c: "?P (w1\<lparr>wl_custody := c\<rparr>)" by (rule NewAddress_audited [OF n w1])
  then have w2: "?P w2" by (auto simp: w2_def intro!: keepsD [OF insert_address_row_audited] split: option.split)
  have after: "?P (fst (case statement (insert_address_row u a d) w2 of
        (w, Inr _) \<Rightarrow> (w, d, None)
      | (w, Inl err) \<Rightarrow> if err = ErrUnique
          then (case select_address u a w of
                  (w, Inr (Some a)) \<Rightarrow> (w, a, None)
                | (w, Inr None) \<Rightarrow> (w, d, Some ErrNoRow)
                | (w, Inl err) \<Rightarrow> (w, d, Some err))
          else (w, d, Some err)))" for d
  proof -
    obtain w3 z where i: "statement (insert_address_row u a d) w2 = (w3, z)" by fastforce
    have w3: "?P w3" by (rule keeps_pair [OF statement_audited [OF insert_address_row_audited] w2 i])
    obtain w4 v where s4: "select_address u a w3 = (w4, v)" by fastforce
    have "?P w4" by (rule keeps_pair [OF select_address_audited w3 s4])
    with w3 i s4 show ?thesis by (simp split: sum.split option.split)
  qed
  show ?thesis unfolding DepositAddress_def s prod.case n Let_def w2_def [symmetric]
    using w1 c after by (simp split: sum.split option.split)
qed

section \<open>Who may administer\<close>

definition admins :: "(int64 \<Rightarrow> bool) \<Rightarrow> MemStore \<Rightarrow> bool" where
  "admins G m \<longleftrightarrow> (\<forall>i u. ms_users m i = Some u \<and> us_IsAdmin u \<longrightarrow> G i)"

text \<open>No operation of the account service makes an administrator.\<close>

interpretation adm: store_kept "admins G" "admins G" for G
  by unfold_locales (auto simp: admins_def MemStore_DeleteSession_def MemStore_CreateUser_def MemStore_SetTOTP_def
      MemStore_CreateSession_def MemStore_CreateAPIKey_def Let_def split: option.splits)

lemma bootstrap_admins:
  assumes "admins G m" "\<And>uid. email \<noteq> [] \<Longrightarrow> ms_byEmail m (lower email) = Some uid \<Longrightarrow> G uid"
  shows "admins G (bootstrap_admin lower email m)"
  using assms by (auto simp: admins_def bootstrap_admin_def MemStore_SetAdmin_def split: option.splits)

section \<open>The trace of a run\<close>

text \<open>The events of a run, each with the account store it met.\<close>

fun app_trace :: "string list \<Rightarrow> app_json \<Rightarrow> 'c app_event list \<Rightarrow> (MemStore, 'c, MemJournal) app \<Rightarrow> ('c app_event \<times> MemStore) list" where
  "app_trace syms aj [] a = []"
| "app_trace syms aj (x # xs) a = (x, ap_accounts a) # (case app_step syms aj x a of None \<Rightarrow> [] | Some a \<Rightarrow> app_trace syms aj xs a)"

text \<open>A request of the run was entitled to the operation; an administrator's request approved the
  withdrawal \<open>i\<close>; a restart promoted the user.\<close>

definition granted :: "app_json \<Rightarrow> ('c app_event \<times> MemStore) list \<Rightarrow> wallet_op \<Rightarrow> bool" where
  "granted aj T op \<longleftrightarrow> (\<exists>c m. (Serve c, m) \<in> set T
     \<and> wallet_grant (ca_account c) (ca_wallet c) (aj_wallet aj) mem (ca_request c) m op)"

definition approved_by :: "app_json \<Rightarrow> ('c app_event \<times> MemStore) list \<Rightarrow> int64 \<Rightarrow> int64 \<Rightarrow> bool" where
  "approved_by aj T i uid \<longleftrightarrow> (\<exists>c m u s1. (Serve c, m) \<in> set T \<and> session_of (ca_account c) mem (ca_request c) m u s1
     \<and> us_ID u = uid \<and> us_IsAdmin u \<and> jw_id (aj_wallet aj) (rq_Body (ca_request c)) = Some i)"

definition promoted :: "('c app_event \<times> MemStore) list \<Rightarrow> int64 \<Rightarrow> bool" where
  "promoted T uid \<longleftrightarrow> (\<exists>lower email m. (Restart lower email, m) \<in> set T \<and> email \<noteq> [] \<and> ms_byEmail m (lower email) = Some uid)"

definition chain :: "app_json \<Rightarrow> ('c app_event \<times> MemStore) list \<Rightarrow> Mock wallet \<Rightarrow> bool" where
  "chain aj T = audited (\<lambda>u a d. \<exists>l. granted aj T (WAllow u a d l)) (\<lambda>u a d x. granted aj T (WRequest u a d x))
     (\<lambda>i. \<exists>adm. approved_by aj T i adm \<and> promoted T adm)"

lemma wallet_exec_chain:
  assumes "chain aj T w" "(Serve c, m) \<in> set T" "wallet_grant (ca_account c) (ca_wallet c) (aj_wallet aj) mem (ca_request c) m op"
    and "admins (promoted T) m" "mem_inv m"
  shows "chain aj T (wallet_exec Mock_NewAddress Mock_Withdraw op w)"
proof -
  have g: "granted aj T op" using assms(2,3) by (auto simp: granted_def)
  show ?thesis
  proof (cases op)
    case (WAddress rival u a)
    then show ?thesis using Address_audited assms(1) by (simp add: chain_def)
  next
    case (WAllow u a d l)
    then show ?thesis using g assms(1) by (auto simp: chain_def intro!: keepsD [OF Allowlist_audited])
  next
    case (WRequest u a d x)
    then show ?thesis using g assms(1) by (auto simp: chain_def intro!: keepsD [OF Request_audited])
  next
    case (WApprove i)
    then obtain u s1 where u: "session_of (ca_account c) mem (ca_request c) m u s1" "us_IsAdmin u" "jw_id (aj_wallet aj) (rq_Body (ca_request c)) = Some i"
      using assms(3) by auto
    have "promoted T (us_ID u)" using assms(4) session_user [OF u(1) assms(5)] u(2) by (auto simp: admins_def)
    moreover have "approved_by aj T i (us_ID u)" using u assms(2) by (auto simp: approved_by_def)
    ultimately show ?thesis using WApprove assms(1) by (auto simp: chain_def intro!: keepsD [OF Approve_audited])
  next
    case (WReject i)
    then show ?thesis using assms(1) by (auto simp: chain_def intro!: keepsD [OF Reject_audited])
  next
    case (WDeposit a d t x n)
    then show ?thesis using assms(1) by (auto simp: chain_def intro!: keepsD [OF Deposit_audited])
  qed (use assms(3) in auto)
qed

lemma chain_db: "chain aj T (w\<lparr>wl_db := db\<rparr>) = chain aj T w"
  by (simp add: chain_def)

lemma http_effect_chain:
  assumes "http_effect (ca_account c) (ca_wallet c) (aj_wallet aj) mem (ca_request c) m w w'" "mock_call c"
    and "chain aj T w" "(Serve c, m) \<in> set T" "admins (promoted T) m" "mem_inv m"
  shows "chain aj T w'"
  using assms(1) unfolding http_effect_def
proof (elim disjE exE conjE)
  assume "quiet w w'"
  then show ?thesis using assms(3) by (auto simp: quiet_def chain_db)
qed (use wallet_exec_chain [OF assms(3,4) _ assms(5,6)] assms(2) in \<open>auto simp: mock_call_def\<close>)

lemma NewMux_chain:
  assumes "NewMux aj MemJournal_Append mem c a = Some (a', resp)" "mock_call c" "(Serve c, ap_accounts a) \<in> set T"
    and "mem_inv (ap_accounts a)" "admins (promoted T) (ap_accounts a)" "chain aj T (ap_wallet a)"
  shows "admins (promoted T) (ap_accounts a') \<and> chain aj T (ap_wallet a')"
proof (cases "mux_dispatch app_routes (rq_Path (ca_request c))")
  case (To srv)
  show ?thesis
  proof (cases srv)
    case AccountAPI
    then show ?thesis using assms(1,6) To adm.account_ServeHTTP_kept [OF assms(5), of "ca_account c" "aj_account aj" "ca_request c"]
      by (auto simp: NewMux_def split: prod.splits)
  next
    case WalletAPI
    then obtain s w st b where r: "wallet_ServeHTTP (ca_account c) (ca_wallet c) (aj_wallet aj) mem (ca_request c) (ap_accounts a, shared_wallet a) = ((s, w), st, b)"
      "a' = store_wallet w (a\<lparr>ap_accounts := s\<rparr>)" using assms(1) To by (auto simp: NewMux_def split: prod.splits)
    have "chain aj T (shared_wallet a)" using assms(6) by (simp add: shared_wallet_def chain_db)
    from http_effect_chain [OF wallet_ServeHTTP_effect [OF r(1)] assms(2) this assms(3,5,4)] adm.wallet_ServeHTTP_kept [OF r(1) assms(5)]
    show ?thesis by (simp add: r(2) store_wallet_def)
  next
    case ExchangeAPI
    then obtain s t st b where r: "exchange_ServeHTTP (ca_account c) (ca_exchange c) (aj_exchange aj) MemJournal_Append mem (ca_request c) (ap_accounts a, ap_trading a) = Some ((s, t), st, b)"
      "a' = a\<lparr>ap_accounts := s, ap_trading := t\<rparr>" using assms(1) To by (auto simp: NewMux_def split: prod.splits option.splits)
    from adm.exchange_ServeHTTP_kept [OF r(1) assms(5)] assms(6) show ?thesis by (simp add: r(2))
  qed
qed (use assms in \<open>auto simp: NewMux_def\<close>)

lemma app_step_chain:
  assumes "app_step syms aj x a = Some a'" "mock_event x" "(x, ap_accounts a) \<in> set T"
    and "app_inv syms n a" "admins (promoted T) (ap_accounts a)" "chain aj T (ap_wallet a)"
  shows "admins (promoted T) (ap_accounts a') \<and> chain aj T (ap_wallet a')"
proof (cases x)
  case (Serve c)
  then show ?thesis using assms NewMux_chain [of aj c a a'] by (auto simp: app_inv_def mem_upto_def)
next
  case (Restart lower email)
  have "admins (promoted T) (bootstrap_admin lower email (ap_accounts a))"
    by (rule bootstrap_admins [OF assms(5)]) (use assms(3) Restart in \<open>auto simp: promoted_def\<close>)
  with assms Restart app_main_eq [of syms a lower email] show ?thesis by (auto simp: app_inv_def)
qed

lemma app_run_chain:
  "app_run syms aj xs a = Some a' \<Longrightarrow> list_all mock_event xs \<Longrightarrow> set (app_trace syms aj xs a) \<subseteq> set T \<Longrightarrow> app_inv syms n a
   \<Longrightarrow> int (n + length xs) \<le> max_int64 \<Longrightarrow> json_ok aj \<Longrightarrow> admins (promoted T) (ap_accounts a) \<Longrightarrow> chain aj T (ap_wallet a)
   \<Longrightarrow> admins (promoted T) (ap_accounts a') \<and> chain aj T (ap_wallet a')"
proof (induction xs arbitrary: n a)
  case (Cons x xs)
  have n: "int n < max_int64" using Cons.prems(5) by simp
  obtain a1 where 1: "app_step syms aj x a = Some a1" "app_inv syms (Suc n) a1"
    using app_step_inv [OF Cons.prems(4) n Cons.prems(6), of x] Cons.prems(2) by auto
  have "admins (promoted T) (ap_accounts a1) \<and> chain aj T (ap_wallet a1)"
    by (rule app_step_chain [OF 1(1) _ _ Cons.prems(4,7,8)]) (use Cons.prems(2,3) in auto)
  with Cons.IH [of a1 "Suc n"] Cons.prems 1 show ?case by auto
qed simp

lemma New_app_chain: "admins G (ap_accounts (New_app syms db rnd limit)) \<and> chain aj T (ap_wallet (New_app syms db rnd limit))"
  by (simp add: New_app_def admins_def NewMemStore_def chain_def audited_def New_wallet_def NewMock_def)

end
