(* ===== verification/Middleware.thy ===== *)
theory Middleware
  imports RateLimitProps Http
begin

text \<open>
  The middleware at the HTTP edge (\<open>src/libs/httpx/middleware.go\<close>): the key of a client, the rate limit, the
  metrics, runs of requests through them, and what they guarantee.
\<close>

section \<open>The key of a client\<close>

fun IndexByte :: "string \<Rightarrow> char \<Rightarrow> nat option" where
  "IndexByte [] c = None"
| "IndexByte (x # xs) c = (if x = c then Some 0 else map_option Suc (IndexByte xs c))"

definition LastIndexByte :: "string \<Rightarrow> char \<Rightarrow> nat option" where
  "LastIndexByte s c = map_option (\<lambda>i. length s - 1 - i) (IndexByte (rev s) c)"

text \<open>\<open>net.SplitHostPort\<close>: the host may be in brackets; \<open>None\<close> is its error.\<close>

definition SplitHostPort :: "string \<Rightarrow> (string \<times> string) option" where
  "SplitHostPort hostport =
     (case LastIndexByte hostport (CHR '':'') of
        None \<Rightarrow> None
      | Some i \<Rightarrow>
          if hd hostport = CHR ''[''
          then (case IndexByte hostport (CHR '']'') of
                  None \<Rightarrow> None
                | Some e \<Rightarrow>
                    if e + 1 \<noteq> i \<or> CHR ''['' \<in> set (drop 1 hostport) \<or> CHR '']'' \<in> set (drop (e + 1) hostport) then None
                    else Some (take (e - 1) (drop 1 hostport), drop (i + 1) hostport))
          else if CHR '':'' \<in> set (take i hostport) \<or> CHR ''['' \<in> set hostport \<or> CHR '']'' \<in> set hostport then None
          else Some (take i hostport, drop (i + 1) hostport))"

definition ClientIP :: "http_request \<Rightarrow> string" where
  "ClientIP r =
     (let xff = rq_Header r ''X-Forwarded-For''
      in if xff \<noteq> [] then (case SplitHostPort xff of Some (host, _) \<Rightarrow> host | None \<Rightarrow> xff)
         else (case SplitHostPort (rq_RemoteAddr r) of Some (host, _) \<Rightarrow> host | None \<Rightarrow> rq_RemoteAddr r))"

section \<open>The middleware\<close>

text \<open>
  A handler gets the request (\<open>'q\<close>, read by \<open>req\<close>) and the state behind it and returns the pattern
  the mux matched, empty when there is none, with the response; \<open>None\<close> is a panic.
  \<open>mt_requests\<close> counts by method, route and status, \<open>mt_latency\<close> the observations by route.
\<close>

type_synonym ('q, 's, 'b) handler = "'q \<Rightarrow> 's \<Rightarrow> ('s \<times> string \<times> 'b response) option"

record Metrics =
  mt_requests :: "string \<times> string \<times> nat \<Rightarrow> nat"
  mt_latency :: "string \<Rightarrow> nat"
  mt_limited :: nat

definition NewMetrics :: Metrics where
  "NewMetrics = \<lparr>mt_requests = (\<lambda>_. 0), mt_latency = (\<lambda>_. 0), mt_limited = 0\<rparr>"

record ('l, 's) edge =
  ed_limiter :: 'l
  ed_metrics :: Metrics
  ed_state :: 's

datatype 'b edge_body = RateLimited | Answer 'b

definition MarkLimited :: "Metrics \<Rightarrow> Metrics" where
  "MarkLimited mt = mt\<lparr>mt_limited := Suc (mt_limited mt)\<rparr>"

definition serve_next :: "('q, 's, 'b) handler \<Rightarrow> ('q, ('l, 's) edge, 'b edge_body) handler" where
  "serve_next nxt q e =
     (case nxt q (ed_state e) of
        None \<Rightarrow> None
      | Some (s, pat, status, b) \<Rightarrow> Some (e\<lparr>ed_state := s\<rparr>, pat, status, Answer b))"

definition RateLimit_mw :: "(string \<Rightarrow> 'l \<Rightarrow> 'l \<times> (unit + bool)) \<Rightarrow> (http_request \<Rightarrow> string) \<Rightarrow> ('q \<Rightarrow> http_request) \<Rightarrow>
    ('q, 's, 'b) handler \<Rightarrow> ('q, ('l, 's) edge, 'b edge_body) handler" where
  "RateLimit_mw allow key req nxt q e =
     (case allow (key (req q)) (ed_limiter e) of
        (l, Inl _) \<Rightarrow> serve_next nxt q (e\<lparr>ed_limiter := l\<rparr>)
      | (l, Inr ok) \<Rightarrow>
          if \<not> ok then Some (e\<lparr>ed_limiter := l, ed_metrics := MarkLimited (ed_metrics e)\<rparr>, [], 429, RateLimited)
          else serve_next nxt q (e\<lparr>ed_limiter := l\<rparr>))"

definition routeLabel :: "string \<Rightarrow> string" where
  "routeLabel pat = (if pat \<noteq> [] then pat else ''other'')"

definition observe :: "string \<Rightarrow> string \<Rightarrow> nat \<Rightarrow> Metrics \<Rightarrow> Metrics" where
  "observe meth route status mt =
     mt\<lparr>mt_requests := (mt_requests mt)((meth, route, status) := Suc (mt_requests mt (meth, route, status))),
        mt_latency := (mt_latency mt)(route := Suc (mt_latency mt route))\<rparr>"

definition Instrument :: "('q \<Rightarrow> http_request) \<Rightarrow> ('q, ('l, 's) edge, 'b) handler \<Rightarrow> ('q, ('l, 's) edge, 'b) handler" where
  "Instrument req nxt q e =
     (case nxt q e of
        None \<Rightarrow> None
      | Some (e, pat, status, b) \<Rightarrow>
          Some (e\<lparr>ed_metrics := observe (rq_Method (req q)) (routeLabel pat) status (ed_metrics e)\<rparr>, pat, status, b))"

text \<open>The requests of a run arrive with the time at which the limiter looks at its clock.\<close>

type_synonym 'l limiter = "time \<Rightarrow> string \<Rightarrow> 'l \<Rightarrow> 'l \<times> (unit + bool)"

definition edge_serve :: "'l limiter \<Rightarrow> ('q \<Rightarrow> http_request) \<Rightarrow> ('q, 's, 'b) handler \<Rightarrow> time \<Rightarrow> ('q, ('l, 's) edge, 'b edge_body) handler" where
  "edge_serve allow req nxt now = Instrument req (RateLimit_mw (allow now) ClientIP req nxt)"

fun edge_run :: "'l limiter \<Rightarrow> ('q \<Rightarrow> http_request) \<Rightarrow> ('q, 's, 'b) handler \<Rightarrow> (time \<times> 'q) list \<Rightarrow> ('l, 's) edge \<Rightarrow>
    (('l, 's) edge \<times> (string \<times> 'b edge_body response) list) option" where
  "edge_run allow req nxt [] e = Some (e, [])"
| "edge_run allow req nxt ((now, q) # qs) e =
     (case edge_serve allow req nxt now q e of
        None \<Rightarrow> None
      | Some (e, resp) \<Rightarrow> map_option (\<lambda>(e, resps). (e, resp # resps)) (edge_run allow req nxt qs e))"

definition memory_limiter :: "(rat \<Rightarrow> rat) \<Rightarrow> Config \<Rightarrow> MemoryLimiter limiter" where
  "memory_limiter fl cfg now key l = (case MemoryLimiter_Allow fl cfg now key l of (l, ok) \<Rightarrow> (l, Inr ok))"

section \<open>What one request does\<close>

lemma edge_serve_cases:
  assumes "edge_serve allow req nxt now q e = Some (e', pat, status, b)"
  obtains (limited) l where "allow now (ClientIP (req q)) (ed_limiter e) = (l, Inr False)" "b = RateLimited" "pat = []" "status = 429"
      "e' = e\<lparr>ed_limiter := l, ed_metrics := observe (rq_Method (req q)) ''other'' 429 (MarkLimited (ed_metrics e))\<rparr>"
    | (served) l r s c where "allow now (ClientIP (req q)) (ed_limiter e) = (l, r)" "r \<noteq> Inr False" "b = Answer c"
      "nxt q (ed_state e) = Some (s, pat, status, c)"
      "e' = e\<lparr>ed_limiter := l, ed_state := s, ed_metrics := observe (rq_Method (req q)) (routeLabel pat) status (ed_metrics e)\<rparr>"
proof -
  obtain l r where a: "allow now (ClientIP (req q)) (ed_limiter e) = (l, r)" by fastforce
  show thesis
  proof (cases "r = Inr False")
    case True
    then show thesis using assms a by (intro limited [of l]) (auto simp: edge_serve_def Instrument_def RateLimit_mw_def routeLabel_def)
  next
    case False
    then have "RateLimit_mw (allow now) ClientIP req nxt q e = serve_next nxt q (e\<lparr>ed_limiter := l\<rparr>)"
      using a by (auto simp: RateLimit_mw_def split: sum.split)
    then obtain s c where "nxt q (ed_state e) = Some (s, pat, status, c)" "b = Answer c"
      "e' = e\<lparr>ed_limiter := l, ed_state := s, ed_metrics := observe (rq_Method (req q)) (routeLabel pat) status (ed_metrics e)\<rparr>"
      using assms by (auto simp: edge_serve_def Instrument_def serve_next_def split: option.splits)
    with a False show thesis by (intro served [of l r c s])
  qed
qed

section \<open>Runs of the edge\<close>

definition client_calls :: "('q \<Rightarrow> http_request) \<Rightarrow> (time \<times> 'q) list \<Rightarrow> (time \<times> string) list" where
  "client_calls req qs = map (\<lambda>(now, q). (now, ClientIP (req q))) qs"

definition passed :: "string \<times> 'b edge_body response \<Rightarrow> bool" where
  "passed resp \<longleftrightarrow> snd (snd resp) \<noteq> RateLimited"

lemma edge_run_total:
  assumes "\<And>q s. nxt q s \<noteq> None"
  shows "\<exists>e' rs. edge_run allow req nxt qs e = Some (e', rs)"
proof (induction qs arbitrary: e)
  case (Cons x qs)
  obtain now q where x: "x = (now, q)" by fastforce
  have "RateLimit_mw (allow now) ClientIP req nxt q e \<noteq> None"
    using assms [of q "ed_state e"] by (auto simp: RateLimit_mw_def serve_next_def split: prod.split sum.split option.split)
  then obtain e1 resp where "edge_serve allow req nxt now q e = Some (e1, resp)"
    by (auto simp: edge_serve_def Instrument_def)
  with Cons.IH [of e1] x show ?case by auto
qed simp

text \<open>The limiter decides which requests pass, in the order in which they arrive.\<close>

lemma edge_run_limiter:
  "edge_run (memory_limiter fl cfg) req nxt qs e = Some (e', rs)
   \<Longrightarrow> limiter_run fl cfg (client_calls req qs) (ed_limiter e) = (ed_limiter e', map passed rs)"
proof (induction qs arbitrary: e rs)
  case (Cons x qs)
  obtain now q where x: "x = (now, q)" by fastforce
  obtain e1 pat st b rs1 where 1: "edge_serve (memory_limiter fl cfg) req nxt now q e = Some (e1, pat, st, b)"
    "edge_run (memory_limiter fl cfg) req nxt qs e1 = Some (e', rs1)" "rs = (pat, st, b) # rs1"
    using Cons.prems x by (auto split: option.splits)
  have "MemoryLimiter_Allow fl cfg now (ClientIP (req q)) (ed_limiter e) = (ed_limiter e1, passed (pat, st, b))"
    using 1(1) by (cases rule: edge_serve_cases) (auto simp: memory_limiter_def passed_def split: prod.splits)
  with Cons.IH [OF 1(2)] 1(3) show ?case by (simp add: client_calls_def x)
qed (simp add: client_calls_def)

section \<open>Properties of the edge\<close>

text \<open>C13: The rate limit at the edge. In any stretch \<open>ys\<close> of the requests the server gets, whatever came
  before and whatever other clients send in between, the requests of one client address that are
  handed on to a handler between the times \<open>a\<close> and \<open>b\<close> number at most the burst plus the rate times the
  elapsed seconds, up to the rounding of floats; the others are answered with 429.\<close>

theorem edge_rate_bound:
  assumes "config_ok cfg" "times_from 0 (client_calls req (xs @ ys))" "a \<le> b" "\<forall>y \<in> set ys. a \<le> fst y \<and> fst y \<le> b"
    and "edge_run (memory_limiter fl64 cfg) req nxt xs \<lparr>ed_limiter = NewMemory, ed_metrics = mt, ed_state = s\<rparr> = Some (e1, rs1)"
    and "edge_run (memory_limiter fl64 cfg) req nxt ys e1 = Some (e2, rs2)"
  shows "of_nat (length (filter (\<lambda>((_, q), resp). ClientIP (req q) = key \<and> passed resp) (zip ys rs2)))
    \<le> cf_Burst cfg + of_int (b - a) / 10 ^ 9 * cf_Rate cfg * (1 + 1 / 2 ^ 53) ^ 5
       + of_nat (requested key (client_calls req ys)) * cf_Burst cfg / 2 ^ 52"
proof -
  let ?c = "client_calls req"
  have t: "times_from 0 (?c xs @ ?c ys)" using assms(2) by (simp add: client_calls_def)
  have w: "\<forall>c \<in> set (?c ys). a \<le> fst c \<and> fst c \<le> b" using assms(4) by (auto simp: client_calls_def)
  have "admitted key (?c ys) (map passed rs2) = length (filter (\<lambda>((_, q), resp). ClientIP (req q) = key \<and> passed resp) (zip ys rs2))"
    by (simp add: admitted_def client_calls_def zip_map1 zip_map2 filter_map comp_def split_def)
  with limiter_rate_bound [OF assms(1) t assms(3) w, of key] edge_run_limiter [OF assms(5)] edge_run_limiter [OF assms(6)]
  show ?thesis by simp
qed

definition demo_handler :: "(http_request, unit, unit) handler" where
  "demo_handler q s = Some (s, ''GET /v1/me'', 200, ())"

definition demo_get :: "string \<Rightarrow> http_request" where
  "demo_get addr = \<lparr>rq_Method = ''GET'', rq_Path = ''/v1/me'', rq_Header = (\<lambda>_. []), rq_Query = (\<lambda>_. []), rq_Body = [], rq_RemoteAddr = addr\<rparr>"

definition demo_burst :: "(time \<times> http_request) list" where
  "demo_burst = replicate 3 (1000000000, demo_get ''10.0.0.1:99'') @ [(2000000000, demo_get ''[::1]:7'')]"

lemma demo_burst_calls: "client_calls (\<lambda>r. r) demo_burst = replicate 3 (1000000000, ''10.0.0.1'') @ [(2000000000, ''::1'')]"
  by code_simp

definition demo_edge :: "'l \<Rightarrow> ('l, unit) edge" where
  "demo_edge l = \<lparr>ed_limiter = l, ed_metrics = NewMetrics, ed_state = ()\<rparr>"

theorem edge_rate_bound_witness:
  "\<exists>e rs. edge_run (memory_limiter fl64 demo_cfg) (\<lambda>r. r) demo_handler demo_burst (demo_edge NewMemory) = Some (e, rs)
     \<and> of_nat (length (filter (\<lambda>((_, q), resp). ClientIP q = ''10.0.0.1'' \<and> passed resp) (zip demo_burst rs))) \<le> (61 :: rat)"
proof -
  obtain e rs where r: "edge_run (memory_limiter fl64 demo_cfg) (\<lambda>r. r) demo_handler demo_burst (demo_edge NewMemory) = Some (e, rs)"
    using edge_run_total [of demo_handler] by (fastforce simp: demo_handler_def)
  have t: "times_from 0 (client_calls (\<lambda>r. r) ([] @ demo_burst))" by (simp add: demo_burst_calls numeral_3_eq_3)
  have w: "\<forall>y \<in> set demo_burst. 1000000000 \<le> fst y \<and> fst y \<le> 2000000000" by (auto simp: demo_burst_def)
  have "of_nat (length (filter (\<lambda>((_, q), resp). ClientIP q = ''10.0.0.1'' \<and> passed resp) (zip demo_burst rs)))
    \<le> 40 + 1 * 20 * (1 + 1 / 2 ^ 53) ^ 5 + 3 * 40 / (2 ^ 52 :: rat)"
    using edge_rate_bound [OF demo_cfg_ok(1) t _ w, of demo_handler NewMetrics "()" "demo_edge NewMemory" "[]" e rs "''10.0.0.1''"] r
    by (simp add: demo_edge_def demo_burst_calls demo_cfg_def requested_def)
  also have "\<dots> \<le> 61" by (simp add: power_numeral_reduce)
  finally show ?thesis using r by blast
qed

text \<open>The metrics count what was served. Whatever the limiter and the handlers do, after a run every
  request counter has grown by exactly the number of requests with that method, route and status, the
  latency of a route has one observation per request, and the rate-limited counter has grown by the
  number of requests that were refused, all of which are counted as status 429 of the route
  \<open>other\<close>.\<close>

theorem metrics_exact:
  assumes "edge_run allow req nxt qs e = Some (e', rs)"
  shows "mt_requests (ed_metrics e') (m, route, st) = mt_requests (ed_metrics e) (m, route, st)
      + length (filter (\<lambda>((_, q), (pat, status, _)). rq_Method (req q) = m \<and> routeLabel pat = route \<and> status = st) (zip qs rs))
    \<and> mt_latency (ed_metrics e') route = mt_latency (ed_metrics e) route + length (filter (\<lambda>(pat, _). routeLabel pat = route) rs)
    \<and> mt_limited (ed_metrics e') = mt_limited (ed_metrics e) + length (filter (\<lambda>resp. \<not> passed resp) rs)
    \<and> (\<forall>resp \<in> set rs. \<not> passed resp \<longrightarrow> routeLabel (fst resp) = ''other'' \<and> fst (snd resp) = 429)"
  using assms
proof (induction qs arbitrary: e rs)
  case (Cons x qs)
  obtain now q where x: "x = (now, q)" by fastforce
  obtain e1 pat st' b rs1 where 1: "edge_serve allow req nxt now q e = Some (e1, pat, st', b)"
    "edge_run allow req nxt qs e1 = Some (e', rs1)" "rs = (pat, st', b) # rs1"
    using Cons.prems x by (auto split: option.splits)
  note ih = Cons.IH [OF 1(2)]
  show ?case using 1(1)
  proof (cases rule: edge_serve_cases)
    case (limited l)
    then show ?thesis using ih by (auto simp: x 1(3) passed_def observe_def MarkLimited_def routeLabel_def)
  next
    case (served l r s c)
    then show ?thesis using ih by (auto simp: x 1(3) passed_def observe_def)
  qed
qed simp

definition closed_limiter :: "unit limiter" where
  "closed_limiter now key l = (l, Inr (key \<noteq> ''10.0.0.1''))"

theorem metrics_exact_witness:
  "\<exists>e rs. edge_run closed_limiter (\<lambda>r. r) demo_handler demo_burst (demo_edge ()) = Some (e, rs)
     \<and> mt_requests (ed_metrics e) (''GET'', ''other'', 429) = 3 \<and> mt_limited (ed_metrics e) = 3"
proof -
  obtain e rs where r: "edge_run closed_limiter (\<lambda>r. r) demo_handler demo_burst (demo_edge ()) = Some (e, rs)"
    using edge_run_total [of demo_handler] by (fastforce simp: demo_handler_def)
  have "map_option (\<lambda>x. map fst (snd x)) (edge_run closed_limiter (\<lambda>r. r) demo_handler demo_burst (demo_edge ())) = Some [[], [], [], ''GET /v1/me'']"
    "map_option (\<lambda>x. map (fst \<circ> snd) (snd x)) (edge_run closed_limiter (\<lambda>r. r) demo_handler demo_burst (demo_edge ())) = Some [429, 429, 429, 200]"
    "map_option (\<lambda>x. map passed (snd x)) (edge_run closed_limiter (\<lambda>r. r) demo_handler demo_burst (demo_edge ())) = Some [False, False, False, True]"
    by code_simp+
  then obtain b1 b2 b3 b4 where "rs = [([], 429, b1), ([], 429, b2), ([], 429, b3), (''GET /v1/me'', 200, b4)]"
    "map passed rs = [False, False, False, True]" by (auto simp: r map_eq_Cons_conv)
  with metrics_exact [OF r, of "''GET''" "''other''" 429] show ?thesis using r
    by (auto simp: demo_burst_def demo_get_def routeLabel_def demo_edge_def NewMetrics_def numeral_3_eq_3)
qed

text \<open>When Redis cannot be reached the limit is off: every request is handed on.\<close>

theorem outage_fails_open:
  assumes "edge_run (\<lambda>now key db. RedisLimiter_Allow fl cfg prefix RedisFail (clock now) now key db) req nxt qs e = Some (e', rs)"
  shows "list_all passed rs \<and> mt_limited (ed_metrics e') = mt_limited (ed_metrics e)"
  using assms
proof (induction qs arbitrary: e rs)
  case (Cons x qs)
  obtain now q where x: "x = (now, q)" by fastforce
  let ?lim = "\<lambda>now key db. RedisLimiter_Allow fl cfg prefix RedisFail (clock now) now key db"
  obtain e1 pat st' b rs1 where 1: "edge_serve ?lim req nxt now q e = Some (e1, pat, st', b)"
    "edge_run ?lim req nxt qs e1 = Some (e', rs1)" "rs = (pat, st', b) # rs1"
    using Cons.prems x by (auto split: option.splits)
  from 1(1) Cons.IH [OF 1(2)] show ?case
    by (cases rule: edge_serve_cases) (auto simp: 1(3) passed_def RedisLimiter_Allow_def observe_def)
qed simp

theorem outage_fails_open_witness:
  "\<exists>e rs. edge_run (\<lambda>now key db. RedisLimiter_Allow fl64 demo_cfg ''rl'' RedisFail (now div second) now key db) (\<lambda>r. r) demo_handler demo_burst
       (demo_edge Map.empty) = Some (e, rs) \<and> list_all passed rs"
proof -
  obtain e rs where r: "edge_run (\<lambda>now key db. RedisLimiter_Allow fl64 demo_cfg ''rl'' RedisFail (now div second) now key db) (\<lambda>r. r) demo_handler
       demo_burst (demo_edge Map.empty) = Some (e, rs)"
    using edge_run_total [of demo_handler] by (fastforce simp: demo_handler_def)
  from outage_fails_open [OF r] r show ?thesis by blast
qed

section \<open>The forwarded header\<close>

lemma IndexByte_None: "c \<notin> set s \<Longrightarrow> IndexByte s c = None"
  by (induction s) auto

lemma ClientIP_forwarded:
  assumes "ip \<noteq> []" "CHR '':'' \<notin> set ip"
  shows "ClientIP (r\<lparr>rq_Header := (rq_Header r)(''X-Forwarded-For'' := ip)\<rparr>) = ip"
  using assms by (simp add: ClientIP_def SplitHostPort_def LastIndexByte_def IndexByte_None)

lemma fresh_key_admitted:
  assumes "1 \<le> cf_Burst cfg" "fl64 (cf_Burst cfg) = cf_Burst cfg" "l key = None"
  shows "\<exists>l'. MemoryLimiter_Allow fl64 cfg now key l = (l', True) \<and> (\<forall>k. k \<noteq> key \<longrightarrow> l' k = l k)"
  using assms by (simp add: MemoryLimiter_Allow_def take_token_def refill_def time_Sub_def fl64.Seconds_whole [of 0, simplified])

text \<open>C37: The client chooses its own key: a client that sends another \<open>X-Forwarded-For\<close> value with each
  request is never limited, however many requests it sends at once from the same address.\<close>

theorem forwarded_header_evades:
  assumes "1 \<le> cf_Burst cfg" "fl64 (cf_Burst cfg) = cf_Burst cfg"
    and "distinct ips" "\<forall>ip \<in> set ips. ip \<noteq> [] \<and> CHR '':'' \<notin> set ip \<and> ed_limiter e ip = None"
    and "\<forall>q s. nxt q s \<noteq> None"
  shows "\<exists>e' rs. edge_run (memory_limiter fl64 cfg) (\<lambda>r. r) nxt
      (map (\<lambda>ip. (now, r\<lparr>rq_Header := (rq_Header r)(''X-Forwarded-For'' := ip)\<rparr>)) ips) e = Some (e', rs) \<and> list_all passed rs"
  using assms(3,4)
proof (induction ips arbitrary: e)
  case (Cons ip ips)
  let ?r = "r\<lparr>rq_Header := (rq_Header r)(''X-Forwarded-For'' := ip)\<rparr>"
  have k: "ClientIP ?r = ip" using Cons.prems(2) by (intro ClientIP_forwarded) auto
  from fresh_key_admitted [OF assms(1,2), of "ed_limiter e" ip now] Cons.prems(2) obtain l' where
    l: "MemoryLimiter_Allow fl64 cfg now ip (ed_limiter e) = (l', True)" "\<forall>k. k \<noteq> ip \<longrightarrow> l' k = ed_limiter e k" by auto
  obtain s pat st c where n: "nxt ?r (ed_state e) = Some (s, pat, st, c)" using assms(5) by (metis option.exhaust prod_cases3 surj_pair)
  let ?e1 = "e\<lparr>ed_limiter := l', ed_state := s, ed_metrics := observe (rq_Method ?r) (routeLabel pat) st (ed_metrics e)\<rparr>"
  have 1: "edge_serve (memory_limiter fl64 cfg) (\<lambda>r. r) nxt now ?r e = Some (?e1, pat, st, Answer c)"
    by (simp add: edge_serve_def Instrument_def RateLimit_mw_def k memory_limiter_def l(1) serve_next_def n del: fun_upd_apply)
  have "\<forall>ip \<in> set ips. ip \<noteq> [] \<and> CHR '':'' \<notin> set ip \<and> ed_limiter ?e1 ip = None" using Cons.prems l(2) by auto
  with Cons.IH [of ?e1] Cons.prems(1) 1 show ?case by (auto simp: passed_def simp del: fun_upd_apply)
qed simp

theorem forwarded_header_evades_witness:
  "\<exists>e rs. edge_run (memory_limiter fl64 demo_cfg) (\<lambda>r. r) demo_handler
      (map (\<lambda>ip. (0, (demo_get ''10.0.0.1:99'')\<lparr>rq_Header := (rq_Header (demo_get ''10.0.0.1:99''))(''X-Forwarded-For'' := ip)\<rparr>)) [''1.1.1.1'', ''2.2.2.2''])
      (demo_edge NewMemory) = Some (e, rs) \<and> list_all passed rs"
  by (rule forwarded_header_evades [OF demo_cfg_ok(2,3)]) (simp_all add: demo_edge_def NewMemory_def demo_handler_def)

end
