(* ===== verification/Edge.thy ===== *)
theory Edge
  imports AppInv Middleware
begin

text \<open>
  The server \<open>cmd/exchange/main.go\<close> puts together: the operational routes, the services behind the rate limit
  and the metrics, and that the edge changes nothing of what the services do.
\<close>

section \<open>The server's mux\<close>

text \<open>
  \<open>main\<close> adds the operational routes to the route tree of the services; \<open>mc_ping\<close> says whether the
  database answers.
\<close>

record 'c main_call =
  mc_call :: "'c app_call"
  mc_ping :: bool

datatype ops_route = OMetrics | OHealthz | OReadyz

datatype main_body = MApp app_body | MMetrics | MHealthy | MReady bool

definition ops_routes :: "(string \<times> string \<times> ops_route) list" where
  "ops_routes = [(''GET'', ''/metrics'', OMetrics), (''GET'', ''/healthz'', OHealthz), (''GET'', ''/readyz'', OReadyz)]"

text \<open>The pattern the muxes leave in the request: the inner mux's, which overwrites the outer one's.\<close>

definition mux_pattern :: "(string \<times> string \<times> 'h) list \<Rightarrow> string \<Rightarrow> string \<Rightarrow> string" where
  "mux_pattern pats m p = (case find (\<lambda>(pm, pp, _). pp = p \<and> method_matches pm m) pats of
       Some (pm, pp, _) \<Rightarrow> pm @ '' '' @ pp
     | None \<Rightarrow> [])"

definition app_pattern :: "'c app_call \<Rightarrow> string" where
  "app_pattern c =
     (let r = ca_request c; m = rq_Method r; p = rq_Path r
      in case mux_dispatch app_routes p of
           To AccountAPI \<Rightarrow> mux_pattern account_routes m p
         | To WalletAPI \<Rightarrow> mux_pattern wallet_routes m p
         | To ExchangeAPI \<Rightarrow> mux_pattern (exchange_routes (xe_faucet (ca_exchange c))) m p
         | RedirectTo q \<Rightarrow> q
         | NoHandler \<Rightarrow> [])"

definition ops_match :: "'c main_call \<Rightarrow> ops_route option" where
  "ops_match q = (case mux_route ops_routes (rq_Method (ca_request (mc_call q))) (rq_Path (ca_request (mc_call q))) of
       Found h \<Rightarrow> Some h
     | _ \<Rightarrow> None)"

definition main_handler :: "app_json \<Rightarrow> ('c main_call, (MemStore, 'c, MemJournal) app, main_body) handler" where
  "main_handler aj q a =
     (let r = ca_request (mc_call q); pat = mux_pattern ops_routes (rq_Method r) (rq_Path r)
      in case ops_match q of
           Some OMetrics \<Rightarrow> Some (a, pat, 200, MMetrics)
         | Some OHealthz \<Rightarrow> Some (a, pat, 200, MHealthy)
         | Some OReadyz \<Rightarrow> Some (a, pat, if mc_ping q then 200 else 503, MReady (mc_ping q))
         | None \<Rightarrow>
             (case NewMux aj MemJournal_Append mem (mc_call q) a of
                None \<Rightarrow> None
              | Some (a, status, b) \<Rightarrow> Some (a, app_pattern (mc_call q), status, MApp b)))"

definition main_request :: "'c main_call \<Rightarrow> http_request" where
  "main_request q = ca_request (mc_call q)"

text \<open>The calls of a run that reached the services.\<close>

definition behind :: "(time \<times> 'c main_call) list \<Rightarrow> (string \<times> main_body edge_body response) list \<Rightarrow> 'c app_event list" where
  "behind qs rs = map (\<lambda>((_, q), _). Serve (mc_call q)) (filter (\<lambda>((_, q), resp). passed resp \<and> ops_match q = None) (zip qs rs))"

lemma behind_simps [simp]:
  "behind [] rs = []"
  "behind ((t, q) # qs) (resp # rs) = (if passed resp \<and> ops_match q = None then Serve (mc_call q) # behind qs rs else behind qs rs)"
  by (simp_all add: behind_def)

section \<open>The server\<close>

text \<open>One request at the edge: refused or operational, and the services are untouched; or served by them.\<close>

lemma main_handler_step:
  assumes "app_inv syms n a" "int n < max_int64" "json_ok aj" "mock_call (mc_call q)"
  shows "\<exists>a' pat st b. main_handler aj q a = Some (a', pat, st, b) \<and> app_inv syms (Suc n) a'
    \<and> (if ops_match q = None then app_step syms aj (Serve (mc_call q)) a = Some a' else a' = a)"
proof (cases "ops_match q")
  case None
  then show ?thesis using NewMux_inv [OF assms] by (auto simp: main_handler_def)
next
  case (Some h)
  have "app_inv syms (Suc n) a" using assms(1) mem_upto_mono [of n] by (simp add: app_inv_def)
  with Some show ?thesis by (cases h) (simp_all add: main_handler_def Let_def)
qed

lemma main_serve:
  assumes "app_inv syms n (ed_state e)" "int n < max_int64" "json_ok aj" "mock_call (mc_call q)"
  shows "\<exists>e' resp. edge_serve allow main_request (main_handler aj) now q e = Some (e', resp) \<and> app_inv syms (Suc n) (ed_state e')
    \<and> (if passed resp \<and> ops_match q = None then app_step syms aj (Serve (mc_call q)) (ed_state e) = Some (ed_state e')
       else ed_state e' = ed_state e)"
proof -
  obtain a' pat st b where m: "main_handler aj q (ed_state e) = Some (a', pat, st, b)" "app_inv syms (Suc n) a'"
    "if ops_match q = None then app_step syms aj (Serve (mc_call q)) (ed_state e) = Some a' else a' = ed_state e"
    using main_handler_step [OF assms] by blast
  have same: "app_inv syms (Suc n) (ed_state e)" using assms(1) mem_upto_mono [of n] by (simp add: app_inv_def)
  obtain l r where a: "allow now (ClientIP (main_request q)) (ed_limiter e) = (l, r)" by fastforce
  show ?thesis
  proof (cases "r = Inr False")
    case True
    then show ?thesis using same a by (auto simp: edge_serve_def Instrument_def RateLimit_mw_def passed_def)
  next
    case False
    then have "RateLimit_mw (allow now) ClientIP main_request (main_handler aj) q e = serve_next (main_handler aj) q (e\<lparr>ed_limiter := l\<rparr>)"
      using a by (auto simp: RateLimit_mw_def split: sum.split)
    then obtain e' where "edge_serve allow main_request (main_handler aj) now q e = Some (e', pat, st, Answer b)" "ed_state e' = a'"
      by (simp add: edge_serve_def Instrument_def serve_next_def m(1))
    then show ?thesis using m(2,3) by (intro exI [of _ e'] exI [of _ "(pat, st, Answer b)"]) (auto simp: passed_def)
  qed
qed

text \<open>C12: The server behind its edge. Whatever requests arrive, whatever the limiter answers and whenever it
  fails, every request is answered, and the accounts, the wallet and the exchange end up exactly as if
  the services had been called directly with the requests that passed and are not operational ones, in
  that order: a refused request and a health check have no effect on them.\<close>

theorem server_refines_services:
  assumes "json_ok aj" "list_all (\<lambda>(_, q). mock_call (mc_call q)) qs" "app_inv syms n (ed_state e)" "int (n + length qs) \<le> max_int64"
  shows "\<exists>e' rs. edge_run allow main_request (main_handler aj) qs e = Some (e', rs) \<and> length rs = length qs
    \<and> app_run syms aj (behind qs rs) (ed_state e) = Some (ed_state e')"
  using assms(2-4)
proof (induction qs arbitrary: n e)
  case (Cons x qs)
  obtain now q where x: "x = (now, q)" by fastforce
  have n: "int n < max_int64" "mock_call (mc_call q)" using Cons.prems x by simp_all
  from main_serve [OF Cons.prems(2) n(1) assms(1) n(2), of allow now] obtain e1 resp where
    1: "edge_serve allow main_request (main_handler aj) now q e = Some (e1, resp)" "app_inv syms (Suc n) (ed_state e1)"
      "if passed resp \<and> ops_match q = None then app_step syms aj (Serve (mc_call q)) (ed_state e) = Some (ed_state e1)
       else ed_state e1 = ed_state e" by blast
  from Cons.IH [OF _ 1(2)] Cons.prems obtain e2 rs where
    2: "edge_run allow main_request (main_handler aj) qs e1 = Some (e2, rs)" "length rs = length qs"
      "app_run syms aj (behind qs rs) (ed_state e1) = Some (ed_state e2)" by auto
  show ?case
    by (rule exI [of _ e2], rule exI [of _ "resp # rs"]) (use 1 2 x in \<open>auto split: if_splits\<close>)
qed simp

end
