(* ===== verification/AppProps.thy ===== *)
theory AppProps
  imports AppAudit Edge "HOL-Library.Code_Target_Nat"
begin

text \<open>
  The properties of the whole backend, with a run that takes a payout from sign-up to broadcast.
\<close>

section \<open>A concrete run\<close>

text \<open>Two users sign up, one of them is promoted by a restart; the other sets up a second factor, gets a
  deposit address, is credited, allowlists an address and withdraws. Her own attempt to approve is
  refused.\<close>

definition demo_code :: string where "demo_code = hotp demo_prm ''seed'' 2"

definition demo_json :: app_json where
  "demo_json = \<lparr>aj_account = \<lparr>js_signup = (\<lambda>b. if b = ''alice'' \<or> b = ''root'' then Some (b @ ''@x'', ''password-1'') else None),
       js_login = (\<lambda>b. if b = ''alice'' \<or> b = ''root'' then Some (b @ ''@x'', ''password-1'', []) else None),
       js_code = (\<lambda>b. if b = ''code'' then Some demo_code else None), js_label = (\<lambda>b. None)\<rparr>,
     aj_wallet = \<lparr>jw_allow = (\<lambda>b. if b = ''allow'' then Some (''BTC'', ''cold'', ''vault'', demo_code) else None),
       jw_withdraw = (\<lambda>b. if b = ''withdraw'' then Some (''BTC'', ''cold'', 4, demo_code) else None),
       jw_id = (\<lambda>b. if b = ''1'' then Some 1 else None),
       jw_deposit = (\<lambda>b. if b = ''deposit'' then Some (''BTC'', ''BTC_6162'', ''t1'', 10, 3) else None)\<rparr>,
     aj_exchange = \<lparr>jx_place = (\<lambda>b. None), jx_cancel = (\<lambda>b. None), jx_symbol = (\<lambda>b. None), jx_deposit = (\<lambda>b. if b = ''faucet'' then Some (''BTC'', 7) else None)\<rparr>\<rparr>"

definition demo_request :: "string \<Rightarrow> string \<Rightarrow> string \<Rightarrow> string \<Rightarrow> string \<Rightarrow> Mock app_call" where
  "demo_request meth path who body rnd = \<lparr>ca_account = \<lparr>en_prm = demo_prm, en_text = demo_text, en_cipher = None, en_now = 60 * second, en_now2 = 60 * second,
       en_rand = Some rnd, en_rand2 = None\<rparr>,
     ca_wallet = \<lparr>we_newAddress = Mock_NewAddress, we_withdraw = Mock_Withdraw, we_webhookSecret = ''hook'', we_rival = None\<rparr>,
     ca_exchange = \<lparr>xe_newID = None, xe_race = Replied, xe_faucet = False, xe_ids = [], xe_books = []\<rparr>,
     ca_request = \<lparr>rq_Method = meth, rq_Path = path,
       rq_Header = (\<lambda>h. if h = ''Authorization'' then ''Bearer '' @ hex_EncodeToString who else if h = ''X-Webhook-Secret'' then ''hook'' else []),
       rq_Query = (\<lambda>q. ''BTC''), rq_Body = body, rq_RemoteAddr = ''10.0.0.1:99''\<rparr>\<rparr>"

definition demo_call :: "string \<Rightarrow> string \<Rightarrow> string \<Rightarrow> string \<Rightarrow> string \<Rightarrow> Mock app_event" where
  "demo_call meth path who body rnd = Serve (demo_request meth path who body rnd)"

definition demo_events :: "Mock app_event list" where
  "demo_events = [demo_call ''POST'' ''/v1/signup'' [] ''alice'' ''salt'', demo_call ''POST'' ''/v1/signup'' [] ''root'' ''salt'',
     Restart (\<lambda>s. s) ''root@x'',
     demo_call ''POST'' ''/v1/login'' [] ''alice'' ''a'', demo_call ''POST'' ''/v1/login'' [] ''root'' ''r'',
     demo_call ''POST'' ''/v1/2fa/setup'' ''a'' [] ''seed'', demo_call ''POST'' ''/v1/2fa/confirm'' ''a'' ''code'' [],
     demo_call ''GET'' ''/v1/wallet/address'' ''a'' [] [], demo_call ''POST'' ''/v1/wallet/webhook/deposit'' [] ''deposit'' [],
     demo_call ''POST'' ''/v1/wallet/allowlist'' ''a'' ''allow'' [], demo_call ''POST'' ''/v1/wallet/withdraw'' ''a'' ''withdraw'' [],
     demo_call ''POST'' ''/v1/admin/withdrawals/approve'' ''a'' ''1'' [], demo_call ''POST'' ''/v1/admin/withdrawals/approve'' ''r'' ''1'' []]"

definition demo_app :: "(MemStore, Mock, MemJournal) app" where
  "demo_app = New_app [''BTC-USDT''] (empty_ledger [1, 2] [''BTC'', ''USDT''] []) [Some ''ab'', Some ''cd''] 100"

definition demo_syms :: "string list" where "demo_syms = [''BTC-USDT'']"

lemma demo_json_ok: "json_ok demo_json"
  by (auto simp: json_ok_def demo_json_def in_int64_def)

lemma demo_events_ok: "list_all mock_event demo_events" "int (length demo_events) \<le> max_int64" "in_int64 100"
  by (simp_all add: demo_events_def demo_call_def demo_request_def mock_call_def in_int64_def)

section \<open>Properties of the backend\<close>


text \<open>What the run of the example did.\<close>

lemma demo_app_run:
  "map_option (\<lambda>a. map (\<lambda>b. (bc_Asset b, bc_Address b, bc_Amount b)) (mk_Broadcasts (wl_custody (ap_wallet a)))) (app_run demo_syms demo_json demo_events demo_app)
     = Some [(''BTC'', ''cold'', 4)]"
  by code_simp


text \<open>C2: The life of a payout. For every transfer that left custody in a run of the whole backend there is
  a different withdrawal, and the requests of the run account for it: one, with a valid session of its
  owner and a valid one-time code, that put this address on the owner's allowlist; one, again with
  session and code, for exactly this asset, address and amount; and one by an administrator that named
  the withdrawal, whom a restart of the process by its operator had promoted. No sequence of requests
  makes anyone an administrator.\<close>

theorem payout_chain:
  assumes "json_ok aj" "list_all mock_event xs" "int (length xs) \<le> max_int64" "in_int64 limit"
  shows "let a0 = New_app syms (empty_ledger users assets sched) rnd limit; T = app_trace syms aj xs a0
    in \<exists>a ids. app_run syms aj xs a0 = Some a \<and> distinct ids
      \<and> list_all2 (\<lambda>i b. \<exists>u l adm. granted aj T (WAllow u (bc_Asset b) (bc_Address b) l)
            \<and> granted aj T (WRequest u (bc_Asset b) (bc_Address b) (bc_Amount b))
            \<and> approved_by aj T i adm \<and> promoted T adm) ids (mk_Broadcasts (wl_custody (ap_wallet a)))"
proof -
  define a0 where "a0 = New_app syms (empty_ledger users assets sched) rnd limit"
  define T where "T = app_trace syms aj xs a0"
  let ?chain = "\<lambda>i b. \<exists>u l adm. granted aj T (WAllow u (bc_Asset b) (bc_Address b) l)
     \<and> granted aj T (WRequest u (bc_Asset b) (bc_Address b) (bc_Amount b)) \<and> approved_by aj T i adm \<and> promoted T adm"
  have i0: "app_inv syms 0 a0" unfolding a0_def by (rule New_app_inv [OF empty_ledger_inv assms(4)])
  from app_run_inv [OF i0, of xs aj] assms(1-3) obtain a where
    a: "app_run syms aj xs a0 = Some a" "wallet_inv mock_keys mock_outgoing (shared_wallet a)" by (auto simp: app_inv_def)
  have "set (app_trace syms aj xs a0) \<subseteq> set T" "int (0 + length xs) \<le> max_int64" using assms(3) by (simp_all add: T_def)
  then have "chain aj T (ap_wallet a)"
    using app_run_chain [OF a(1) assms(2) _ i0 _ assms(1)] New_app_chain unfolding a0_def by blast
  note c = this [unfolded chain_def audited_def]
  obtain ids where ids: "distinct ids" "mock_keys (wl_custody (ap_wallet a)) = withdraw_key ` set ids"
    "list_all2 (paid_for (shared_wallet a)) ids (mock_outgoing (wl_custody (ap_wallet a)))"
    using a(2) by (auto simp: wallet_inv_def shared_wallet_def)
  have "?chain i b" if i: "i \<in> set ids" and p: "paid_for (shared_wallet a) i (bc_Asset b, bc_Address b, bc_Amount b)" for i b
  proof -
    from p obtain r where r: "r \<in> set (wl_withdrawals (ap_wallet a))" "wd_Asset r = bc_Asset b" "wd_Address r = bc_Address b" "wd_Amount r = bc_Amount b"
      by (auto simp: paid_for_def shared_wallet_def)
    have "mk_withdrawn (wl_custody (ap_wallet a)) (withdraw_key i) \<noteq> None" using ids(2) i by (auto simp: mock_keys_def)
    with c obtain adm where "approved_by aj T i adm" "promoted T adm" by blast
    moreover from c r(1) obtain l where "granted aj T (WAllow (wd_UserID r) (wd_Asset r) (wd_Address r) l)"
      "granted aj T (WRequest (wd_UserID r) (wd_Asset r) (wd_Address r) (wd_Amount r))" by blast
    ultimately show ?thesis using r by auto
  qed
  with ids(3) have "list_all2 ?chain ids (mk_Broadcasts (wl_custody (ap_wallet a)))"
    by (auto simp: mock_outgoing_def list.rel_map elim!: list.rel_mono_strong)
  with a(1) ids(1) show ?thesis unfolding T_def a0_def Let_def by blast
qed

theorem payout_chain_witness:
  "\<exists>u l. granted demo_json (app_trace demo_syms demo_json demo_events demo_app) (WAllow u ''BTC'' ''cold'' l)
     \<and> granted demo_json (app_trace demo_syms demo_json demo_events demo_app) (WRequest u ''BTC'' ''cold'' 4)"
proof -
  from payout_chain [OF demo_json_ok demo_events_ok, of demo_syms "[1, 2]" "[''BTC'', ''USDT'']" "[]" "[Some ''ab'', Some ''cd'']"]
  obtain a ids where r: "app_run demo_syms demo_json demo_events demo_app = Some a" and
    l: "list_all2 (\<lambda>i b. \<exists>u l adm. granted demo_json (app_trace demo_syms demo_json demo_events demo_app) (WAllow u (bc_Asset b) (bc_Address b) l)
          \<and> granted demo_json (app_trace demo_syms demo_json demo_events demo_app) (WRequest u (bc_Asset b) (bc_Address b) (bc_Amount b))
          \<and> approved_by demo_json (app_trace demo_syms demo_json demo_events demo_app) i adm
          \<and> promoted (app_trace demo_syms demo_json demo_events demo_app) adm) ids (mk_Broadcasts (wl_custody (ap_wallet a)))"
    unfolding demo_app_def demo_syms_def Let_def by blast
  have "map (\<lambda>b. (bc_Asset b, bc_Address b, bc_Amount b)) (mk_Broadcasts (wl_custody (ap_wallet a))) = [(''BTC'', ''cold'', 4)]"
    using demo_app_run r by simp
  then obtain b where b: "mk_Broadcasts (wl_custody (ap_wallet a)) = [b]" "bc_Asset b = ''BTC''" "bc_Address b = ''cold''" "bc_Amount b = 4"
    by (auto simp: map_eq_Cons_conv)
  with l show ?thesis by (auto simp: list_all2_Cons2)
qed

text \<open>C8: What a wallet request may do. Serving a request leaves the wallet as it is, or performs one wallet
  operation that the request is entitled to: a deposit address, allowlist entry or withdrawal only for
  the user of its session, the last two only with a valid one-time code and with the values of its
  body; an approval or rejection only of the withdrawal it names and only for an administrator; a
  deposit only with the webhook secret.\<close>

theorem wallet_http_authority:
  assumes "wallet_ServeHTTP en we jw S r (s, w) = ((s', w'), resp)"
  shows "(\<exists>db. same_tables (wl_db w) db \<and> w' = w\<lparr>wl_db := db\<rparr>)
    \<or> (\<exists>op. w' = wallet_exec (we_newAddress we) (we_withdraw we) op w \<and> wallet_grant en we jw S r s op)"
  using wallet_ServeHTTP_effect [OF assms] by (simp add: http_effect_def quiet_def)

definition demo_funded :: "Mock wallet" where
  "demo_funded = wallet_exec Mock_NewAddress Mock_Withdraw (WAddress None 1 ''BTC'') demo_wallet"

definition demo_hook :: "Mock app_call" where
  "demo_hook = demo_request ''POST'' ''/v1/wallet/webhook/deposit'' [] ''deposit'' []"

theorem wallet_http_authority_witness:
  "\<exists>op s' w' resp. wallet_ServeHTTP (ca_account demo_hook) (ca_wallet demo_hook) (aj_wallet demo_json) mem (ca_request demo_hook) (NewMemStore, demo_funded)
       = ((s', w'), resp) \<and> wl_deposits w' \<noteq> []
     \<and> wallet_grant (ca_account demo_hook) (ca_wallet demo_hook) (aj_wallet demo_json) mem (ca_request demo_hook) NewMemStore op"
proof -
  let ?r = "wallet_ServeHTTP (ca_account demo_hook) (ca_wallet demo_hook) (aj_wallet demo_json) mem (ca_request demo_hook) (NewMemStore, demo_funded)"
  obtain s' w' resp where r: "?r = ((s', w'), resp)" by (metis surj_pair)
  have "length (wl_deposits (snd (fst ?r))) = 1" "length (wl_deposits demo_funded) = 0" by code_simp+
  then have "wl_deposits w' \<noteq> []" "wl_deposits demo_funded = []" unfolding r by auto
  with wallet_http_authority [OF r] r show ?thesis by fastforce
qed

text \<open>C9: What an exchange request may do. Serving a request leaves engine and ledger as they are, or
  performs one operation it is entitled to: an order or a cancel only for the user of its session or of
  its signed API key, with the values of its body; halting and resuming only for an administrator; a
  deposit only for the caller and only while the development faucet is on.\<close>

theorem exchange_http_authority:
  assumes "exchange_ServeHTTP en xe jx MemJournal_Append S r (s, t) = Some ((s', t'), resp)"
  shows "(\<exists>db. same_tables (td_ledger t) db \<and> t' = t\<lparr>td_ledger := db\<rparr>)
    \<or> (\<exists>op. trading_exec op t = Some t' \<and> trading_grant en xe jx S r s op)"
  using exchange_ServeHTTP_effect [OF assms] by (simp add: trading_effect_def tquiet_def)

definition demo_accounts_in :: MemStore where
  "demo_accounts_in = account_run demo_prm demo_text None [ASignup (Some ''salt'') ''a@x'' ''password-a'', ALogin 0 0 (Some ''a'') ''a@x'' ''password-a'' []] NewMemStore"

definition demo_faucet :: "Mock app_call" where
  "demo_faucet = (demo_request ''POST'' ''/v1/dev/deposit'' ''a'' ''faucet'' [])
     \<lparr>ca_exchange := \<lparr>xe_newID = Some ''n'', xe_race = Replied, xe_faucet = True, xe_ids = [], xe_books = []\<rparr>\<rparr>"

theorem exchange_http_authority_witness:
  "\<exists>op s' t' resp. exchange_ServeHTTP (ca_account demo_faucet) (ca_exchange demo_faucet) (aj_exchange demo_json) MemJournal_Append mem
       (ca_request demo_faucet) (demo_accounts_in, demo_trading) = Some ((s', t'), resp) \<and> bal (td_ledger t') (Some 1, ''BTC'', KindMain) = 7
     \<and> trading_grant (ca_account demo_faucet) (ca_exchange demo_faucet) (aj_exchange demo_json) mem (ca_request demo_faucet) demo_accounts_in op"
proof -
  let ?r = "exchange_ServeHTTP (ca_account demo_faucet) (ca_exchange demo_faucet) (aj_exchange demo_json) MemJournal_Append mem
       (ca_request demo_faucet) (demo_accounts_in, demo_trading)"
  have c: "map_option (\<lambda>x. bal (td_ledger (snd (fst x))) (Some 1, ''BTC'', KindMain)) ?r = Some 7" by code_simp
  then obtain s' t' resp where r: "?r = Some ((s', t'), resp)" by (cases ?r) auto
  with c have b: "bal (td_ledger t') (Some 1, ''BTC'', KindMain) = 7" by simp
  have "bal (td_ledger demo_trading) (Some 1, ''BTC'', KindMain) = 0" by code_simp
  then have "bal db (Some 1, ''BTC'', KindMain) = 0" if "same_tables (td_ledger demo_trading) db" for db
    using that by (simp add: same_tables_def bal_def)
  with exchange_http_authority [OF r] b r show ?thesis by fastforce
qed


section \<open>The server on the example\<close>

definition demo_visits :: "(time \<times> Mock main_call) list" where
  "demo_visits = map (\<lambda>c. (0, \<lparr>mc_call = c, mc_ping = True\<rparr>))
     [demo_request ''GET'' ''/healthz'' [] [] [], demo_request ''POST'' ''/v1/signup'' [] ''alice'' ''salt'', demo_request ''POST'' ''/v1/login'' [] ''alice'' ''a'']"

theorem server_refines_services_witness:
  "\<exists>e rs. edge_run (\<lambda>_ _ l. (Suc l, Inr (l < 2))) main_request (main_handler demo_json) demo_visits
       \<lparr>ed_limiter = 0, ed_metrics = NewMetrics, ed_state = demo_app\<rparr> = Some (e, rs)
     \<and> app_run demo_syms demo_json (behind demo_visits rs) demo_app = Some (ed_state e)"
proof -
  have v: "list_all (\<lambda>(_, q). mock_call (mc_call q)) demo_visits" "int (0 + length demo_visits) \<le> max_int64"
    by (simp_all add: demo_visits_def demo_request_def mock_call_def)
  have i: "app_inv demo_syms 0 demo_app"
    unfolding demo_app_def demo_syms_def by (rule New_app_inv [OF empty_ledger_inv demo_events_ok(3)])
  from server_refines_services [OF demo_json_ok v(1), of demo_syms 0 "\<lparr>ed_limiter = 0, ed_metrics = NewMetrics, ed_state = demo_app\<rparr>"
      "\<lambda>_ _ l. (Suc l, Inr (l < 2))"] i v(2) show ?thesis by auto
qed

end
