(* ===== verification/Spec2Isabelle.thy ===== *)
theory Spec2Isabelle
  imports Money BookContract EngineLoop LedgerOps TradingSafe Hub WalletProps AccountProps PGProps RateLimitProps EngineHTTP AppProps
begin

text \<open>
  \<^bold>\<open>Verification of the Bittech exchange backend.\<close>

  The program (Go, under \<open>src/\<close>) is a spot exchange: users sign up, log in with a second factor and create
  API keys (account service); deposit and withdraw through a custody provider (wallet service); place
  and cancel orders (exchange), which are matched by an engine with a command journal and paid for in a
  double-entry ledger. One binary, \<open>services/exchange/cmd/exchange\<close>, mounts the three HTTP services on one
  mux behind metrics and a rate limit. All services share one database and the account store; the
  coordinator in \<open>exchange/trading.go\<close> calls ledger and engine in turn, the wallet calls the ledger and
  the provider, and the engine's events go to the subscribers of the hub.

  \<^bold>\<open>Theories and sources.\<close>

  \<^item> \<open>Prelude\<close>, \<open>Support\<close>, \<open>Encoding\<close>, \<open>Float64\<close>: 64-bit wrap-around, lists, the sequencing operator \<open>andThen\<close>
    with its triples \<open>hoare\<close> and \<open>keeps\<close>, number formatting and scanning, hex, base64 and base32, and rounding
    to binary64.
  \<^item> \<open>Money\<close>: \<open>libs/money/money.go\<close>.
  \<^item> \<open>OrderBook\<close> (\<open>matching-engine/orderbook/\<close>): the book as the code has it, order objects in a store, price
    slices, FIFO levels, the map of live orders. \<open>BookSpec\<close> is the reference, a list of resting orders in
    price-time priority; \<open>BookRefine\<close> and \<open>BookOps\<close> give the invariant and the simulation; \<open>BookContract\<close> the
    contract of the operations.
  \<^item> \<open>Engine\<close>, \<open>Journal\<close>, \<open>EngineLoop\<close> (\<open>matching-engine/engine/\<close>): commands, events, admission, replay; the
    journals as instances of the locale \<open>journal\<close>; the loop and \<open>Submit\<close> as the step relation \<open>sys_step\<close>.
    \<open>EngineHTTP\<close>: the standalone binary \<open>cmd/matching-engine/main.go\<close>.
  \<^item> \<open>Ledger\<close>, \<open>LedgerPost\<close>, \<open>LedgerOps\<close> (\<open>ledger-service/ledger/ledger.go\<close>): SQL tables with their constraints and
    transactions, the effect of a posting, the movements and their contract, the locale \<open>ledger_contract\<close>.
  \<^item> \<open>Trading\<close>, \<open>TradingSafe\<close>, \<open>TradingGrowth\<close> (\<open>exchange/trading.go\<close>) and \<open>Hub\<close> (\<open>exchange/hub.go\<close>).
  \<^item> \<open>Custody\<close> (\<open>wallet-service/custody/custody.go\<close>): the locale \<open>custody_provider\<close> and the mock as its instance.
    \<open>Wallet\<close>, \<open>WalletInv\<close>, \<open>WalletProps\<close> (\<open>wallet-service/wallet/wallet.go\<close>).
  \<^item> \<open>Auth\<close>, \<open>AuthProps\<close> (\<open>account-service/auth/\<close>); \<open>Account\<close>, \<open>AccountStore\<close>, \<open>AccountProps\<close>
    (\<open>account-service/account/\<close>): the service over the locale \<open>account_store\<close>, the in-memory store as its
    instance, and the locale \<open>store_kept\<close> for what operations keep of it.
    \<open>PGStore\<close>, \<open>PGProps\<close>: the PostgreSQL store as an instance of the locale \<open>faulty_store\<close>.
  \<^item> \<open>RateLimit\<close>, \<open>RateLimitProps\<close> (\<open>libs/ratelimit/ratelimit.go\<close>); \<open>Middleware\<close> (\<open>libs/httpx/middleware.go\<close>).
  \<^item> \<open>Http\<close>, \<open>AccountHTTP\<close>, \<open>WalletHTTP\<close>, \<open>ExchangeHTTP\<close>: the three HTTP services, handler by handler.
  \<^item> \<open>HttpAuthority\<close>, \<open>App\<close>, \<open>AppStore\<close>, \<open>AppInv\<close>, \<open>AppAudit\<close>, \<open>Edge\<close>, \<open>AppProps\<close>: the composition of
    \<open>exchange/app/app.go\<close> and \<open>cmd/exchange/main.go\<close>.

  \<^bold>\<open>What is shown.\<close>

  \<^item> Book: every sequence of operations returns and computes the reference book; the exact effect,
    priority and conservation of an order; best prices never cross.
  \<^item> Engine: the loop with any interleaving of submissions; a crashed engine rebuilds its books from the
    journal; event keys, attribution and ownership of cancels.
  \<^item> Ledger: money is conserved, movements are atomic and idempotent, a retried movement is applied
    once, under any failing or lost round trip.
  \<^item> Trading: only funded orders reach the engine; the composed exchange stays sound under faults.
  \<^item> Wallet: what leaves custody is authorised and accounted for; deposits are credited exactly once.
  \<^item> Accounts: consistency of the tables and soundness of sessions under database failures, one-time codes (against an RFC 4226 reference), signed requests, password
    hashes.
  \<^item> Limiters: an upper bound on what is admitted, progress, and the equivalence of the shared and the
    in-memory one; at the edge, the bound per client address and its way around.
  \<^item> Backend: any run of requests and restarts is answered and keeps money, books and store sound; what
    one request may do; and the chain of authorised requests behind every payout.

  \<^bold>\<open>Conventions.\<close> \<open>int64\<close> and \<open>uint64\<close> are integers with the wrap-around written out (\<open>wrap64\<close>, \<open>i64_add\<close>);
  operations whose result is not yet known to be in range go through it. Errors are values of one
  datatype per package, results are \<open>error + 'a\<close>; a Go panic is \<open>None\<close>, and that it does not happen is part
  of the properties. The state of a service is passed through its operations. Each database round trip
  consumes one entry of a schedule (\<open>db_sched\<close>): it may succeed, fail before its effect, or take effect and
  report an error; the properties hold for every schedule. A command racing with its caller's context is
  the parameter \<open>submit_race\<close>; random bytes and clock readings are arguments.

  \<^bold>\<open>Loops and bounds.\<close> The matching loops are \<open>partial_function (option)\<close>: \<open>None\<close> would be a loop that does
  not end or a panic, and on every book that operations can reach they return (\<open>book_run_refines\<close>). All other
  recursion is on lists. Runs of the backend are bounded by \<open>2^63 - 1\<close> events, since each may consume a
  user id.

  \<^bold>\<open>Parameters.\<close> Code that is not in the repository is an argument: the JSON decoder and encoder (what is
  assumed: numbers decoded into an \<open>int64\<close> field are in range, and a journaled command decodes to itself,
  \<open>record_ok\<close>), the cryptographic primitives (\<open>primitives_ok\<close>), Unicode case folding, mail address parsing, the
  custody provider (the locale), and the rounding of floats (binary64, without overflow or fused
  multiply-add).

  \<^bold>\<open>Not modelled.\<close> Reading the environment, opening the database, files and listeners, logging and
  shutdown in the two \<open>main\<close> functions and in \<open>account-service/cmd\<close>; the WebSocket handshake and the
  delegation of \<open>Hijack\<close> and \<open>Flush\<close>; latency values (only their number); timestamps of rows; the contents of
  error texts of the database. The web front end (TypeScript), SQL migrations and infrastructure files are
  not Go code; the tables' constraints are part of the models that use them.
\<close>

end
